(* ===== verification/Prelude.thy ===== *)
theory Prelude
  imports "HOL-Library.Word" "HOL-Library.Monad_Syntax" "HOL-Library.Multiset"
begin

text \<open>
  Shared vocabulary of the development: the machine integers of the C code, the error numbers
  it returns, bounds-checked array and byte-buffer accesses (\<open>None\<close> is an access outside the
  object, which C leaves undefined) and the lemmas on words, lists and circular indices that the
  component theories use. The QNX values of the error numbers are used.
\<close>

unbundle bit_operations_syntax

section \<open>Machine integers and error numbers\<close>

type_synonym u8 = "8 word"
type_synonym u16 = "16 word"
type_synonym u32 = "32 word"
type_synonym u64 = "64 word"
type_synonym size_t = "64 word"
type_synonym ptr = "64 word"
type_synonym rc = int

text \<open>
  An output argument \<open>T *out\<close> is a \<open>T cell\<close>: \<open>None\<close> when the caller passes a null pointer,
  otherwise the content of the object it points to. A function returns the cell, so a path that
  does not write it returns the old content.
\<close>

type_synonym 'a cell = "'a option"

abbreviation EOK :: rc where "EOK \<equiv> 0"
abbreviation ENOENT :: rc where "ENOENT \<equiv> 2"
abbreviation EINTR :: rc where "EINTR \<equiv> 4"
abbreviation EIO :: rc where "EIO \<equiv> 5"
abbreviation ENOMEM :: rc where "ENOMEM \<equiv> 12"
abbreviation ENODEV :: rc where "ENODEV \<equiv> 19"
abbreviation EINVAL :: rc where "EINVAL \<equiv> 22"
abbreviation ENOTSUP :: rc where "ENOTSUP \<equiv> 48"
abbreviation ENOSYS :: rc where "ENOSYS \<equiv> 89"
abbreviation EALREADY :: rc where "EALREADY \<equiv> 237"
abbreviation ETIMEDOUT :: rc where "ETIMEDOUT \<equiv> 260"

named_theorems platform \<open>definitions of the calls that leave the program\<close>
named_theorems inv_simps \<open>invariants of the data structures, unfolded\<close>

section \<open>Words\<close>

lemma unat_inc: "(x::'a::len word) < y \<Longrightarrow> unat (x + 1) = Suc (unat x)"
proof -
  assume "x < y"
  then have "x + 1 \<noteq> 0" by (metis eq_neg_iff_add_eq_0 word_order.extremum_strict)
  then show ?thesis by (metis add.commute unatSuc)
qed

lemma unat_inc_eq: "unat (x::'a::len word) < unat (y::'a word) \<Longrightarrow> unat (x + 1) = Suc (unat x)"
  by (rule unat_inc) (simp add: word_less_nat_alt)

lemma unat_dec: "(x::'a::len word) \<noteq> 0 \<Longrightarrow> unat (x - 1) = unat x - 1"
  by (simp add: unat_minus_one)

lemma unat_sub_inc_less:
  "(c::'a::len word) \<noteq> n \<Longrightarrow> unat (n - (c + 1)) < unat (n - c)"
proof -
  assume "c \<noteq> n"
  then have "n - c \<noteq> 0" by simp
  then have "unat (n - c - 1) = unat (n - c) - 1" and "0 < unat (n - c)"
    by (simp_all add: unat_minus_one unat_gt_0)
  moreover have "n - (c + 1) = n - c - 1" by (simp add: algebra_simps)
  ultimately show ?thesis by (simp only:)
qed

lemma unat_inject: "unat (x::'a::len word) = unat y \<longleftrightarrow> x = y"
  by (simp add: word_unat_eq_iff)

lemma unat_u16_less: "unat (x::u16) < 65536"
  using unsigned_less [of x] by simp

lemma unat_ucast_16_64 [simp]: "unat (ucast (x::u16) :: u64) = unat x"
  by (simp add: unsigned_ucast_eq take_bit_nat_eq_self unsigned_less [THEN order_less_le_trans])

lemma unat_ucast_32_64 [simp]: "unat (ucast (x::u32) :: u64) = unat x"
  by (simp add: unsigned_ucast_eq take_bit_nat_eq_self unsigned_less [THEN order_less_le_trans])

lemma unat_ucast_16_32 [simp]: "unat (ucast (x::u16) :: u32) = unat x"
  by (simp add: unsigned_ucast_eq take_bit_nat_eq_self unsigned_less [THEN order_less_le_trans])

lemma ucast_16_64_16 [simp]: "ucast (ucast (x::u16) :: u64) = x"
  by (rule bit_word_eqI) (simp add: bit_simps)

lemma ucast_16_32_16 [simp]: "ucast (ucast (x::u16) :: u32) = x"
  by (rule bit_word_eqI) (simp add: bit_simps)

lemma unat_ucast_64_16: "unat (x::u64) < 65536 \<Longrightarrow> unat (ucast x :: u16) = unat x"
  by (simp add: unsigned_ucast_eq take_bit_nat_eq_self)

lemma ucast_64_16_64: "unat (x::u64) < 65536 \<Longrightarrow> (ucast (ucast x :: u16) :: u64) = x"
  by (simp only: word_unat_eq_iff unat_ucast_16_64 unat_ucast_64_16)

lemma distinct_words_length:
  assumes "distinct xs" and "\<forall>x \<in> set xs. (x::'a::len word) < n"
  shows "length xs \<le> unat n"
proof -
  have "distinct (map unat xs)"
    using assms(1) by (simp add: distinct_map inj_on_def unat_inject)
  moreover have "set (map unat xs) \<subseteq> {..<unat n}"
    using assms(2) by (auto simp: word_less_nat_alt)
  ultimately show ?thesis
    using card_mono [of "{..<unat n}" "set (map unat xs)"] by (simp add: distinct_card flip: set_map)
qed

text \<open>Rounding up: one interval less is one poll less.\<close>

lemma ceil_div_step:
  assumes "0 < i" and "0 < (r::nat)"
  shows "Suc ((r - i + (i - 1)) div i) \<le> (r + (i - 1)) div i"
proof (cases "i \<le> r")
  case True
  then have "r + (i - 1) = (r - i + (i - 1)) + i" by simp
  then have "(r + (i - 1)) div i = ((r - i + (i - 1)) + i) div i" by (rule arg_cong)
  then show ?thesis using assms(1) by (simp only: div_add_self2)
next
  case False
  have "i \<le> r + (i - 1)" using assms by simp
  then have "0 < (r + (i - 1)) div i" using assms(1) by (simp only: div_greater_zero_iff)
  moreover have "(r - i + (i - 1)) div i = 0" using False assms(1) by simp
  ultimately show ?thesis by simp
qed

text \<open>A 16-bit value as it lies in memory (both targets are little-endian).\<close>

definition le16 :: "u16 \<Rightarrow> u8 list" where
  "le16 x = [ucast x, ucast (drop_bit 8 x)]"

definition of_le16 :: "u8 list \<Rightarrow> u16" where
  "of_le16 bs = ucast (bs ! 0) OR push_bit 8 (ucast (bs ! 1))"

lemma length_le16 [simp]: "length (le16 x) = 2"
  by (simp add: le16_def)

lemma of_le16_le16 [simp]: "of_le16 (le16 x) = x"
  by (rule bit_word_eqI)
    (auto simp: of_le16_def le16_def bit_simps less_diff_conv2)

lemma le16_inject [simp]: "le16 x = le16 y \<longleftrightarrow> x = y"
  by (metis of_le16_le16)

section \<open>Arrays and byte buffers\<close>

text \<open>C array accesses with their bounds: \<open>None\<close> is an access outside the array.\<close>

definition arr_get :: "'a list \<Rightarrow> nat \<Rightarrow> 'a option" where
  "arr_get xs i = (if i < length xs then Some (xs ! i) else None)"

definition arr_set :: "'a list \<Rightarrow> nat \<Rightarrow> 'a \<Rightarrow> 'a list option" where
  "arr_set xs i v = (if i < length xs then Some (xs[i := v]) else None)"

definition mem_read :: "'a list \<Rightarrow> nat \<Rightarrow> nat \<Rightarrow> 'a list option" where
  "mem_read m off n = (if off + n \<le> length m then Some (take n (drop off m)) else None)"

definition mem_write :: "'a list \<Rightarrow> nat \<Rightarrow> 'a list \<Rightarrow> 'a list option" where
  "mem_write m off bs =
     (if off + length bs \<le> length m then Some (take off m @ bs @ drop (off + length bs) m) else None)"

lemma arr_get_Some [simp]: "i < length xs \<Longrightarrow> arr_get xs i = Some (xs ! i)"
  by (simp add: arr_get_def)

lemma arr_set_Some [simp]: "i < length xs \<Longrightarrow> arr_set xs i v = Some (xs[i := v])"
  by (simp add: arr_set_def)

lemma arr_set_eq_Some: "arr_set xs i v = Some ys \<longleftrightarrow> i < length xs \<and> ys = xs[i := v]"
  by (auto simp: arr_set_def)

lemma mem_read_Some [simp]:
  "off + n \<le> length m \<Longrightarrow> mem_read m off n = Some (take n (drop off m))"
  by (simp add: mem_read_def)

lemma mem_write_Some [simp]:
  "off + length bs \<le> length m \<Longrightarrow>
   mem_write m off bs = Some (take off m @ bs @ drop (off + length bs) m)"
  by (simp add: mem_write_def)

lemma splice_disjoint:
  assumes "off + length bs \<le> length m" and "off' + n \<le> off \<or> off + length bs \<le> off'"
  shows "take n (drop off' (take off m @ bs @ drop (off + length bs) m)) = take n (drop off' m)"
proof -
  let ?m = "take off m @ bs @ drop (off + length bs) m"
  have len: "length ?m = length m"
    using assms(1) by simp
  show ?thesis
  proof (rule nth_equalityI)
    show "length (take n (drop off' ?m)) = length (take n (drop off' m))"
      by (simp only: length_take length_drop len)
  next
    fix i
    assume "i < length (take n (drop off' ?m))"
    then have "i < min (length m - off') n"
      by (simp only: length_take length_drop len)
    then have "i < n" and "off' + i < length m" by auto
    then show "take n (drop off' ?m) ! i = take n (drop off' m) ! i"
      using assms by (auto simp: nth_append)
  qed
qed

section \<open>Circular indices\<close>

lemma ring_slot_inj:
  assumes "k < n" and "k' < n" and "(h + k) mod n = (h + k') mod n"
  shows "k = (k'::nat)"
proof -
  have *: "a = b" if "a \<le> b" and "b < n" and "(h + a) mod n = (h + b) mod n" for a b :: nat
  proof -
    have "n dvd (h + b) - (h + a)"
      using that by (metis add_le_cancel_left mod_eq_dvd_iff_nat)
    then have "n dvd b - a" by simp
    with that show ?thesis by (metis diff_is_0_eq dvd_imp_le le_antisym less_imp_diff_less
          linorder_not_le nat_less_le)
  qed
  show ?thesis
  proof (cases "k \<le> k'")
    case True
    from this assms(2,3) show ?thesis by (rule *)
  next
    case False
    then have "k' \<le> k" by simp
    from this assms(1) assms(3) [symmetric] show ?thesis by (rule * [symmetric])
  qed
qed

end
