(* ===== verification/Platform.thy ===== *)
theory Platform
  imports Prelude
begin

text \<open>
  The calls that leave the program: the C library, the threads and memory manager of QNX, and
  the volatile device registers. The program does not determine their results. A run is
  parameterised by an \<open>env\<close>, one function per call that gives the result from the arguments and
  the history of all earlier external calls, and each call is added to the history. Theorems
  quantify over \<open>env\<close>, so they hold for every behaviour of the outside; a theorem that needs a
  documented property of a call states it as a hypothesis on \<open>env\<close>.

  The functions at the end read a history: which spin locks are held, which mappings are live,
  which heap blocks were freed.
\<close>

section \<open>Events and histories\<close>

text \<open>Each lock is a field of an object; the object's address identifies it.\<close>

datatype lock = FifoLock ptr | VirtqLock ptr | DeviceLock ptr

text \<open>
  \<open>Mmap\<close> carries the physical address of a device mapping (\<open>None\<close>: anonymous memory), the length
  and either the \<open>errno\<close> of a failure or the address. \<open>Munmap\<close> and \<open>MemOffset\<close> likewise. The size
  operand of \<open>Calloc\<close> is the C type whose size the code passes. \<open>AvailRing\<close> and \<open>AvailIdx\<close> are the
  stores to the available ring and its index, which the device reads concurrently, and \<open>Fence\<close> the
  sequentially consistent fence between them. \<open>RegRead\<close> and \<open>RegWrite\<close> are volatile accesses to
  device registers with their address, width in bytes and value.
\<close>

text \<open>
  The calls of the QNX PCI library and its capability modules: arguments only; device functions,
  capabilities and attached devices are opaque handles.
\<close>

datatype pci_call =
    PciDeviceFind u32 u16 u16
  | PciDeviceAttach u32
  | PciDeviceDetach ptr
  | PciFindCapid u32 u8
  | PciFindCapidNext u32 u8 int
  | PciReadCap u32 int
  | CapVendReadBytes ptr nat
  | PciReadBa ptr int
  | MsixGetNirq ptr
  | MsixSetNirq ptr ptr u16
  | MsixSetIrqEntry ptr ptr
  | CfgCapEnable ptr ptr
  | PciReadIrq ptr int
  | MsixUnmaskIrqEntry ptr ptr

record pci_ba =
  ba_num :: int
  ba_addr :: u64
  ba_size :: u64

datatype event =
    Malloc size_t ptr
  | Calloc size_t string "rc + ptr"
  | Free ptr
  | SpinInit lock rc
  | SpinDestroy lock rc
  | SpinLock lock rc
  | SpinUnlock lock rc
  | Mmap "u64 option" size_t "rc + ptr"
  | Munmap ptr size_t rc
  | MemOffset ptr size_t "rc + u64"
  | Delay u32 u32
  | RegRead u64 nat u64
  | RegWrite u64 nat u64
  | ThreadCreate ptr ptr ptr int
  | InterruptAttach int rc
  | InterruptUnmask int rc
  | InterruptWait
  | Pci pci_call
  | SemInit ptr rc
  | SemWait ptr rc
  | SemPost ptr
  | SemDestroy ptr rc
  | AvailRing ptr u16 u16
  | Fence
  | AvailIdx ptr u16

type_synonym hist = "event list"

record env =
  env_malloc :: "hist \<Rightarrow> size_t \<Rightarrow> ptr"
  env_garbage :: "hist \<Rightarrow> nat \<Rightarrow> u8"
  env_fifo_hdr :: size_t
  env_calloc :: "hist \<Rightarrow> size_t \<Rightarrow> string \<Rightarrow> rc + ptr"
  env_spin_init :: "hist \<Rightarrow> lock \<Rightarrow> rc"
  env_spin_destroy :: "hist \<Rightarrow> lock \<Rightarrow> rc"
  env_spin_lock :: "hist \<Rightarrow> lock \<Rightarrow> rc"
  env_spin_unlock :: "hist \<Rightarrow> lock \<Rightarrow> rc"
  env_pagesize :: size_t
  env_mmap :: "hist \<Rightarrow> u64 option \<Rightarrow> size_t \<Rightarrow> rc + ptr"
  env_munmap :: "hist \<Rightarrow> ptr \<Rightarrow> size_t \<Rightarrow> rc"
  env_mem_offset :: "hist \<Rightarrow> ptr \<Rightarrow> size_t \<Rightarrow> rc + u64"
  env_delay :: "hist \<Rightarrow> u32 \<Rightarrow> u32"
  env_reg :: "hist \<Rightarrow> u64 \<Rightarrow> nat \<Rightarrow> u64"
  env_uninit :: "hist \<Rightarrow> u64"
  env_interrupt_attach :: "hist \<Rightarrow> int \<Rightarrow> rc"
  env_pci_bdf_none :: u32
  env_pci_err :: "hist \<Rightarrow> pci_call \<Rightarrow> rc"
  env_pci_int :: "hist \<Rightarrow> pci_call \<Rightarrow> int"
  env_pci_word :: "hist \<Rightarrow> pci_call \<Rightarrow> u64"
  env_pci_byte :: "hist \<Rightarrow> pci_call \<Rightarrow> nat \<Rightarrow> u8"
  env_pci_ba :: "hist \<Rightarrow> pci_call \<Rightarrow> nat \<Rightarrow> pci_ba"
  env_sem_init :: "hist \<Rightarrow> ptr \<Rightarrow> rc"
  env_sem_wait :: "hist \<Rightarrow> ptr \<Rightarrow> rc"
  env_sem_destroy :: "hist \<Rightarrow> ptr \<Rightarrow> rc"

section \<open>The calls\<close>

definition malloc :: "env \<Rightarrow> size_t \<Rightarrow> hist \<Rightarrow> ptr \<times> hist" where
  [platform]: "malloc env n h = (let p = env_malloc env h n in (p, Malloc n p # h))"

definition calloc :: "env \<Rightarrow> size_t \<Rightarrow> string \<Rightarrow> hist \<Rightarrow> (rc + ptr) \<times> hist" where
  [platform]: "calloc env n ty h = (let r = env_calloc env h n ty in (r, Calloc n ty r # h))"

definition free :: "ptr \<Rightarrow> hist \<Rightarrow> hist" where
  [platform]: "free p h = Free p # h"

definition spin_init :: "env \<Rightarrow> lock \<Rightarrow> hist \<Rightarrow> rc \<times> hist" where
  [platform]: "spin_init env l h = (let rc = env_spin_init env h l in (rc, SpinInit l rc # h))"

definition spin_destroy :: "env \<Rightarrow> lock \<Rightarrow> hist \<Rightarrow> rc \<times> hist" where
  [platform]: "spin_destroy env l h = (let rc = env_spin_destroy env h l in (rc, SpinDestroy l rc # h))"

definition spin_lock :: "env \<Rightarrow> lock \<Rightarrow> hist \<Rightarrow> rc \<times> hist" where
  [platform]: "spin_lock env l h = (let rc = env_spin_lock env h l in (rc, SpinLock l rc # h))"

definition spin_unlock :: "env \<Rightarrow> lock \<Rightarrow> hist \<Rightarrow> rc \<times> hist" where
  [platform]: "spin_unlock env l h = (let rc = env_spin_unlock env h l in (rc, SpinUnlock l rc # h))"

definition mmap64 :: "env \<Rightarrow> u64 option \<Rightarrow> size_t \<Rightarrow> hist \<Rightarrow> (rc + ptr) \<times> hist" where
  [platform]: "mmap64 env phys len h =
     (let r = env_mmap env h phys len in (r, Mmap phys len r # h))"

text \<open>
  \<open>munmap\<close> returns 0, or -1 with \<open>errno\<close> set: the model returns both, and the oracle gives the
  \<open>errno\<close> value, 0 for success. \<open>mem_offset64\<close> does the same and stores the address on success.
\<close>

definition munmap :: "env \<Rightarrow> ptr \<Rightarrow> size_t \<Rightarrow> hist \<Rightarrow> (rc \<times> rc) \<times> hist" where
  [platform]: "munmap env a len h =
     (let e = env_munmap env h a len in ((if e = 0 then 0 else -1, e), Munmap a len e # h))"

definition mem_offset64 :: "env \<Rightarrow> ptr \<Rightarrow> size_t \<Rightarrow> u64 \<Rightarrow> hist \<Rightarrow> (rc \<times> rc \<times> u64) \<times> hist" where
  [platform]: "mem_offset64 env a len old h =
     (let r = env_mem_offset env h a len in
      (case r of Inl e \<Rightarrow> (-1, e, old) | Inr p \<Rightarrow> (0, 0, p), MemOffset a len r # h))"

definition delay :: "env \<Rightarrow> u32 \<Rightarrow> hist \<Rightarrow> u32 \<times> hist" where
  [platform]: "delay env ms h = (let r = env_delay env h ms in (r, Delay ms r # h))"

text \<open>Register accesses of \<open>n\<close> bytes.\<close>

definition reg_read :: "env \<Rightarrow> u64 \<Rightarrow> nat \<Rightarrow> hist \<Rightarrow> u64 \<times> hist" where
  [platform]: "reg_read env a n h = (let v = take_bit (8 * n) (env_reg env h a n) in (v, RegRead a n v # h))"

definition reg_write :: "u64 \<Rightarrow> nat \<Rightarrow> u64 \<Rightarrow> hist \<Rightarrow> hist" where
  [platform]: "reg_write a n v h = RegWrite a n v # h"

definition pci_err :: "env \<Rightarrow> pci_call \<Rightarrow> hist \<Rightarrow> rc \<times> hist" where
  [platform]: "pci_err env c h = (env_pci_err env h c, Pci c # h)"

definition pci_int :: "env \<Rightarrow> pci_call \<Rightarrow> hist \<Rightarrow> int \<times> hist" where
  [platform]: "pci_int env c h = (env_pci_int env h c, Pci c # h)"

definition pci_word :: "env \<Rightarrow> pci_call \<Rightarrow> hist \<Rightarrow> u64 \<times> hist" where
  [platform]: "pci_word env c h = (env_pci_word env h c, Pci c # h)"

definition sem_init :: "env \<Rightarrow> ptr \<Rightarrow> hist \<Rightarrow> rc \<times> hist" where
  [platform]: "sem_init env s h = (let rc = env_sem_init env h s in (rc, SemInit s rc # h))"

definition sem_wait :: "env \<Rightarrow> ptr \<Rightarrow> hist \<Rightarrow> rc \<times> hist" where
  [platform]: "sem_wait env s h = (let rc = env_sem_wait env h s in (rc, SemWait s rc # h))"

definition sem_destroy :: "env \<Rightarrow> ptr \<Rightarrow> hist \<Rightarrow> rc \<times> hist" where
  [platform]: "sem_destroy env s h = (let rc = env_sem_destroy env h s in (rc, SemDestroy s rc # h))"

lemmas platform_simps [simp] = platform [unfolded Let_def]

section \<open>Reading a history\<close>

text \<open>How often a lock was taken and not released.\<close>

fun held :: "lock \<Rightarrow> hist \<Rightarrow> int" where
  "held l [] = 0"
| "held l (SpinLock l' rc # h) = held l h + (if l' = l \<and> rc = 0 then 1 else 0)"
| "held l (SpinUnlock l' rc # h) = held l h - (if l' = l then 1 else 0)"
| "held l (_ # h) = held l h"

text \<open>Mappings made and not yet removed by a \<open>munmap\<close> of the same address and length.\<close>

fun live :: "hist \<Rightarrow> (ptr \<times> size_t) multiset" where
  "live [] = {#}"
| "live (Mmap _ len (Inr a) # h) = add_mset (a, len) (live h)"
| "live (Munmap a len e # h) = (if e = 0 then live h - {#(a, len)#} else live h)"
| "live (_ # h) = live h"

fun frees :: "hist \<Rightarrow> ptr list" where
  "frees [] = []"
| "frees (Free p # h) = p # frees h"
| "frees (_ # h) = frees h"

text \<open>A step that returns every lock it takes, and maps, unmaps and frees nothing.\<close>

definition quiet :: "hist \<Rightarrow> hist \<Rightarrow> bool" where
  "quiet h h' \<longleftrightarrow> (\<forall>l. held l h' = held l h) \<and> live h' = live h \<and> frees h' = frees h"

lemma quiet_refl [simp, intro]: "quiet h h"
  by (simp add: quiet_def)

lemma quiet_trans: "quiet h h' \<Longrightarrow> quiet h' h'' \<Longrightarrow> quiet h h''"
  by (simp add: quiet_def)

lemma quiet_locked [simp]: "quiet h (SpinUnlock l urc # SpinLock l 0 # h)"
  by (simp add: quiet_def)

lemma quiet_lock_error [simp]: "rc \<noteq> 0 \<Longrightarrow> quiet h (SpinLock l rc # h)"
  by (simp add: quiet_def)

text \<open>Accesses to device registers and sleeping touch neither locks nor memory.\<close>

fun is_reg :: "event \<Rightarrow> bool" where
  "is_reg (RegRead _ _ _) = True"
| "is_reg (RegWrite _ _ _) = True"
| "is_reg _ = False"

fun is_read :: "event \<Rightarrow> bool" where
  "is_read (RegRead _ _ _) = True"
| "is_read _ = False"

fun is_delay :: "event \<Rightarrow> bool" where
  "is_delay (Delay _ _) = True"
| "is_delay _ = False"

definition reads :: "hist \<Rightarrow> nat" where
  "reads h = length (filter is_read h)"

lemma reads_simps [simp]:
  "reads [] = 0" "reads (e # h) = (if is_read e then Suc (reads h) else reads h)" "reads (es @ h) = reads es + reads h"
  by (simp_all add: reads_def)

lemma quiet_reg: "is_reg e \<or> is_delay e \<Longrightarrow> quiet h (e # h)"
  by (cases e) (simp_all add: quiet_def)

lemma quiet_regs: "list_all (\<lambda>e. is_reg e \<or> is_delay e) es \<Longrightarrow> quiet h (es @ h)"
proof (induction es)
  case (Cons e es)
  then have "quiet h (es @ h)" and "quiet (es @ h) (e # es @ h)" by (simp_all add: quiet_reg)
  then show ?case by (simp add: quiet_def)
qed simp

lemma quiet_reg_list: "list_all is_reg es \<Longrightarrow> quiet h (es @ h)"
  by (rule quiet_regs) (auto simp: list_all_iff)

lemma quiet_delay_list: "list_all is_delay es \<Longrightarrow> quiet h (es @ h)"
  by (rule quiet_regs) (auto simp: list_all_iff)

lemma reads_delay [simp]: "list_all is_delay es \<Longrightarrow> reads es = 0"
proof (induction es)
  case (Cons e es)
  then show ?case by (cases e) auto
qed simp

text \<open>A section under a lock that does \<open>f\<close>.\<close>

definition critical :: "env \<Rightarrow> lock \<Rightarrow> (hist \<Rightarrow> hist) \<Rightarrow> hist \<Rightarrow> hist" where
  "critical env l f h =
     (let h1 = f (SpinLock l 0 # h) in SpinUnlock l (env_spin_unlock env h1 l) # h1)"

lemma quiet_critical: "(\<And>h. quiet h (f h)) \<Longrightarrow> quiet h (critical env l f h)"
  by (simp add: critical_def quiet_def Let_def)

text \<open>
  The documented behaviour of an uncontended QNX spin lock and of the memory manager: a lock
  operation on an initialised lock returns \<open>EOK\<close>, unmapping a live mapping succeeds.
\<close>

definition locks_ok :: "env \<Rightarrow> bool" where
  "locks_ok env \<longleftrightarrow> (\<forall>h l. env_spin_lock env h l = EOK)"

definition unmaps_ok :: "env \<Rightarrow> bool" where
  "unmaps_ok env \<longleftrightarrow> (\<forall>h a len. (a, len) \<in># live h \<longrightarrow> env_munmap env h a len = 0)"

text \<open>A new mapping does not start where a live one does.\<close>

definition mmap_fresh :: "env \<Rightarrow> bool" where
  "mmap_fresh env \<longleftrightarrow> (\<forall>h phys n a. env_mmap env h phys n = Inr a \<longrightarrow> a \<notin> fst ` set_mset (live h))"

text \<open>\<open>delay\<close> returns the time it did not sleep, which is less than it was asked to.\<close>

definition delays_ok :: "env \<Rightarrow> bool" where
  "delays_ok env \<longleftrightarrow> (\<forall>h ms. 0 < ms \<longrightarrow> env_delay env h ms < ms)"

text \<open>A failing call reports an error number that is not 0.\<close>

definition errnos_ok :: "env \<Rightarrow> bool" where
  "errnos_ok env \<longleftrightarrow>
     (\<forall>h phys n. env_mmap env h phys n \<noteq> Inl 0) \<and>
     (\<forall>h a n. env_mem_offset env h a n \<noteq> Inl 0) \<and>
     (\<forall>h n ty. env_calloc env h n ty \<noteq> Inl 0)"

lemma errnos_okD [dest]:
  "errnos_ok env \<Longrightarrow> env_mmap env h phys n = Inl e \<Longrightarrow> e \<noteq> 0"
  "errnos_ok env \<Longrightarrow> env_mem_offset env h a n = Inl e \<Longrightarrow> e \<noteq> 0"
  "errnos_ok env \<Longrightarrow> env_calloc env h n ty = Inl e \<Longrightarrow> e \<noteq> 0"
  by (auto simp: errnos_ok_def)

lemma locks_okD [simp]: "locks_ok env \<Longrightarrow> env_spin_lock env h l = EOK"
  by (simp add: locks_ok_def)

text \<open>An outside on which everything succeeds, used by the witnesses.\<close>

definition env0 :: env where
  "env0 = \<lparr> env_malloc = (\<lambda>h n. 4096 * (1 + of_nat (length h))), env_garbage = (\<lambda>h i. 0xA5),
            env_fifo_hdr = 48,
            env_calloc = (\<lambda>h n ty. Inr (4096 * (1 + of_nat (length h)))),
            env_spin_init = (\<lambda>h l. 0), env_spin_destroy = (\<lambda>h l. 0),
            env_spin_lock = (\<lambda>h l. 0), env_spin_unlock = (\<lambda>h l. 0),
            env_pagesize = 4096,
            env_mmap = (\<lambda>h phys n. Inr (0x100000 * (1 + of_nat (length h)))),
            env_munmap = (\<lambda>h a n. 0),
            env_mem_offset = (\<lambda>h a n. Inr (0x40000000 + a)),
            env_delay = (\<lambda>h ms. 0),
            env_reg = (\<lambda>h a n. 0), env_uninit = (\<lambda>h. 0),
            env_interrupt_attach = (\<lambda>h i. 1), env_pci_bdf_none = -1, env_pci_err = (\<lambda>h c. 0), env_pci_int = (\<lambda>h c. -1),
            env_pci_word = (\<lambda>h c. 1), env_pci_byte = (\<lambda>h c i. 0),
            env_pci_ba = (\<lambda>h c i. \<lparr> ba_num = 0, ba_addr = 0, ba_size = 0 \<rparr>),
            env_sem_init = (\<lambda>h s. 0), env_sem_wait = (\<lambda>h s. 0), env_sem_destroy = (\<lambda>h s. 0) \<rparr>"

lemma env0_sel [simp]:
  "env_malloc env0 h n = 4096 * (1 + of_nat (length h))"
  "env_garbage env0 h i = 0xA5"
  "env_fifo_hdr env0 = 48"
  "env_calloc env0 h n ty = Inr (4096 * (1 + of_nat (length h)))"
  "env_spin_init env0 h l = 0" "env_spin_destroy env0 h l = 0"
  "env_spin_lock env0 h l = 0" "env_spin_unlock env0 h l = 0"
  "env_pagesize env0 = 4096"
  "env_mmap env0 h phys n = Inr (0x100000 * (1 + of_nat (length h)))"
  "env_munmap env0 h a n = 0"
  "env_mem_offset env0 h a n = Inr (0x40000000 + a)"
  "env_delay env0 h ms = 0"
  "env_reg env0 h a' w = 0"
  "env_uninit env0 h = 0"
  "env_interrupt_attach env0 h irq = 1"
  "env_pci_bdf_none env0 = -1"
  "env_pci_err env0 h c = 0" "env_pci_int env0 h c = -1" "env_pci_word env0 h c = 1"
  "env_pci_byte env0 h c k = 0"
  "env_pci_ba env0 h c k = \<lparr> ba_num = 0, ba_addr = 0, ba_size = 0 \<rparr>"
  "env_sem_init env0 h s = 0" "env_sem_wait env0 h s = 0" "env_sem_destroy env0 h s = 0"
  by (simp_all add: env0_def)

lemma locks_ok_env0 [simp]: "locks_ok env0"
  by (simp add: locks_ok_def)

lemma errnos_ok_env0 [simp]: "errnos_ok env0"
  by (simp add: errnos_ok_def)

lemma delays_ok_env0 [simp]: "delays_ok env0"
  by (simp add: delays_ok_def)

lemma unmaps_ok_env0 [simp]: "unmaps_ok env0"
  by (simp add: unmaps_ok_def)

text \<open>The same with a memory manager that never maps the same address twice.\<close>

definition env_fresh :: env where
  "env_fresh = env0\<lparr> env_mmap := (\<lambda>h phys n.
     let a = 0x100000 * (1 + of_nat (length h)) in
     if a \<in># image_mset fst (live h) then Inl 12 else Inr a) \<rparr>"

lemma env_fresh_ok [simp]:
  "locks_ok env_fresh" "errnos_ok env_fresh" "delays_ok env_fresh" "unmaps_ok env_fresh" "mmap_fresh env_fresh"
  by (auto simp: env_fresh_def locks_ok_def errnos_ok_def delays_ok_def unmaps_ok_def mmap_fresh_def Let_def)

end
