(* ===== verification/Fifo.thy ===== *)
theory Fifo
  imports Platform
begin

text \<open>
  \<^verbatim>\<open>utils/fifo/fifo.c\<close>: a bounded queue of fixed-size elements in a byte array, with head and
  tail indices that run round the array, under a spin lock. The theory models the four operations
  and the constructors byte for byte, states the queue interface as a locale, shows that a fifo
  refines a bounded list of elements, and interprets the locale for any element encoding.
\<close>

section \<open>The structure and its operations\<close>

record fifo =
  fifo_self :: ptr
  fifo_head :: size_t
  fifo_tail :: size_t
  fifo_count :: size_t
  fifo_capacity :: size_t
  fifo_elem_size :: size_t
  fifo_data :: "u8 list"

text \<open>The address of an element, as an offset into \<open>data\<close>.\<close>

definition fifo_elem_addr :: "fifo \<Rightarrow> size_t \<Rightarrow> size_t" where
  "fifo_elem_addr f index = fifo_elem_size f * index"

text \<open>
  The allocation holds the header and \<open>capacity * elem_size\<close> bytes; when the sum wraps round the
  header does not fit and writing it is outside the object.
\<close>

definition fifo_create ::
  "env \<Rightarrow> size_t \<Rightarrow> size_t \<Rightarrow> fifo option cell \<Rightarrow> hist \<Rightarrow> (rc \<times> fifo option cell \<times> hist) option" where
  "fifo_create env capacity elem_size fifo h =
     (if fifo = None then Some (EINVAL, fifo, h)
      else
        let size = env_fifo_hdr env + capacity * elem_size;
            (p, h) = malloc env size h
        in if p = 0 then Some (ENOMEM, fifo, h)
        else if size < env_fifo_hdr env then None
        else
          let (rc, h) = spin_init env (FifoLock p) h
          in if rc \<noteq> EOK then let h = free p h in Some (rc, fifo, h)
          else
            Some (EOK,
                  Some (Some \<lparr> fifo_self = p, fifo_head = 0, fifo_tail = 0, fifo_count = 0,
                               fifo_capacity = capacity, fifo_elem_size = elem_size,
                               fifo_data = map (env_garbage env h) [0..<unat (capacity * elem_size)] \<rparr>),
                  h))"

definition fifo_destory :: "env \<Rightarrow> fifo option \<Rightarrow> hist \<Rightarrow> rc \<times> hist" where
  "fifo_destory env fifo h =
     (case fifo of None \<Rightarrow> (EINVAL, h)
      | Some f \<Rightarrow>
          let (rc, h) = spin_destroy env (FifoLock (fifo_self f)) h
          in if rc \<noteq> EOK then (rc, h)
          else let h = free (fifo_self f) h in (EOK, h))"

definition fifo_empty :: "fifo option \<Rightarrow> bool cell \<Rightarrow> rc \<times> bool cell" where
  "fifo_empty fifo emptyp =
     (case (fifo, emptyp) of
        (Some f, Some _) \<Rightarrow> (EOK, Some (if fifo_count f = 0 then True else False))
      | _ \<Rightarrow> (EINVAL, emptyp))"

definition fifo_full :: "fifo option \<Rightarrow> bool cell \<Rightarrow> rc \<times> bool cell" where
  "fifo_full fifo full =
     (case (fifo, full) of
        (Some f, Some _) \<Rightarrow> (EOK, Some (if fifo_count f = fifo_capacity f then True else False))
      | _ \<Rightarrow> (EINVAL, full))"

text \<open>
  \<open>elem\<close> is the buffer the pointer argument names; \<open>memcpy\<close> reads or writes its first
  \<open>elem_size\<close> bytes. A modulus of 0 is undefined in C.
\<close>

definition fifo_put :: "env \<Rightarrow> fifo \<Rightarrow> u8 list \<Rightarrow> hist \<Rightarrow> (rc \<times> fifo \<times> hist) option" where
  "fifo_put env f elem h =
     (let (rc, h) = spin_lock env (FifoLock (fifo_self f)) h
      in if rc \<noteq> EOK then Some (rc, f, h)
      else do {
        (rc, f) \<leftarrow>
          (let (rc, full) = fifo_full (Some f) (Some False)
           in if rc \<noteq> EOK then Some (rc, f)
           else if full = Some True then Some (ENOMEM, f)
           else do {
             src \<leftarrow> mem_read elem 0 (unat (fifo_elem_size f));
             d \<leftarrow> mem_write (fifo_data f) (unat (fifo_elem_addr f (fifo_tail f))) src;
             if fifo_capacity f = 0 then None
             else Some (EOK, f\<lparr> fifo_data := d,
                                fifo_tail := (fifo_tail f + 1) mod fifo_capacity f,
                                fifo_count := fifo_count f + 1 \<rparr>)
           });
        let (_, h) = spin_unlock env (FifoLock (fifo_self f)) h
        in Some (rc, f, h)
      })"

definition fifo_get ::
  "env \<Rightarrow> fifo \<Rightarrow> u8 list \<Rightarrow> hist \<Rightarrow> (rc \<times> fifo \<times> u8 list \<times> hist) option" where
  "fifo_get env f elem h =
     (let (rc, h) = spin_lock env (FifoLock (fifo_self f)) h
      in if rc \<noteq> EOK then Some (rc, f, elem, h)
      else do {
        (rc, f, elem) \<leftarrow>
          (let (rc, emptyp) = fifo_empty (Some f) (Some False)
           in if rc \<noteq> EOK then Some (rc, f, elem)
           else if emptyp = Some True then Some (ENOENT, f, elem)
           else do {
             src \<leftarrow> mem_read (fifo_data f) (unat (fifo_elem_addr f (fifo_head f)))
                      (unat (fifo_elem_size f));
             e \<leftarrow> mem_write elem 0 src;
             if fifo_capacity f = 0 then None
             else Some (EOK, f\<lparr> fifo_head := (fifo_head f + 1) mod fifo_capacity f,
                                fifo_count := fifo_count f - 1 \<rparr>, e)
           });
        let (_, h) = spin_unlock env (FifoLock (fifo_self f)) h
        in Some (rc, f, elem, h)
      })"

section \<open>Invariant and abstraction\<close>

definition fifo_inv :: "fifo \<Rightarrow> bool" where
  [inv_simps]: "fifo_inv f \<longleftrightarrow>
     length (fifo_data f) = unat (fifo_capacity f) * unat (fifo_elem_size f) \<and>
     length (fifo_data f) < 2 ^ 64 \<and>
     unat (fifo_count f) \<le> unat (fifo_capacity f) \<and>
     (fifo_capacity f \<noteq> 0 \<longrightarrow>
        unat (fifo_head f) < unat (fifo_capacity f) \<and>
        unat (fifo_tail f) = (unat (fifo_head f) + unat (fifo_count f)) mod unat (fifo_capacity f))"

definition fifo_slot :: "fifo \<Rightarrow> nat \<Rightarrow> u8 list" where
  "fifo_slot f i = take (unat (fifo_elem_size f)) (drop (unat (fifo_elem_size f) * i) (fifo_data f))"

text \<open>The elements in the queue, oldest first.\<close>

definition fifo_elems :: "fifo \<Rightarrow> u8 list list" where
  "fifo_elems f =
     map (\<lambda>k. fifo_slot f ((unat (fifo_head f) + k) mod unat (fifo_capacity f))) [0..<unat (fifo_count f)]"

definition fifo_cap :: "fifo \<Rightarrow> nat" where
  "fifo_cap f = unat (fifo_capacity f)"

definition fifo_width :: "fifo \<Rightarrow> nat" where
  "fifo_width f = unat (fifo_elem_size f)"


section \<open>What each operation does, on every path\<close>

lemma fifo_full_eq [simp]:
  "fifo_full (Some f) (Some b) = (EOK, Some (fifo_count f = fifo_capacity f))"
  by (simp add: fifo_full_def)

lemma fifo_empty_eq [simp]:
  "fifo_empty (Some f) (Some b) = (EOK, Some (fifo_count f = 0))"
  by (simp add: fifo_empty_def)

lemma length_fifo_elems [simp]: "length (fifo_elems f) = unat (fifo_count f)"
  by (simp add: fifo_elems_def)

lemma fifo_count_eq_cap_iff: "fifo_count f = fifo_capacity f \<longleftrightarrow> unat (fifo_count f) = unat (fifo_capacity f)"
  by (simp add: word_unat_eq_iff)

text \<open>An element's bytes lie inside the array and element addresses do not wrap round.\<close>

lemma slot_bound:
  assumes "fifo_inv f" and "unat i < unat (fifo_capacity f)"
  shows "unat (fifo_elem_addr f i) = unat (fifo_elem_size f) * unat i"
    and "unat (fifo_elem_size f) * unat i + unat (fifo_elem_size f) \<le> length (fifo_data f)"
proof -
  have "unat (fifo_elem_size f) * unat i + unat (fifo_elem_size f) = Suc (unat i) * unat (fifo_elem_size f)"
    by simp
  also have "\<dots> \<le> unat (fifo_capacity f) * unat (fifo_elem_size f)"
    using assms(2) by (intro mult_le_mono1) simp
  finally show le: "unat (fifo_elem_size f) * unat i + unat (fifo_elem_size f) \<le> length (fifo_data f)"
    using assms(1) by (simp add: fifo_inv_def)
  then have "unat (fifo_elem_size f) * unat i < 2 ^ 64"
    using assms(1) by (simp add: fifo_inv_def)
  then show "unat (fifo_elem_addr f i) = unat (fifo_elem_size f) * unat i"
    by (simp add: fifo_elem_addr_def unat_word_ariths)
qed

text \<open>Slots of different indices do not overlap.\<close>

lemma slot_disjoint:
  assumes "i \<noteq> (j::nat)"
  shows "w * j + w \<le> w * i \<or> w * i + w \<le> w * j"
proof (cases "i < j")
  case True
  then have "w * Suc i \<le> w * j" by (intro mult_le_mono2) simp
  then show ?thesis by simp
next
  case False
  with assms have "w * Suc j \<le> w * i" by (intro mult_le_mono2) simp
  then show ?thesis by simp
qed

definition fifo_store :: "fifo \<Rightarrow> u8 list \<Rightarrow> fifo" where
  "fifo_store f e =
     f\<lparr> fifo_data :=
          take (unat (fifo_elem_size f) * unat (fifo_tail f)) (fifo_data f) @ e @
          drop (unat (fifo_elem_size f) * unat (fifo_tail f) + unat (fifo_elem_size f)) (fifo_data f),
        fifo_tail := (fifo_tail f + 1) mod fifo_capacity f,
        fifo_count := fifo_count f + 1 \<rparr>"

definition fifo_drop :: "fifo \<Rightarrow> fifo" where
  "fifo_drop f =
     f\<lparr> fifo_head := (fifo_head f + 1) mod fifo_capacity f, fifo_count := fifo_count f - 1 \<rparr>"

lemma fifo_put_lock_error:
  assumes "env_spin_lock env h (FifoLock (fifo_self f)) \<noteq> EOK"
  shows "fifo_put env f e h =
         Some (env_spin_lock env h (FifoLock (fifo_self f)), f,
               SpinLock (FifoLock (fifo_self f)) (env_spin_lock env h (FifoLock (fifo_self f))) # h)"
  using assms by (simp add: fifo_put_def Let_def)

lemma fifo_put_full:
  assumes "env_spin_lock env h (FifoLock (fifo_self f)) = EOK" and "fifo_count f = fifo_capacity f"
  shows "\<exists>urc. fifo_put env f e h =
         Some (ENOMEM, f, SpinUnlock (FifoLock (fifo_self f)) urc # SpinLock (FifoLock (fifo_self f)) EOK # h)"
  using assms by (simp add: fifo_put_def Let_def)

lemma fifo_tail_less:
  assumes "fifo_inv f" and "fifo_count f \<noteq> fifo_capacity f"
  shows "unat (fifo_tail f) < unat (fifo_capacity f)" and "fifo_capacity f \<noteq> 0"
proof -
  show nz: "fifo_capacity f \<noteq> 0"
    using assms by (auto simp: fifo_inv_def word_unat_eq_iff)
  then have "0 < unat (fifo_capacity f)" by (simp add: unat_gt_0)
  then show "unat (fifo_tail f) < unat (fifo_capacity f)"
    using assms nz by (simp add: fifo_inv_def)
qed

lemma fifo_put_store:
  assumes "env_spin_lock env h (FifoLock (fifo_self f)) = EOK" and "fifo_inv f"
    and "fifo_count f \<noteq> fifo_capacity f" and "length e = fifo_width f"
  shows "\<exists>urc. fifo_put env f e h =
         Some (EOK, fifo_store f e,
               SpinUnlock (FifoLock (fifo_self f)) urc # SpinLock (FifoLock (fifo_self f)) EOK # h)"
proof -
  note tail = fifo_tail_less [OF assms(2,3)]
  note b = slot_bound [OF assms(2) tail(1)]
  show ?thesis
    using assms(1,3,4) b tail(2)
    by (simp add: fifo_put_def fifo_store_def fifo_width_def Let_def)
qed

lemma fifo_get_lock_error:
  assumes "env_spin_lock env h (FifoLock (fifo_self f)) \<noteq> EOK"
  shows "fifo_get env f e h =
         Some (env_spin_lock env h (FifoLock (fifo_self f)), f, e,
               SpinLock (FifoLock (fifo_self f)) (env_spin_lock env h (FifoLock (fifo_self f))) # h)"
  using assms by (simp add: fifo_get_def Let_def)

lemma fifo_get_empty:
  assumes "env_spin_lock env h (FifoLock (fifo_self f)) = EOK" and "fifo_count f = 0"
  shows "\<exists>urc. fifo_get env f e h =
         Some (ENOENT, f, e, SpinUnlock (FifoLock (fifo_self f)) urc # SpinLock (FifoLock (fifo_self f)) EOK # h)"
  using assms by (simp add: fifo_get_def Let_def)

lemma fifo_get_drop:
  assumes "env_spin_lock env h (FifoLock (fifo_self f)) = EOK" and "fifo_inv f"
    and "fifo_count f \<noteq> 0" and "length e = fifo_width f"
  shows "\<exists>urc. fifo_get env f e h =
         Some (EOK, fifo_drop f, hd (fifo_elems f),
               SpinUnlock (FifoLock (fifo_self f)) urc # SpinLock (FifoLock (fifo_self f)) EOK # h)"
proof -
  have pos: "0 < unat (fifo_count f)" using assms(3) by (simp add: unat_gt_0)
  then have cap: "fifo_capacity f \<noteq> 0" using assms(2) by (auto simp: fifo_inv_def)
  then have head: "unat (fifo_head f) < unat (fifo_capacity f)"
    using assms(2) by (simp add: fifo_inv_def)
  note b = slot_bound [OF assms(2) head]
  have "hd (fifo_elems f) = fifo_slot f (unat (fifo_head f))"
    using pos head by (simp add: fifo_elems_def hd_map hd_upt)
  then show ?thesis
    using assms(1,3,4) b cap
    by (simp add: fifo_get_def fifo_drop_def fifo_width_def fifo_slot_def Let_def)
qed

section \<open>Refinement of a bounded list\<close>

lemma fifo_slot_store_tail:
  assumes "fifo_inv f" and "fifo_count f \<noteq> fifo_capacity f" and "length e = fifo_width f"
  shows "fifo_slot (fifo_store f e) (unat (fifo_tail f)) = e"
proof -
  note tail = fifo_tail_less [OF assms(1,2)]
  note b = slot_bound [OF assms(1) tail(1)]
  show ?thesis
    using b(2) assms(3) by (simp add: fifo_slot_def fifo_store_def fifo_width_def)
qed

lemma fifo_slot_store_other:
  assumes "fifo_inv f" and "fifo_count f \<noteq> fifo_capacity f" and "length e = fifo_width f"
    and "i \<noteq> unat (fifo_tail f)"
  shows "fifo_slot (fifo_store f e) i = fifo_slot f i"
proof -
  note tail = fifo_tail_less [OF assms(1,2)]
  note b = slot_bound [OF assms(1) tail(1)]
  have len: "length e = unat (fifo_elem_size f)" using assms(3) by (simp add: fifo_width_def)
  show ?thesis
    using splice_disjoint [of "unat (fifo_elem_size f) * unat (fifo_tail f)" e "fifo_data f"
        "unat (fifo_elem_size f) * i" "unat (fifo_elem_size f)"]
      slot_disjoint [OF assms(4), of "unat (fifo_elem_size f)"] b(2) len
    by (auto simp: fifo_slot_def fifo_store_def)
qed

lemma fifo_store_inv:
  assumes "fifo_inv f" and "fifo_count f \<noteq> fifo_capacity f" and "length e = fifo_width f"
  shows "fifo_inv (fifo_store f e)"
proof -
  note tail = fifo_tail_less [OF assms(1,2)]
  note b = slot_bound [OF assms(1) tail(1)]
  have cnt: "unat (fifo_count f + 1) = Suc (unat (fifo_count f))"
    using assms(1,2)
    by (intro unat_inc_eq [where y = "fifo_capacity f"]) (auto simp: fifo_inv_def word_unat_eq_iff)
  have le: "Suc (unat (fifo_count f)) \<le> unat (fifo_capacity f)"
    using assms(1,2) by (simp add: fifo_inv_def fifo_count_eq_cap_iff)
  have t: "unat ((fifo_tail f + 1) mod fifo_capacity f) =
           (unat (fifo_head f) + Suc (unat (fifo_count f))) mod unat (fifo_capacity f)"
    using assms(1) tail
    by (simp add: unat_mod unat_inc_eq [OF tail(1)] fifo_inv_def mod_Suc_eq)
  show ?thesis
    using assms(1,3) b(2) tail(2) cnt le t
    by (simp add: fifo_inv_def fifo_store_def fifo_width_def)
qed

lemma fifo_store_elems:
  assumes "fifo_inv f" and "fifo_count f \<noteq> fifo_capacity f" and "length e = fifo_width f"
  shows "fifo_elems (fifo_store f e) = fifo_elems f @ [e]"
proof -
  let ?n = "unat (fifo_capacity f)" and ?h = "unat (fifo_head f)" and ?c = "unat (fifo_count f)"
  have cnt: "unat (fifo_count f + 1) = Suc ?c"
    using assms(1,2)
    by (intro unat_inc_eq [where y = "fifo_capacity f"]) (auto simp: fifo_inv_def word_unat_eq_iff)
  have le: "?c < ?n"
    using assms(1,2) by (simp add: fifo_inv_def fifo_count_eq_cap_iff)
  have t: "unat (fifo_tail f) = (?h + ?c) mod ?n"
    using assms(1) fifo_tail_less(2) [OF assms(1,2)] by (simp add: fifo_inv_def)
  have old: "fifo_slot (fifo_store f e) ((?h + k) mod ?n) = fifo_slot f ((?h + k) mod ?n)"
    if "k < ?c" for k
  proof (rule fifo_slot_store_other [OF assms])
    show "(?h + k) mod ?n \<noteq> unat (fifo_tail f)"
      using ring_slot_inj [of k ?n ?c ?h] that le t by auto
  qed
  have new: "fifo_slot (fifo_store f e) ((?h + ?c) mod ?n) = e"
    using fifo_slot_store_tail [OF assms] by (simp only: t)
  have "fifo_elems (fifo_store f e) =
        map (\<lambda>k. fifo_slot (fifo_store f e) ((?h + k) mod ?n)) [0..<Suc ?c]"
    by (simp add: fifo_elems_def fifo_store_def cnt del: upt_Suc)
  also have "\<dots> = fifo_elems f @ [e]"
    using old new by (simp add: fifo_elems_def)
  finally show ?thesis .
qed

lemma fifo_drop_inv:
  assumes "fifo_inv f" and "fifo_count f \<noteq> 0"
  shows "fifo_inv (fifo_drop f)"
proof -
  have pos: "0 < unat (fifo_count f)" using assms(2) by (simp add: unat_gt_0)
  then have cap: "fifo_capacity f \<noteq> 0" using assms(1) by (auto simp: fifo_inv_def)
  then have head: "unat (fifo_head f) < unat (fifo_capacity f)"
    using assms(1) by (simp add: fifo_inv_def)
  have h: "unat ((fifo_head f + 1) mod fifo_capacity f) = Suc (unat (fifo_head f)) mod unat (fifo_capacity f)"
    by (simp add: unat_mod unat_inc_eq [OF head])
  have t: "(Suc (unat (fifo_head f)) mod unat (fifo_capacity f) + (unat (fifo_count f) - 1)) mod
           unat (fifo_capacity f) =
           (unat (fifo_head f) + unat (fifo_count f)) mod unat (fifo_capacity f)"
    using pos by (simp only: mod_add_left_eq) simp
  have le: "unat (fifo_count f) - 1 \<le> unat (fifo_capacity f)"
    using assms(1) by (auto simp: fifo_inv_def)
  show ?thesis
    using assms cap head pos h t le
    by (simp add: fifo_inv_def fifo_drop_def unat_dec)
qed

lemma fifo_drop_elems:
  assumes "fifo_inv f" and "fifo_count f \<noteq> 0"
  shows "fifo_elems (fifo_drop f) = tl (fifo_elems f)"
proof -
  let ?n = "unat (fifo_capacity f)" and ?h = "unat (fifo_head f)" and ?c = "unat (fifo_count f)"
  have pos: "0 < ?c" using assms(2) by (simp add: unat_gt_0)
  then have cap: "fifo_capacity f \<noteq> 0" using assms(1) by (auto simp: fifo_inv_def)
  then have head: "?h < ?n" using assms(1) by (simp add: fifo_inv_def)
  have h: "unat ((fifo_head f + 1) mod fifo_capacity f) = Suc ?h mod ?n"
    by (simp add: unat_mod unat_inc_eq [OF head])
  have slot: "fifo_slot (fifo_drop f) i = fifo_slot f i" for i
    by (simp add: fifo_slot_def fifo_drop_def)
  have "fifo_elems (fifo_drop f) = map (\<lambda>k. fifo_slot f ((Suc ?h mod ?n + k) mod ?n)) [0..<?c - 1]"
    using assms(2) by (simp add: fifo_elems_def slot) (simp add: fifo_drop_def h unat_dec)
  also have "\<dots> = map (\<lambda>k. fifo_slot f ((?h + Suc k) mod ?n)) [0..<?c - 1]"
    by (simp add: mod_simps)
  also have "\<dots> = map (\<lambda>k. fifo_slot f ((?h + k) mod ?n)) (map Suc [0..<?c - 1])"
    by simp
  also have "map Suc [0..<?c - 1] = tl [0..<?c]"
    using pos by (simp add: map_Suc_upt tl_upt)
  finally show ?thesis
    by (simp add: fifo_elems_def [of f] map_tl del: tl_upt)
qed

lemma fifo_store_sel [simp]:
  "fifo_self (fifo_store f e) = fifo_self f" "fifo_cap (fifo_store f e) = fifo_cap f"
  "fifo_width (fifo_store f e) = fifo_width f"
  by (simp_all add: fifo_store_def fifo_cap_def fifo_width_def)

lemma fifo_drop_sel [simp]:
  "fifo_self (fifo_drop f) = fifo_self f" "fifo_cap (fifo_drop f) = fifo_cap f"
  "fifo_width (fifo_drop f) = fifo_width f"
  by (simp_all add: fifo_drop_def fifo_cap_def fifo_width_def)

section \<open>The queue interface\<close>

text \<open>
  What the users of a fifo rely on: a bounded queue of elements behind a lock. \<open>put\<close> and \<open>get\<close>
  fail with the lock's error, with \<open>ENOMEM\<close> on a full and \<open>ENOENT\<close> on an empty queue, and then
  leave the queue as it was. \<open>keeps\<close> holds the parts no operation changes.
\<close>

locale bounded_queue =
  fixes put :: "env \<Rightarrow> 'q \<Rightarrow> 'e \<Rightarrow> hist \<Rightarrow> (rc \<times> 'q \<times> hist) option"
    and get :: "env \<Rightarrow> 'q \<Rightarrow> 'e \<Rightarrow> hist \<Rightarrow> (rc \<times> 'q \<times> 'e \<times> hist) option"
    and elems :: "'q \<Rightarrow> 'e list"
    and cap :: "'q \<Rightarrow> nat"
    and inv :: "'q \<Rightarrow> bool"
    and fits :: "'q \<Rightarrow> 'e \<Rightarrow> bool"
    and lock_of :: "'q \<Rightarrow> lock"
    and keeps :: "'q \<Rightarrow> 'q \<Rightarrow> bool"
  assumes put_ok: "inv q \<Longrightarrow> fits q e \<Longrightarrow> env_spin_lock env h (lock_of q) = EOK \<Longrightarrow>
      length (elems q) < cap q \<Longrightarrow>
      \<exists>q' h'. put env q e h = Some (EOK, q', h') \<and> inv q' \<and> elems q' = elems q @ [e] \<and>
              keeps q q' \<and> quiet h h'"
    and put_full: "inv q \<Longrightarrow> env_spin_lock env h (lock_of q) = EOK \<Longrightarrow> length (elems q) = cap q \<Longrightarrow>
      \<exists>h'. put env q e h = Some (ENOMEM, q, h') \<and> quiet h h'"
    and put_lock: "env_spin_lock env h (lock_of q) \<noteq> EOK \<Longrightarrow>
      \<exists>h'. put env q e h = Some (env_spin_lock env h (lock_of q), q, h') \<and> quiet h h'"
    and get_ok: "inv q \<Longrightarrow> fits q e \<Longrightarrow> env_spin_lock env h (lock_of q) = EOK \<Longrightarrow> elems q \<noteq> [] \<Longrightarrow>
      \<exists>q' h'. get env q e h = Some (EOK, q', hd (elems q), h') \<and> inv q' \<and> elems q' = tl (elems q) \<and>
              keeps q q' \<and> quiet h h'"
    and get_empty: "inv q \<Longrightarrow> env_spin_lock env h (lock_of q) = EOK \<Longrightarrow> elems q = [] \<Longrightarrow>
      \<exists>h'. get env q e h = Some (ENOENT, q, e, h') \<and> quiet h h'"
    and get_lock: "env_spin_lock env h (lock_of q) \<noteq> EOK \<Longrightarrow>
      \<exists>h'. get env q e h = Some (env_spin_lock env h (lock_of q), q, e, h') \<and> quiet h h'"
    and elems_le: "inv q \<Longrightarrow> length (elems q) \<le> cap q"
    and keeps_cap: "keeps q q' \<Longrightarrow> cap q' = cap q"
    and keeps_fits: "keeps q q' \<Longrightarrow> fits q' e = fits q e"
    and keeps_lock: "keeps q q' \<Longrightarrow> lock_of q' = lock_of q"
    and keeps_refl: "keeps q q"
    and keeps_trans: "keeps q q' \<Longrightarrow> keeps q' q'' \<Longrightarrow> keeps q q''"
begin

lemma put_total:
  assumes "inv q" and "fits q e"
  shows "\<exists>rc q' h'. put env q e h = Some (rc, q', h') \<and> inv q' \<and> keeps q q' \<and> quiet h h' \<and>
           (rc = EOK \<and> elems q' = elems q @ [e] \<and> length (elems q) < cap q \<or> rc \<noteq> EOK \<and> q' = q)"
proof (cases "env_spin_lock env h (lock_of q) = EOK")
  case False
  then show ?thesis using put_lock [OF False] assms keeps_refl by blast
next
  case True
  show ?thesis
  proof (cases "length (elems q) < cap q")
    case less: True
    show ?thesis using put_ok [OF assms True less] less by blast
  next
    case False
    then have "length (elems q) = cap q" using elems_le [OF assms(1)] by simp
    from put_full [OF assms(1) True this] show ?thesis
      using assms keeps_refl by (metis zero_neq_numeral)
  qed
qed

lemma get_total:
  assumes "inv q" and "fits q e"
  shows "\<exists>rc q' e' h'. get env q e h = Some (rc, q', e', h') \<and> inv q' \<and> keeps q q' \<and> quiet h h' \<and>
           (rc = EOK \<and> elems q = e' # elems q' \<or> rc \<noteq> EOK \<and> q' = q \<and> e' = e)"
proof (cases "env_spin_lock env h (lock_of q) = EOK")
  case False
  then show ?thesis using get_lock [OF False] assms keeps_refl by blast
next
  case True
  show ?thesis
  proof (cases "elems q = []")
    case empty: True
    from get_empty [OF assms(1) True empty] show ?thesis
      using assms keeps_refl by (metis zero_neq_numeral)
  next
    case False
    show ?thesis using get_ok [OF assms True False] False by (metis list.collapse)
  qed
qed

text \<open>Taking an element and putting it back moves it from the front to the end.\<close>

lemma get_put_rotates:
  assumes "inv q" and "fits q e" and "\<And>x. fits q x" and "locks_ok env" and "elems q \<noteq> []"
  shows "\<exists>q' x h' q'' h''. get env q e h = Some (EOK, q', x, h') \<and> put env q' x h' = Some (EOK, q'', h'') \<and>
           elems q'' = rotate1 (elems q) \<and> inv q'' \<and> keeps q q'' \<and> quiet h h''"
proof -
  obtain q' h' where g: "get env q e h = Some (EOK, q', hd (elems q), h')" "inv q'"
      "elems q' = tl (elems q)" "keeps q q'" "quiet h h'"
    using get_ok [OF assms(1,2) _ assms(5), of env h] assms(4) by auto
  have "length (elems q') < cap q'"
    using elems_le [OF assms(1)] assms(5) g(3) keeps_cap [OF g(4)]
    by (cases "elems q") auto
  moreover have "fits q' (hd (elems q))" using assms(3) keeps_fits [OF g(4)] by simp
  ultimately obtain q'' h'' where p: "put env q' (hd (elems q)) h' = Some (EOK, q'', h'')" "inv q''"
      "elems q'' = elems q' @ [hd (elems q)]" "keeps q' q''" "quiet h' h''"
    using put_ok [OF g(2), of "hd (elems q)" env h'] assms(4) by auto
  have "elems q'' = rotate1 (elems q)"
    using p(3) g(3) assms(5) by (cases "elems q") auto
  then show ?thesis
    using g p keeps_trans quiet_trans by blast
qed

end

text \<open>
  A run of operations against an implementation, and against the specification: a list of at
  most \<open>n\<close> elements. Each answer is the return code and the element a \<open>get\<close> hands out.
\<close>

datatype 'e queue_op = Put 'e | Get

fun queue_run ::
  "(env \<Rightarrow> 'q \<Rightarrow> 'e \<Rightarrow> hist \<Rightarrow> (rc \<times> 'q \<times> hist) option) \<Rightarrow>
   (env \<Rightarrow> 'q \<Rightarrow> 'e \<Rightarrow> hist \<Rightarrow> (rc \<times> 'q \<times> 'e \<times> hist) option) \<Rightarrow>
   env \<Rightarrow> 'e \<Rightarrow> 'q \<Rightarrow> 'e queue_op list \<Rightarrow> hist \<Rightarrow> ((rc \<times> 'e option) list \<times> 'q \<times> hist) option" where
  "queue_run put get env buf q [] h = Some ([], q, h)"
| "queue_run put get env buf q (Put e # ops) h = do {
     (rc, q, h) \<leftarrow> put env q e h;
     (outs, q, h) \<leftarrow> queue_run put get env buf q ops h;
     Some ((rc, None) # outs, q, h)
   }"
| "queue_run put get env buf q (Get # ops) h = do {
     (rc, q, e, h) \<leftarrow> get env q buf h;
     (outs, q, h) \<leftarrow> queue_run put get env buf q ops h;
     Some ((rc, if rc = EOK then Some e else None) # outs, q, h)
   }"

fun spec_run :: "nat \<Rightarrow> 'e list \<Rightarrow> 'e queue_op list \<Rightarrow> (rc \<times> 'e option) list \<times> 'e list" where
  "spec_run n xs [] = ([], xs)"
| "spec_run n xs (Put e # ops) =
     (let (rc, xs) = (if length xs < n then (EOK, xs @ [e]) else (ENOMEM, xs));
          (outs, xs) = spec_run n xs ops
      in ((rc, None) # outs, xs))"
| "spec_run n xs (Get # ops) =
     (let (r, xs) = (case xs of [] \<Rightarrow> ((ENOENT, None), []) | x # xs \<Rightarrow> ((EOK, Some x), xs));
          (outs, xs) = spec_run n xs ops
      in (r # outs, xs))"

context bounded_queue
begin

lemma run_refines:
  assumes "inv q" and "fits q buf" and "\<And>e. Put e \<in> set ops \<Longrightarrow> fits q e" and "locks_ok env"
  shows "\<exists>q' h'. queue_run put get env buf q ops h =
           Some (fst (spec_run (cap q) (elems q) ops), q', h') \<and>
           elems q' = snd (spec_run (cap q) (elems q) ops) \<and> inv q' \<and> quiet h h'"
  using assms
proof (induction ops arbitrary: q h)
  case Nil
  then show ?case by simp
next
  case (Cons op ops)
  have IH: "\<exists>q'' h''. queue_run put get env buf q' ops h' =
           Some (fst (spec_run (cap q) (elems q') ops), q'', h'') \<and>
           elems q'' = snd (spec_run (cap q) (elems q') ops) \<and> inv q'' \<and> quiet h h''"
    if "inv q'" and "keeps q q'" and "quiet h h'" for q' h'
  proof -
    have "fits q' buf" and "\<And>e. Put e \<in> set ops \<Longrightarrow> fits q' e"
      using Cons.prems(2,3) by (simp_all add: keeps_fits [OF that(2)])
    from Cons.IH [OF that(1) this Cons.prems(4), of h'] show ?thesis
      using quiet_trans [OF that(3)] by (auto simp: keeps_cap [OF that(2)])
  qed
  show ?case
  proof (cases op)
    case (Put e)
    then have fe: "fits q e" using Cons.prems(3) by simp
    show ?thesis
    proof (cases "length (elems q) < cap q")
      case True
      then obtain q' h' where p: "put env q e h = Some (EOK, q', h')" "inv q'"
          "elems q' = elems q @ [e]" "keeps q q'" "quiet h h'"
        using put_ok [OF Cons.prems(1) fe _ True, of env h] Cons.prems(4) by auto
      from IH [OF p(2,4,5)] show ?thesis
        using p(1,3) True Put by (force simp: split_beta)
    next
      case False
      then have eq: "length (elems q) = cap q" using elems_le [OF Cons.prems(1)] by simp
      then obtain h' where p: "put env q e h = Some (ENOMEM, q, h')" "quiet h h'"
        using put_full [OF Cons.prems(1) _ eq, of env h e] Cons.prems(4) by auto
      from IH [OF Cons.prems(1) keeps_refl p(2)] show ?thesis
        using p(1) eq Put by (force simp: split_beta)
    qed
  next
    case Get
    show ?thesis
    proof (cases "elems q")
      case Nil
      then obtain h' where p: "get env q buf h = Some (ENOENT, q, buf, h')" "quiet h h'"
        using get_empty [OF Cons.prems(1) _ Nil, of env h buf] Cons.prems(4) by auto
      from IH [OF Cons.prems(1) keeps_refl p(2)] show ?thesis
        using p(1) Nil Get by (force simp: split_beta)
    next
      case (Cons x xs)
      then obtain q' h' where p: "get env q buf h = Some (EOK, q', x, h')" "inv q'"
          "elems q' = xs" "keeps q q'" "quiet h h'"
        using get_ok [OF Cons.prems(1,2), of env h] Cons.prems(4) by auto
      from IH [OF p(2,4,5)] show ?thesis
        using p(1,3) Cons Get by (force simp: split_beta)
    qed
  qed
qed

end

section \<open>The fifo provides the interface\<close>

definition fifo_keeps :: "fifo \<Rightarrow> fifo \<Rightarrow> bool" where
  "fifo_keeps f f' \<longleftrightarrow> fifo_self f' = fifo_self f \<and> fifo_cap f' = fifo_cap f \<and> fifo_width f' = fifo_width f"

lemma fifo_not_full: "length (fifo_elems f) < fifo_cap f \<Longrightarrow> fifo_count f \<noteq> fifo_capacity f"
  by (auto simp: fifo_cap_def)

lemma fifo_not_empty: "fifo_elems f \<noteq> [] \<longleftrightarrow> fifo_count f \<noteq> 0"
  by (simp add: fifo_elems_def unat_gt_0)

interpretation fq: bounded_queue fifo_put fifo_get fifo_elems fifo_cap fifo_inv
    "\<lambda>f e. length e = fifo_width f" "\<lambda>f. FifoLock (fifo_self f)" fifo_keeps
proof unfold_locales
  fix q :: fifo and e :: "u8 list" and env :: env and h
  assume "fifo_inv q" "length e = fifo_width q"
    "env_spin_lock env h (FifoLock (fifo_self q)) = EOK" "length (fifo_elems q) < fifo_cap q"
  then show "\<exists>q' h'. fifo_put env q e h = Some (EOK, q', h') \<and> fifo_inv q' \<and>
      fifo_elems q' = fifo_elems q @ [e] \<and> fifo_keeps q q' \<and> quiet h h'"
    using fifo_put_store [of env h q e] fifo_store_inv [of q e] fifo_store_elems [of q e]
      fifo_not_full [of q] by (auto simp: fifo_keeps_def)
next
  fix q :: fifo and e :: "u8 list" and env :: env and h
  assume "env_spin_lock env h (FifoLock (fifo_self q)) = EOK" "length (fifo_elems q) = fifo_cap q"
  then show "\<exists>h'. fifo_put env q e h = Some (ENOMEM, q, h') \<and> quiet h h'"
    using fifo_put_full [of env h q e] by (auto simp: fifo_cap_def fifo_count_eq_cap_iff)
next
  fix q :: fifo and e :: "u8 list" and env :: env and h
  assume "env_spin_lock env h (FifoLock (fifo_self q)) \<noteq> EOK"
  then show "\<exists>h'. fifo_put env q e h = Some (env_spin_lock env h (FifoLock (fifo_self q)), q, h') \<and> quiet h h'"
    by (auto simp: fifo_put_lock_error)
next
  fix q :: fifo and e :: "u8 list" and env :: env and h
  assume "fifo_inv q" "length e = fifo_width q"
    "env_spin_lock env h (FifoLock (fifo_self q)) = EOK" "fifo_elems q \<noteq> []"
  then show "\<exists>q' h'. fifo_get env q e h = Some (EOK, q', hd (fifo_elems q), h') \<and> fifo_inv q' \<and>
      fifo_elems q' = tl (fifo_elems q) \<and> fifo_keeps q q' \<and> quiet h h'"
    using fifo_get_drop [of env h q e] fifo_drop_inv [of q] fifo_drop_elems [of q]
    by (auto simp: fifo_keeps_def fifo_not_empty)
next
  fix q :: fifo and e :: "u8 list" and env :: env and h
  assume "env_spin_lock env h (FifoLock (fifo_self q)) = EOK" "fifo_elems q = []"
  then show "\<exists>h'. fifo_get env q e h = Some (ENOENT, q, e, h') \<and> quiet h h'"
    using fifo_get_empty [of env h q e] fifo_not_empty [of q] by auto
next
  fix q :: fifo and e :: "u8 list" and env :: env and h
  assume "env_spin_lock env h (FifoLock (fifo_self q)) \<noteq> EOK"
  then show "\<exists>h'. fifo_get env q e h = Some (env_spin_lock env h (FifoLock (fifo_self q)), q, e, h') \<and> quiet h h'"
    by (auto simp: fifo_get_lock_error)
next
  fix q :: fifo
  assume "fifo_inv q"
  then show "length (fifo_elems q) \<le> fifo_cap q" by (simp add: fifo_inv_def fifo_cap_def)
qed (auto simp: fifo_keeps_def)

text \<open>
  The virtqueue stores 16-bit indices: it passes the address of a \<open>uint16_t\<close>, so the element's
  bytes are the value's little-endian bytes.
\<close>

definition fifo_put16 :: "env \<Rightarrow> fifo \<Rightarrow> u16 \<Rightarrow> hist \<Rightarrow> (rc \<times> fifo \<times> hist) option" where
  "fifo_put16 env f x h = fifo_put env f (le16 x) h"

definition fifo_get16 :: "env \<Rightarrow> fifo \<Rightarrow> u16 \<Rightarrow> hist \<Rightarrow> (rc \<times> fifo \<times> u16 \<times> hist) option" where
  "fifo_get16 env f x h = do {
     (rc, f, e, h) \<leftarrow> fifo_get env f (le16 x) h;
     Some (rc, f, of_le16 e, h)
   }"

definition fifo_elems16 :: "fifo \<Rightarrow> u16 list" where
  "fifo_elems16 f = map of_le16 (fifo_elems f)"

definition fifo_inv16 :: "fifo \<Rightarrow> bool" where
  "fifo_inv16 f \<longleftrightarrow> fifo_inv f \<and> fifo_width f = 2"

interpretation fq16: bounded_queue fifo_put16 fifo_get16 fifo_elems16 fifo_cap fifo_inv16
    "\<lambda>f e. True" "\<lambda>f. FifoLock (fifo_self f)" fifo_keeps
proof unfold_locales
  fix q :: fifo and e :: u16 and env :: env and h
  assume *: "fifo_inv16 q" "env_spin_lock env h (FifoLock (fifo_self q)) = EOK"
    "length (fifo_elems16 q) < fifo_cap q"
  then show "\<exists>q' h'. fifo_put16 env q e h = Some (EOK, q', h') \<and> fifo_inv16 q' \<and>
      fifo_elems16 q' = fifo_elems16 q @ [e] \<and> fifo_keeps q q' \<and> quiet h h'"
    using fq.put_ok [of q "le16 e" env h]
    by (auto simp: fifo_put16_def fifo_inv16_def fifo_elems16_def fifo_keeps_def)
next
  fix q :: fifo and e :: u16 and env :: env and h
  assume "fifo_inv16 q" "env_spin_lock env h (FifoLock (fifo_self q)) = EOK"
    "length (fifo_elems16 q) = fifo_cap q"
  then show "\<exists>h'. fifo_put16 env q e h = Some (ENOMEM, q, h') \<and> quiet h h'"
    using fq.put_full [of q env h "le16 e"]
    by (simp add: fifo_put16_def fifo_inv16_def fifo_elems16_def)
next
  fix q :: fifo and e :: u16 and env :: env and h
  assume "env_spin_lock env h (FifoLock (fifo_self q)) \<noteq> EOK"
  then show "\<exists>h'. fifo_put16 env q e h = Some (env_spin_lock env h (FifoLock (fifo_self q)), q, h') \<and> quiet h h'"
    by (auto simp: fifo_put16_def fifo_put_lock_error)
next
  fix q :: fifo and e :: u16 and env :: env and h
  assume "fifo_inv16 q" "env_spin_lock env h (FifoLock (fifo_self q)) = EOK" "fifo_elems16 q \<noteq> []"
  then show "\<exists>q' h'. fifo_get16 env q e h = Some (EOK, q', hd (fifo_elems16 q), h') \<and> fifo_inv16 q' \<and>
      fifo_elems16 q' = tl (fifo_elems16 q) \<and> fifo_keeps q q' \<and> quiet h h'"
    using fq.get_ok [of q "le16 e" env h]
    by (auto simp: fifo_get16_def fifo_inv16_def fifo_elems16_def fifo_keeps_def hd_map map_tl)
next
  fix q :: fifo and e :: u16 and env :: env and h
  assume "fifo_inv16 q" "env_spin_lock env h (FifoLock (fifo_self q)) = EOK" "fifo_elems16 q = []"
  then show "\<exists>h'. fifo_get16 env q e h = Some (ENOENT, q, e, h') \<and> quiet h h'"
    using fq.get_empty [of q env h "le16 e"]
    by (auto simp: fifo_get16_def fifo_inv16_def fifo_elems16_def)
next
  fix q :: fifo and e :: u16 and env :: env and h
  assume "env_spin_lock env h (FifoLock (fifo_self q)) \<noteq> EOK"
  then show "\<exists>h'. fifo_get16 env q e h = Some (env_spin_lock env h (FifoLock (fifo_self q)), q, e, h') \<and> quiet h h'"
    by (auto simp: fifo_get16_def fifo_get_lock_error)
next
  fix q :: fifo
  assume "fifo_inv16 q"
  then show "length (fifo_elems16 q) \<le> fifo_cap q"
    using fq.elems_le [of q] by (simp add: fifo_inv16_def fifo_elems16_def)
qed (auto simp: fifo_keeps_def)

section \<open>Properties\<close>

text \<open>
  A fresh fifo: with memory available, a usable lock and a size that fits, \<open>fifo_create\<close> stores
  an empty queue of the requested capacity and element size.
\<close>

lemma fifo_create_ok:
  assumes "unat (env_fifo_hdr env) + unat c * unat w < 2 ^ 64"
    and "fst (malloc env (env_fifo_hdr env + c * w) h) \<noteq> 0"
    and "\<And>h l. env_spin_init env h l = EOK"
  shows "\<exists>f h'. fifo_create env c w (Some old) h = Some (EOK, Some (Some f), h') \<and> fifo_inv f \<and>
           fifo_elems f = [] \<and> fifo_cap f = unat c \<and> fifo_width f = unat w \<and> quiet h h'"
proof -
  have mul: "unat (c * w) = unat c * unat w"
    using assms(1) by (simp add: unat_word_ariths)
  have add: "unat (env_fifo_hdr env + c * w) = unat (env_fifo_hdr env) + unat c * unat w"
    using assms(1) by (simp add: unat_word_ariths)
  then have "\<not> env_fifo_hdr env + c * w < env_fifo_hdr env"
    by (simp add: word_less_nat_alt)
  then show ?thesis
    using assms(1,2,3) mul
    by (simp add: fifo_create_def fifo_inv_def fifo_elems_def fifo_cap_def fifo_width_def Let_def quiet_def unat_gt_0)
qed

text \<open>
  \<open>fifo_put\<close> and \<open>fifo_get\<close> refine a bounded list. From any well-formed fifo, every sequence
  of puts and gets returns, answers each operation as a list of at most \<open>capacity\<close> elements would
  (\<open>ENOMEM\<close> when full, \<open>ENOENT\<close> when empty, elements in the order they came), ends in a
  well-formed fifo that holds the list's elements, and leaves every lock as it found it.
\<close>

theorem fifo_refines_queue:
  assumes "fifo_inv f" and "locks_ok env" and "length buf = fifo_width f"
    and "\<And>e. Put e \<in> set ops \<Longrightarrow> length e = fifo_width f"
  shows "\<exists>f' h'. queue_run fifo_put fifo_get env buf f ops h =
           Some (fst (spec_run (fifo_cap f) (fifo_elems f) ops), f', h') \<and>
           fifo_elems f' = snd (spec_run (fifo_cap f) (fifo_elems f) ops) \<and> fifo_inv f' \<and> quiet h h'"
  by (rule fq.run_refines [OF assms(1,3,4,2)])

definition fifo_example :: fifo where
  "fifo_example = \<lparr> fifo_self = 4096, fifo_head = 1, fifo_tail = 1, fifo_count = 0, fifo_capacity = 2,
     fifo_elem_size = 1, fifo_data = [7, 8] \<rparr>"

lemma fifo_example_sel:
  "fifo_elems fifo_example = []" "fifo_cap fifo_example = 2" "fifo_width fifo_example = 1"
  by (simp_all add: fifo_example_def fifo_elems_def fifo_cap_def fifo_width_def)

theorem fifo_refines_queue_witness:
  "\<exists>f' h'. queue_run fifo_put fifo_get env0 [0] fifo_example [Put [1], Put [2], Put [3], Get] [] =
     Some ([(EOK, None), (EOK, None), (ENOMEM, None), (EOK, Some [1])], f', h') \<and>
     fifo_elems f' = [[2]]"
proof -
  have "fifo_inv fifo_example" by (simp add: fifo_inv_def fifo_example_def)
  from fifo_refines_queue [OF this locks_ok_env0, of "[0]" "[Put [1], Put [2], Put [3], Get]" "[]"]
  show ?thesis
    by (force simp: fifo_example_sel simp del: queue_run.simps)
qed

text \<open>
  \<open>fifo_put\<close> is defined on every path. On a well-formed fifo, whatever the lock returns, it
  returns, leaves every lock as it found it, and either appends the element to a queue that had
  room or changes nothing and says why.
\<close>

theorem fifo_put_total:
  assumes "fifo_inv f" and "length e = fifo_width f"
  shows "\<exists>rc f' h'. fifo_put env f e h = Some (rc, f', h') \<and> fifo_inv f' \<and> quiet h h' \<and>
           (rc = EOK \<and> fifo_elems f' = fifo_elems f @ [e] \<and> length (fifo_elems f) < fifo_cap f \<or>
            rc \<noteq> EOK \<and> f' = f)"
  using fq.put_total [OF assms] by blast

theorem fifo_put_total_witness:
  "\<exists>rc f' h'. fifo_put (env0\<lparr> env_spin_lock := \<lambda>h l. 16 \<rparr>) fifo_example [5] [] = Some (rc, f', h') \<and>
     (rc = EOK \<or> f' = fifo_example)"
proof -
  have "fifo_inv fifo_example" and "length [5::u8] = fifo_width fifo_example"
    by (simp_all add: fifo_inv_def fifo_example_def fifo_width_def)
  from fifo_put_total [OF this, of "env0\<lparr> env_spin_lock := \<lambda>h l. 16 \<rparr>" "[]"] show ?thesis by blast
qed

end
