(* ===== verification/Virtq.thy ===== *)
theory Virtq
  imports Fifo
begin

text \<open>
  \<^verbatim>\<open>src/virtio/virtq.c\<close>, the split virtqueue: the sizes and layout of its three areas, the
  structure, and the operations on descriptors and rings. The free descriptors are a fifo of
  indices, used through the interface of theory \<open>Fifo\<close>; the descriptor table, the available and
  the used ring are lists with bounds-checked accesses. Creation and destruction are in theory
  \<open>Virtq_Create\<close>.
\<close>

section \<open>Sizes and layout\<close>

definition VIRTQ_DESC_F_NEXT :: u16 where "VIRTQ_DESC_F_NEXT = 1"
definition VIRTQ_DESC_F_WRITE :: u16 where "VIRTQ_DESC_F_WRITE = 2"

definition virtq_desc_mem_size :: "size_t \<Rightarrow> size_t" where
  "virtq_desc_mem_size sz = sz * 16"

definition virtq_avail_mem_size :: "u16 \<Rightarrow> size_t" where
  "virtq_avail_mem_size num =
     (let ring_size = ucast num * 2; used_event_size = 2 in 4 + ring_size + used_event_size)"

definition virtq_used_mem_size :: "u16 \<Rightarrow> size_t" where
  "virtq_used_mem_size num = (let avail_event_size = 2 in 4 + ucast num * 8 + avail_event_size)"

definition ALIGN :: "size_t \<Rightarrow> size_t \<Rightarrow> size_t" where
  "ALIGN sz alignment = (sz + (alignment - 1)) AND NOT (alignment - 1)"

text \<open>
  The alignment is a \<open>uint16_t\<close>; promoted to \<open>int\<close> and sign-extended it acts as the zero-extended
  64-bit value in \<open>ALIGN\<close>, also for 0.
\<close>

definition virtq_legacy_mem_size :: "u16 \<Rightarrow> u16 \<Rightarrow> size_t" where
  "virtq_legacy_mem_size num alignment =
     ALIGN (virtq_desc_mem_size (ucast num) + virtq_avail_mem_size num) (ucast alignment) +
     ALIGN (virtq_avail_mem_size num) (ucast alignment)"

text \<open>The areas' sizes as numbers: for 16-bit queue sizes no sum wraps round.\<close>

lemma unat_desc_mem_size: "unat (virtq_desc_mem_size (ucast (n::u16))) = 16 * unat n"
  using unat_u16_less [of n] by (simp add: virtq_desc_mem_size_def unat_word_ariths)

lemma unat_avail_mem_size: "unat (virtq_avail_mem_size n) = 6 + 2 * unat n"
  using unat_u16_less [of n] by (simp add: virtq_avail_mem_size_def unat_word_ariths)

lemma unat_used_mem_size: "unat (virtq_used_mem_size n) = 6 + 8 * unat n"
  using unat_u16_less [of n] by (simp add: virtq_used_mem_size_def unat_word_ariths)

lemma and_not_mask: "x AND NOT (mask n) = push_bit n (drop_bit n (x::'a::len word))"
  by (rule bit_word_eqI) (auto simp: bit_simps)

text \<open>\<open>ALIGN\<close> rounds up to a multiple of a power of two.\<close>

lemma unat_ALIGN:
  assumes "k < 64" and "unat s + 2 ^ k \<le> 2 ^ 64"
  shows "unat (ALIGN s (2 ^ k)) = (unat s + (2 ^ k - 1)) div 2 ^ k * 2 ^ k"
proof -
  have m: "(2 ^ k - 1 :: u64) = mask k" by (simp add: mask_eq_exp_minus_1)
  have "(2::nat) ^ k \<le> 2 ^ 64" using assms(1) by (intro power_increasing) simp_all
  then have "mask k mod 2 ^ 64 = (2 ^ k - 1 :: nat)"
    by (simp add: mask_eq_exp_minus_1 less_imp_diff_less mod_less)
  moreover have "unat (of_nat (mask k) :: u64) = mask k mod 2 ^ 64"
    by (simp only: unat_of_nat) simp
  ultimately have um: "unat (mask k :: u64) = 2 ^ k - 1"
    by (simp only: of_nat_mask_eq)
  have "(0::nat) < 2 ^ k" by simp
  then have "unat s + (2 ^ k - 1) < 2 ^ 64" using assms(2) by linarith
  then have sum: "unat (s + mask k) = unat s + (2 ^ k - 1)"
    by (simp add: unat_word_ariths um)
  have "take_bit 64 (unat (s + mask k)) = unat (s + mask k)"
    using unsigned_less [of "s + mask k"] by (intro take_bit_nat_eq_self) simp
  then have "unat (ALIGN s (2 ^ k)) = take_bit 64 (push_bit k (drop_bit k (unat (s + mask k))))"
    by (simp add: ALIGN_def m and_not_mask unsigned_push_bit_eq unsigned_drop_bit_eq)
  also have "push_bit k (drop_bit k (unat (s + mask k))) = unat (s + mask k) div 2 ^ k * 2 ^ k"
    by (simp add: push_bit_eq_mult drop_bit_eq_div)
  also have "take_bit 64 (unat (s + mask k) div 2 ^ k * 2 ^ k) = unat (s + mask k) div 2 ^ k * 2 ^ k"
  proof (rule take_bit_nat_eq_self)
    have "unat (s + mask k) div 2 ^ k * 2 ^ k \<le> unat (s + mask k)" by simp
    also have "\<dots> < 2 ^ 64" using unsigned_less [of "s + mask k"] by simp
    finally show "unat (s + mask k) div 2 ^ k * 2 ^ k < 2 ^ 64" .
  qed
  finally show ?thesis by (simp only: sum)
qed

lemma unat_ALIGN_4096:
  "unat s < 2 ^ 63 \<Longrightarrow> unat (ALIGN s 4096) = (unat s + 4095) div 4096 * 4096"
  using unat_ALIGN [of 12 s] by simp

lemma round_up_4096: "(m::nat) \<le> (m + 4095) div 4096 * 4096"
proof -
  have "m + 4095 = (m + 4095) div 4096 * 4096 + (m + 4095) mod 4096" by simp
  moreover have "(m + 4095) mod 4096 < 4096" by simp
  ultimately show ?thesis by linarith
qed

lemma used_fits_iff: "6 + 8 * n \<le> (6 + 2 * n + 4095) div 4096 * 4096 \<longleftrightarrow> n \<le> (511::nat)"
proof
  assume "n \<le> 511"
  moreover have "1 \<le> (6 + 2 * n + 4095) div 4096" by (simp add: less_eq_div_iff_mult_less_eq)
  ultimately show "6 + 8 * n \<le> (6 + 2 * n + 4095) div 4096 * 4096" by linarith
next
  assume le: "6 + 8 * n \<le> (6 + 2 * n + 4095) div 4096 * 4096"
  also have "\<dots> \<le> 6 + 2 * n + 4095" by simp
  finally have "n \<le> 682" by simp
  then have "(6 + 2 * n + 4095) div 4096 < 2" by (simp add: div_less_iff_less_mult)
  with le show "n \<le> 511" by linarith
qed

lemma ucast_4096: "(ucast (4096 :: u16) :: u64) = 4096"
  by simp

lemma virtq_legacy_areas:
  "let used_offset = ALIGN (virtq_desc_mem_size (ucast num) + virtq_avail_mem_size num) 4096
   in unat used_offset mod 4096 = 0 \<and>
      16 * unat num + (6 + 2 * unat num) \<le> unat used_offset \<and>
      (unat used_offset + unat (virtq_used_mem_size num) \<le> unat (virtq_legacy_mem_size num 4096) \<longleftrightarrow>
       unat num \<le> 511)"
proof -
  let ?n = "unat num"
  have n: "?n < 65536" by (rule unat_u16_less)
  have sum: "unat (virtq_desc_mem_size (ucast num) + virtq_avail_mem_size num) = 18 * ?n + 6"
    using n by (simp add: unat_word_ariths unat_desc_mem_size unat_avail_mem_size)
  have off: "unat (ALIGN (virtq_desc_mem_size (ucast num) + virtq_avail_mem_size num) 4096) =
      (18 * ?n + 6 + 4095) div 4096 * 4096"
    using unat_ALIGN_4096 [of "virtq_desc_mem_size (ucast num) + virtq_avail_mem_size num"] n
    by (simp only: sum) simp
  have av: "unat (ALIGN (virtq_avail_mem_size num) 4096) = (6 + 2 * ?n + 4095) div 4096 * 4096"
    using unat_ALIGN_4096 [of "virtq_avail_mem_size num"] n
    by (simp only: unat_avail_mem_size) simp
  have total: "unat (virtq_legacy_mem_size num 4096) =
      (18 * ?n + 6 + 4095) div 4096 * 4096 + (6 + 2 * ?n + 4095) div 4096 * 4096"
  proof -
    have "(18 * ?n + 6 + 4095) div 4096 * 4096 + (6 + 2 * ?n + 4095) div 4096 * 4096 < 2 ^ 64"
      using n by simp
    then show ?thesis
      unfolding virtq_legacy_mem_size_def unat_word_ariths ucast_4096 off av by simp
  qed
  have "6 + 8 * ?n \<le> (6 + 2 * ?n + 4095) div 4096 * 4096 \<longleftrightarrow> ?n \<le> 511"
    by (rule used_fits_iff)
  moreover have "16 * ?n + (6 + 2 * ?n) \<le> (18 * ?n + 6 + 4095) div 4096 * 4096"
    using round_up_4096 [of "18 * ?n + 6"] by simp
  ultimately show ?thesis
    by (simp only: Let_def off total unat_used_mem_size add_le_cancel_left) simp
qed

lemma legacy_used_fits:
  "unat (ALIGN (virtq_desc_mem_size (ucast num) + virtq_avail_mem_size num) 4096) +
     unat (virtq_used_mem_size num) \<le> unat (virtq_legacy_mem_size num 4096) \<longleftrightarrow> unat num \<le> 511"
  using virtq_legacy_areas [of num] by (simp add: Let_def)

text \<open>
  C38: the legacy layout, with 4096-byte pages. The used ring starts on the page boundary after
  the descriptor table and the available ring and does not overlap them. It ends inside the
  mapping the code makes exactly when the queue has at most 511 entries: the second summand of
  \<open>virtq_legacy_mem_size\<close> is the size of the available ring, not of the used ring.
\<close>

theorem virtq_legacy_layout:
  "let used_offset = ALIGN (virtq_desc_mem_size (ucast num) + virtq_avail_mem_size num) 4096
   in unat used_offset mod 4096 = 0 \<and>
      16 * unat num + (6 + 2 * unat num) \<le> unat used_offset \<and>
      (unat used_offset + unat (virtq_used_mem_size num) \<le> unat (virtq_legacy_mem_size num 4096) \<longleftrightarrow>
       unat num \<le> 511)"
  by (rule virtq_legacy_areas)

section \<open>The structure\<close>

record virtq_desc =
  desc_addr :: u64
  desc_len :: u32
  desc_flags :: u16
  desc_next :: u16

record virtq_used_elem =
  used_elem_id :: u32
  used_elem_len :: u32

record desc_extras =
  extras_vaddr :: u64
  extras_context :: ptr

text \<open>
  \<open>struct virtq\<close> with the memory its pointers name: \<open>vq_desc_ptr\<close> is the pointer \<open>desc\<close>, \<open>vq_desc\<close>
  the table it points to. The flexible arrays of \<open>struct virtq_avail\<close> and \<open>struct virtq_used\<close> are
  the fields \<open>vq_avail_ring\<close> and \<open>vq_used_ring\<close>, next to the \<open>flags\<close> and \<open>idx\<close> of each. The device
  writes \<open>vq_used_idx\<close> and \<open>vq_used_ring\<close> between the driver's steps.
\<close>

record virtq =
  vq_self :: ptr
  vq_num :: u16
  vq_legacy :: bool
  vq_desc_ptr :: ptr
  vq_desc :: "virtq_desc list"
  vq_desc_paddr :: u64
  vq_avail_ptr :: ptr
  vq_avail_flags :: u16
  vq_avail_idx :: u16
  vq_avail_ring :: "u16 list"
  vq_avail_paddr :: u64
  vq_used_ptr :: ptr
  vq_used_idx :: u16
  vq_used_ring :: "virtq_used_elem list"
  vq_used_paddr :: u64
  vq_last_seen_used :: u16
  vq_free_descs :: "fifo option"
  vq_extras_ptr :: ptr
  vq_extras :: "desc_extras list"

section \<open>Reading the structure\<close>

definition virtq_desc_paddr :: "virtq option \<Rightarrow> u64 cell \<Rightarrow> rc \<times> u64 cell" where
  "virtq_desc_paddr vq paddr =
     (case (vq, paddr) of (Some q, Some _) \<Rightarrow> (EOK, Some (vq_desc_paddr q)) | _ \<Rightarrow> (EINVAL, paddr))"

definition virtq_avail_paddr :: "virtq option \<Rightarrow> u64 cell \<Rightarrow> rc \<times> u64 cell" where
  "virtq_avail_paddr vq paddr =
     (case (vq, paddr) of (Some q, Some _) \<Rightarrow> (EOK, Some (vq_avail_paddr q)) | _ \<Rightarrow> (EINVAL, paddr))"

definition virtq_used_paddr :: "virtq option \<Rightarrow> u64 cell \<Rightarrow> rc \<times> u64 cell" where
  "virtq_used_paddr vq paddr =
     (case (vq, paddr) of (Some q, Some _) \<Rightarrow> (EOK, Some (vq_used_paddr q)) | _ \<Rightarrow> (EINVAL, paddr))"

definition virtq_size :: "virtq option \<Rightarrow> u16 cell \<Rightarrow> rc \<times> u16 cell" where
  "virtq_size vq num =
     (case (vq, num) of (Some q, Some _) \<Rightarrow> (EOK, Some (vq_num q)) | _ \<Rightarrow> (EINVAL, num))"

definition virtq_get_desc_vaddr :: "virtq option \<Rightarrow> u16 \<Rightarrow> u64 cell \<Rightarrow> (rc \<times> u64 cell) option" where
  "virtq_get_desc_vaddr vq idx vaddr =
     (case (vq, vaddr) of
        (Some q, Some _) \<Rightarrow>
          if vq_num q \<le> idx then Some (EINVAL, vaddr)
          else do { x \<leftarrow> arr_get (vq_extras q) (unat idx); Some (EOK, Some (extras_vaddr x)) }
      | _ \<Rightarrow> Some (EINVAL, vaddr))"

definition virtq_get_desc_len :: "virtq option \<Rightarrow> u16 \<Rightarrow> u32 cell \<Rightarrow> (rc \<times> u32 cell) option" where
  "virtq_get_desc_len vq idx len =
     (case (vq, len) of
        (Some q, Some _) \<Rightarrow>
          if vq_num q \<le> idx then Some (EINVAL, len)
          else do { d \<leftarrow> arr_get (vq_desc q) (unat idx); Some (EOK, Some (desc_len d)) }
      | _ \<Rightarrow> Some (EINVAL, len))"

definition virtq_get_desc_flags :: "virtq option \<Rightarrow> u16 \<Rightarrow> u16 cell \<Rightarrow> (rc \<times> u16 cell) option" where
  "virtq_get_desc_flags vq idx flags =
     (case (vq, flags) of
        (Some q, Some _) \<Rightarrow>
          if vq_num q \<le> idx then Some (EINVAL, flags)
          else do { d \<leftarrow> arr_get (vq_desc q) (unat idx); Some (EOK, Some (desc_flags d)) }
      | _ \<Rightarrow> Some (EINVAL, flags))"

definition virtq_get_desc_context :: "virtq option \<Rightarrow> u16 \<Rightarrow> ptr cell \<Rightarrow> (rc \<times> ptr cell) option" where
  "virtq_get_desc_context vq idx context =
     (case (vq, context) of
        (Some q, Some _) \<Rightarrow>
          if vq_num q \<le> idx then Some (EINVAL, context)
          else do { x \<leftarrow> arr_get (vq_extras q) (unat idx); Some (EOK, Some (extras_context x)) }
      | _ \<Rightarrow> Some (EINVAL, context))"

text \<open>The new context is a pointer; the null pointer is 0.\<close>

definition virtq_set_desc_context ::
  "virtq option \<Rightarrow> u16 \<Rightarrow> ptr \<Rightarrow> (rc \<times> virtq option) option" where
  "virtq_set_desc_context vq idx context =
     (case vq of
        None \<Rightarrow> Some (EINVAL, vq)
      | Some q \<Rightarrow>
          if context = 0 then Some (EINVAL, vq)
          else if vq_num q \<le> idx then Some (EINVAL, vq)
          else do {
            x \<leftarrow> arr_get (vq_extras q) (unat idx);
            xs \<leftarrow> arr_set (vq_extras q) (unat idx) (x\<lparr> extras_context := context \<rparr>);
            Some (EOK, Some (q\<lparr> vq_extras := xs \<rparr>))
          })"

section \<open>Allocating and freeing descriptors\<close>

text \<open>
  The error path puts the index back with the result ignored (labels \<open>unmap_desc\<close> and
  \<open>free_desc\<close>); the list \<open>q\<close> of the code is the state after the \<open>fifo_get\<close>.
\<close>

definition virtq_alloc_undo ::
  "env \<Rightarrow> rc \<Rightarrow> virtq \<Rightarrow> fifo \<Rightarrow> u16 \<Rightarrow> hist \<Rightarrow> (rc \<times> virtq option \<times> u16 cell \<times> hist) option" where
  "virtq_alloc_undo env rc q f idx h = do {
     (_, f, h) \<leftarrow> fifo_put16 env f idx h;
     Some (rc, Some (q\<lparr> vq_free_descs := Some f \<rparr>), Some idx, h)
   }"

definition virtq_alloc_desc ::
  "env \<Rightarrow> virtq option \<Rightarrow> u32 \<Rightarrow> bool \<Rightarrow> u16 cell \<Rightarrow> hist \<Rightarrow>
   (rc \<times> virtq option \<times> u16 cell \<times> hist) option" where
  "virtq_alloc_desc env vq len writable idx h =
     (case (vq, idx) of
        (Some q, Some i) \<Rightarrow> do {
          f \<leftarrow> vq_free_descs q;
          (rc, f, i, h) \<leftarrow> fifo_get16 env f i h;
          (if rc \<noteq> EOK then Some (rc, Some (q\<lparr> vq_free_descs := Some f \<rparr>), Some i, h)
           else
             let (r, h) = mmap64 env None (ucast len) h
             in case r of
                  Inl e \<Rightarrow> virtq_alloc_undo env e q f i h
                | Inr vaddr \<Rightarrow>
                    let ((rc, errno, paddr), h) = mem_offset64 env vaddr (ucast len) 0 h
                    in if rc \<noteq> EOK then
                      let (_, h) = munmap env vaddr (ucast len) h
                      in virtq_alloc_undo env errno q f i h
                    else do {
                      xs \<leftarrow> arr_set (vq_extras q) (unat i) \<lparr> extras_vaddr = vaddr, extras_context = 0 \<rparr>;
                      ds \<leftarrow> arr_set (vq_desc q) (unat i)
                             \<lparr> desc_addr = paddr, desc_len = len,
                               desc_flags = (if writable then VIRTQ_DESC_F_WRITE else 0), desc_next = 0 \<rparr>;
                      Some (EOK, Some (q\<lparr> vq_free_descs := Some f, vq_extras := xs, vq_desc := ds \<rparr>), Some i, h)
                    })
        }
      | _ \<Rightarrow> Some (EINVAL, vq, idx, h))"

definition virtq_free_desc :: "env \<Rightarrow> virtq \<Rightarrow> u16 \<Rightarrow> hist \<Rightarrow> (rc \<times> virtq \<times> hist) option" where
  "virtq_free_desc env q idx h = do {
     x \<leftarrow> arr_get (vq_extras q) (unat idx);
     d \<leftarrow> arr_get (vq_desc q) (unat idx);
     let ((rc, _), h) = munmap env (extras_vaddr x) (ucast (desc_len d)) h
     in if rc \<noteq> EOK then Some (rc, q, h)
     else do {
       xs \<leftarrow> arr_set (vq_extras q) (unat idx) \<lparr> extras_vaddr = 0, extras_context = 0 \<rparr>;
       ds \<leftarrow> arr_set (vq_desc q) (unat idx)
              \<lparr> desc_addr = 0, desc_len = 0, desc_flags = 0, desc_next = 0 \<rparr>;
       f \<leftarrow> vq_free_descs q;
       (rc, f, h) \<leftarrow> fifo_put16 env f idx h;
       Some (rc, q\<lparr> vq_extras := xs, vq_desc := ds, vq_free_descs := Some f \<rparr>, h)
     }
   }"

section \<open>Submitting and collecting chains\<close>

text \<open>The loop of \<open>virtq_put_desc_chain\<close>: each descriptor but the last points to the one after it.\<close>

fun virtq_link :: "virtq_desc list \<Rightarrow> u16 list \<Rightarrow> virtq_desc list option" where
  "virtq_link ds (i # j # is) = do {
     d \<leftarrow> arr_get ds (unat i);
     ds \<leftarrow> arr_set ds (unat i) (d\<lparr> desc_next := j, desc_flags := desc_flags d OR VIRTQ_DESC_F_NEXT \<rparr>);
     virtq_link ds (j # is)
   }"
| "virtq_link ds is = Some ds"

text \<open>
  \<open>idx\<close> is the array the caller passes, \<open>count\<close> the number of entries to use. A count of 0 reads
  \<open>idx[-1]\<close>, and a ring of size 0 divides by 0: both are undefined.
\<close>

definition virtq_put_desc_chain ::
  "env \<Rightarrow> virtq \<Rightarrow> size_t \<Rightarrow> u16 list \<Rightarrow> hist \<Rightarrow> (rc \<times> virtq \<times> hist) option" where
  "virtq_put_desc_chain env q cnt idx h =
     (if length idx < unat cnt \<or> cnt = 0 then None
      else do {
        ds \<leftarrow> virtq_link (vq_desc q) (take (unat cnt) idx);
        d \<leftarrow> arr_get ds (unat (idx ! (unat cnt - 1)));
        ds \<leftarrow> arr_set ds (unat (idx ! (unat cnt - 1))) (d\<lparr> desc_next := 0 \<rparr>);
        let q = q\<lparr> vq_desc := ds \<rparr>;
            (rc, h) = spin_lock env (VirtqLock (vq_self q)) h
        in if rc \<noteq> EOK then Some (rc, q, h)
        else if vq_num q = 0 then None
        else do {
          ring \<leftarrow> arr_set (vq_avail_ring q) (unat (vq_avail_idx q) mod unat (vq_num q)) (idx ! 0);
          let h = AvailRing (vq_self q) (vq_avail_idx q mod vq_num q) (idx ! 0) # h;
              h = Fence # h;
              q = q\<lparr> vq_avail_ring := ring, vq_avail_idx := vq_avail_idx q + 1 \<rparr>;
              h = AvailIdx (vq_self q) (vq_avail_idx q) # h;
              (rc, h) = spin_unlock env (VirtqLock (vq_self q)) h
          in Some (rc, q, h)
        }
      })"

text \<open>
  The loop that follows a used chain into \<open>idx\<close>, from entry \<open>desc_count\<close>. The counter is a
  \<open>uint16_t\<close> compared with a \<open>size_t\<close>, so for more than 65535 entries the loop need not end.
\<close>

partial_function (option) virtq_walk ::
  "virtq_desc list \<Rightarrow> size_t \<Rightarrow> u16 \<Rightarrow> u16 \<Rightarrow> u16 list \<Rightarrow> (u16 \<times> u16 list) option" where
  "virtq_walk ds cnt desc_count desc_idx idx =
     (if ucast desc_count < cnt then
        Option.bind (arr_set idx (unat desc_count) desc_idx) (\<lambda>idx.
          Option.bind (arr_get ds (unat desc_idx)) (\<lambda>d.
            if desc_flags d AND VIRTQ_DESC_F_NEXT \<noteq> 0
            then virtq_walk ds cnt (desc_count + 1) (desc_next d) idx
            else Some (desc_count, idx)))
      else Some (desc_count, idx))"

definition virtq_get_desc_chain ::
  "env \<Rightarrow> virtq option \<Rightarrow> size_t cell \<Rightarrow> u16 list cell \<Rightarrow> hist \<Rightarrow>
   (rc \<times> virtq option \<times> size_t cell \<times> u16 list cell \<times> hist) option" where
  "virtq_get_desc_chain env vq cnt idx h =
     (case (vq, cnt, idx) of
        (Some q, Some n, Some buf) \<Rightarrow>
          let (rc, h) = spin_lock env (VirtqLock (vq_self q)) h
          in if rc \<noteq> EOK then Some (rc, vq, cnt, idx, h)
          else do {
            (rc, q, n, buf) \<leftarrow>
              (if vq_used_idx q = vq_last_seen_used q then Some (ENOENT, q, n, buf)
               else if vq_num q = 0 then None
               else do {
                 u \<leftarrow> arr_get (vq_used_ring q) (unat (vq_last_seen_used q) mod unat (vq_num q));
                 (desc_count, buf) \<leftarrow> virtq_walk (vq_desc q) n 0 (ucast (used_elem_id u)) buf;
                 if ucast desc_count = n then Some (ENOMEM, q, n, buf)
                 else Some (EOK, q\<lparr> vq_last_seen_used := vq_last_seen_used q + 1 \<rparr>,
                            ucast desc_count + 1, buf)
               });
            let (_, h) = spin_unlock env (VirtqLock (vq_self q)) h
            in Some (rc, Some q, Some n, Some buf, h)
          }
      | _ \<Rightarrow> Some (EINVAL, vq, cnt, idx, h))"

section \<open>Invariant\<close>

definition free_list :: "virtq \<Rightarrow> u16 list" where
  "free_list q = (case vq_free_descs q of None \<Rightarrow> [] | Some f \<Rightarrow> fifo_elems16 f)"

text \<open>
  The tables and rings have \<open>num\<close> entries; the free list is a well-formed fifo of capacity \<open>num\<close>
  that holds each index at most once, all of them below \<open>num\<close>.
\<close>

definition virtq_inv :: "virtq \<Rightarrow> bool" where
  [inv_simps]: "virtq_inv q \<longleftrightarrow>
     vq_num q \<noteq> 0 \<and>
     length (vq_desc q) = unat (vq_num q) \<and> length (vq_extras q) = unat (vq_num q) \<and>
     length (vq_avail_ring q) = unat (vq_num q) \<and> length (vq_used_ring q) = unat (vq_num q) \<and>
     (case vq_free_descs q of
        None \<Rightarrow> False
      | Some f \<Rightarrow> fifo_inv16 f \<and> fifo_cap f = unat (vq_num q)) \<and>
     distinct (free_list q) \<and> (\<forall>i \<in> set (free_list q). i < vq_num q)"

text \<open>The descriptors in use: those below \<open>num\<close> that are not in the free list.\<close>

definition allocated :: "virtq \<Rightarrow> u16 set" where
  "allocated q = {i. i < vq_num q} - set (free_list q)"

lemma virtq_inv_fifo:
  assumes "virtq_inv q"
  obtains f where "vq_free_descs q = Some f" and "fifo_inv16 f" and "fifo_cap f = unat (vq_num q)"
    and "free_list q = fifo_elems16 f"
  using assms by (cases "vq_free_descs q") (auto simp: virtq_inv_def free_list_def)

lemma free_list_update [simp]:
  "free_list (q\<lparr> vq_free_descs := Some f \<rparr>) = fifo_elems16 f"
  "free_list (q\<lparr> vq_desc := ds \<rparr>) = free_list q"
  "free_list (q\<lparr> vq_extras := xs \<rparr>) = free_list q"
  "free_list (q\<lparr> vq_avail_ring := ring \<rparr>) = free_list q"
  "free_list (q\<lparr> vq_avail_idx := ai \<rparr>) = free_list q"
  "free_list (q\<lparr> vq_last_seen_used := ls \<rparr>) = free_list q"
  by (simp_all add: free_list_def)

text \<open>
  The three frames of an invariant-preserving step: the free list becomes another list of
  distinct indices in range, a descriptor entry is overwritten, an entry of the side table is.
\<close>

lemma virtq_inv_free:
  assumes "virtq_inv q" and "fifo_inv16 f" and "fifo_cap f = unat (vq_num q)"
    and "distinct (fifo_elems16 f)" and "\<forall>i \<in> set (fifo_elems16 f). i < vq_num q"
  shows "virtq_inv (q\<lparr> vq_free_descs := Some f \<rparr>)"
  using assms by (simp add: virtq_inv_def)

lemma virtq_inv_extras:
  "virtq_inv q \<Longrightarrow> length xs = length (vq_extras q) \<Longrightarrow> virtq_inv (q\<lparr> vq_extras := xs \<rparr>)"
  by (simp add: virtq_inv_def split: option.splits)

lemma virtq_inv_in_range:
  assumes "virtq_inv q" and "i < vq_num q"
  shows "unat i < length (vq_desc q)" and "unat i < length (vq_extras q)"
  using assms by (simp_all add: virtq_inv_def word_less_nat_alt)

section \<open>Allocation\<close>

text \<open>What a successful allocation of descriptor \<open>i\<close> stores.\<close>

definition virtq_alloc_post :: "virtq \<Rightarrow> fifo \<Rightarrow> u16 \<Rightarrow> u64 \<Rightarrow> u64 \<Rightarrow> u32 \<Rightarrow> bool \<Rightarrow> virtq" where
  "virtq_alloc_post q f i vaddr paddr len writable =
     q\<lparr> vq_free_descs := Some f,
        vq_extras := (vq_extras q)[unat i := \<lparr> extras_vaddr = vaddr, extras_context = 0 \<rparr>],
        vq_desc := (vq_desc q)[unat i :=
          \<lparr> desc_addr = paddr, desc_len = len,
            desc_flags = (if writable then VIRTQ_DESC_F_WRITE else 0), desc_next = 0 \<rparr>] \<rparr>"

lemma virtq_alloc_post_inv:
  assumes "virtq_inv q" and "fifo_inv16 f" and "fifo_cap f = unat (vq_num q)"
    and "free_list q = i # fifo_elems16 f"
  shows "virtq_inv (virtq_alloc_post q f i va pa len wr)"
  using assms by (simp add: virtq_inv_def virtq_alloc_post_def)

text \<open>The free list after \<open>fifo_get\<close> and a successful undo: the old one, rotated.\<close>

lemma virtq_alloc_undo_ok:
  assumes "fifo_inv16 f" and "locks_ok env" and "length (fifo_elems16 f) < fifo_cap f"
  shows "\<exists>f' h'. virtq_alloc_undo env rc q f i h = Some (rc, Some (q\<lparr> vq_free_descs := Some f' \<rparr>), Some i, h') \<and>
           fifo_inv16 f' \<and> fifo_elems16 f' = fifo_elems16 f @ [i] \<and> fifo_keeps f f' \<and> quiet h h'"
proof -
  obtain f' h' where "fifo_put16 env f i h = Some (EOK, f', h')" "fifo_inv16 f'"
      "fifo_elems16 f' = fifo_elems16 f @ [i]" "fifo_keeps f f'" "quiet h h'"
    using fq16.put_ok [OF assms(1) TrueI _ assms(3), of env h i] assms(2) by auto
  then show ?thesis by (auto simp: virtq_alloc_undo_def)
qed

lemma quiet_Mmap_error [simp]: "quiet h (Mmap phys n (Inl e) # h)"
  by (simp add: quiet_def)

text \<open>The two outcomes of an allocation whose free list was not empty: a descriptor, or the list rotated.\<close>

definition alloc_done ::
  "env \<Rightarrow> virtq \<Rightarrow> u32 \<Rightarrow> bool \<Rightarrow> hist \<Rightarrow> (rc \<times> virtq option \<times> u16 cell \<times> hist) option \<Rightarrow> bool" where
  "alloc_done env q len wr h r \<longleftrightarrow>
     (\<exists>i f va pa h'. r = Some (EOK, Some (virtq_alloc_post q f i va pa len wr), Some i, h') \<and>
        free_list q = i # fifo_elems16 f \<and> fifo_inv16 f \<and> fifo_cap f = unat (vq_num q) \<and>
        live h' = add_mset (va, ucast len) (live h) \<and>
        (\<forall>l. held l h' = held l h) \<and> frees h' = frees h \<and>
        (\<exists>h1. live h1 = live h \<and> env_mmap env h1 None (ucast len) = Inr va))"

definition alloc_undone :: "env \<Rightarrow> virtq \<Rightarrow> hist \<Rightarrow> (rc \<times> virtq option \<times> u16 cell \<times> hist) option \<Rightarrow> bool" where
  "alloc_undone env q h r \<longleftrightarrow>
     (\<exists>rc i f h'. r = Some (rc, Some (q\<lparr> vq_free_descs := Some f \<rparr>), Some i, h') \<and> rc \<noteq> EOK \<and>
        free_list q \<noteq> [] \<and> fifo_elems16 f = rotate1 (free_list q) \<and> fifo_inv16 f \<and>
        fifo_cap f = unat (vq_num q) \<and>
        (unmaps_ok env \<longrightarrow> live h' = live h) \<and>
        (\<forall>l. held l h' = held l h) \<and> frees h' = frees h)"

lemma virtq_alloc_undone:
  assumes env: "locks_ok env" and g: "fifo_inv16 g" "fifo_cap g = unat (vq_num q)" "free_list q = i # fifo_elems16 g"
    and room: "length (fifo_elems16 g) < fifo_cap g"
    and e: "e \<noteq> EOK" and h: "unmaps_ok env \<longrightarrow> live h2 = live h" "\<forall>l. held l h2 = held l h" "frees h2 = frees h"
  shows "alloc_undone env q h (virtq_alloc_undo env e q g i h2)"
proof -
  obtain f' h' where u: "virtq_alloc_undo env e q g i h2 = Some (e, Some (q\<lparr> vq_free_descs := Some f' \<rparr>), Some i, h')"
      "fifo_inv16 f'" "fifo_elems16 f' = fifo_elems16 g @ [i]" "fifo_keeps g f'" "quiet h2 h'"
    using virtq_alloc_undo_ok [OF g(1) env room] by blast
  then show ?thesis
    using g e h unfolding alloc_undone_def by (auto simp: fifo_keeps_def quiet_def)
qed

lemma virtq_alloc_desc_taken:
  assumes inv: "virtq_inv q" and env: "locks_ok env" "errnos_ok env" and f: "vq_free_descs q = Some f"
    and g: "fifo_get16 env f i0 h = Some (EOK, g, i, h1)" "fifo_inv16 g" "fifo_cap g = unat (vq_num q)"
      "free_list q = i # fifo_elems16 g" "quiet h h1" and room: "length (fifo_elems16 g) < fifo_cap g"
  shows "alloc_done env q len wr h (virtq_alloc_desc env (Some q) len wr (Some i0) h) \<or>
         alloc_undone env q h (virtq_alloc_desc env (Some q) len wr (Some i0) h)"
proof -
  have rng: "unat i < length (vq_extras q)" "unat i < length (vq_desc q)"
    using inv g(4) by (auto simp: virtq_inv_def word_less_nat_alt)
  have q1: "\<forall>l. held l h1 = held l h" "live h1 = live h" "frees h1 = frees h"
    using g(5) by (simp_all add: quiet_def)
  note undone = virtq_alloc_undone [OF env(1) g(2-4) room]
  note defs = virtq_alloc_desc_def Let_def f g(1)
  consider (mmap) e where "env_mmap env h1 None (ucast len) = Inl e"
    | (offset) va e where "env_mmap env h1 None (ucast len) = Inr va"
        "env_mem_offset env (Mmap None (ucast len) (Inr va) # h1) va (ucast len) = Inl e"
    | (both) va pa where "env_mmap env h1 None (ucast len) = Inr va"
        "env_mem_offset env (Mmap None (ucast len) (Inr va) # h1) va (ucast len) = Inr pa"
    by (metis sum.exhaust)
  then show ?thesis
  proof cases
    case mmap
    then have "e \<noteq> EOK" using env(2) by auto
    from undone [OF this, of "Mmap None (ucast len) (Inl e) # h1"] show ?thesis
      using mmap q1 by (simp add: defs)
  next
    case offset
    let ?h2 = "MemOffset va (ucast len) (Inl e) # Mmap None (ucast len) (Inr va) # h1"
    let ?h3 = "Munmap va (ucast len) (env_munmap env ?h2 va (ucast len)) # ?h2"
    have "e \<noteq> EOK" using offset env(2) by auto
    moreover have "live ?h3 = live h" if "unmaps_ok env" using that q1 by (simp add: unmaps_ok_def)
    ultimately have "alloc_undone env q h (virtq_alloc_undo env e q g i ?h3)" using undone q1 by simp
    then show ?thesis using offset by (simp add: defs)
  next
    case both
    let ?h3 = "MemOffset va (ucast len) (Inr pa) # Mmap None (ucast len) (Inr va) # h1"
    have "virtq_alloc_desc env (Some q) len wr (Some i0) h =
        Some (EOK, Some (virtq_alloc_post q g i va pa len wr), Some i, ?h3)"
      using both rng by (simp add: defs virtq_alloc_post_def)
    moreover have "live ?h3 = add_mset (va, ucast len) (live h)" using q1 by simp
    moreover have "\<forall>l. held l ?h3 = held l h" "frees ?h3 = frees h" using q1 by simp_all
    ultimately show ?thesis using g(2-4) both(1) q1(2) unfolding alloc_done_def by blast
  qed
qed

lemma virtq_alloc_desc_cases:
  assumes inv: "virtq_inv q" and env: "locks_ok env" "errnos_ok env"
  shows "(free_list q = [] \<and>
        (\<exists>h'. virtq_alloc_desc env (Some q) len wr (Some i0) h = Some (ENOENT, Some q, Some i0, h') \<and> quiet h h')) \<or>
     alloc_done env q len wr h (virtq_alloc_desc env (Some q) len wr (Some i0) h) \<or>
     alloc_undone env q h (virtq_alloc_desc env (Some q) len wr (Some i0) h)"
proof -
  obtain f where f: "vq_free_descs q = Some f" "fifo_inv16 f" "fifo_cap f = unat (vq_num q)"
      "free_list q = fifo_elems16 f"
    using inv by (rule virtq_inv_fifo)
  show ?thesis
  proof (cases "fifo_elems16 f = []")
    case True
    then obtain h' where "fifo_get16 env f i0 h = Some (ENOENT, f, i0, h')" "quiet h h'"
      using fq16.get_empty [OF f(2) _ True, of env h i0] env by auto
    moreover have "q\<lparr> vq_free_descs := Some f \<rparr> = q" using f(1) by simp
    ultimately show ?thesis using f True by (simp add: virtq_alloc_desc_def)
  next
    case False
    let ?i = "hd (fifo_elems16 f)"
    obtain g h1 where g: "fifo_get16 env f i0 h = Some (EOK, g, ?i, h1)" "fifo_inv16 g"
        "fifo_elems16 g = tl (fifo_elems16 f)" "fifo_keeps f g" "quiet h h1"
      using fq16.get_ok [OF f(2) TrueI _ False, of env h i0] env by auto
    have cap: "fifo_cap g = unat (vq_num q)" using g(4) f(3) by (simp add: fifo_keeps_def)
    have fl: "free_list q = ?i # fifo_elems16 g" using f(4) g(3) False by simp
    have "length (fifo_elems16 g) < fifo_cap g"
      using fq16.elems_le [OF f(2)] g(3) cap f(3) False by (cases "fifo_elems16 f") auto
    from virtq_alloc_desc_taken [OF inv env f(1) g(1,2) cap fl g(5) this] show ?thesis by blast
  qed
qed

lemma allocated_cons:
  assumes "virtq_inv q" and "free_list q = i # is"
  shows "i < vq_num q" and "i \<notin> allocated q"
    and "{j. j < vq_num q} - set is = insert i (allocated q)"
  using assms by (auto simp: virtq_inv_def allocated_def)

text \<open>The part of a queue that the device shares, apart from the descriptor table.\<close>

definition same_rings :: "virtq \<Rightarrow> virtq \<Rightarrow> bool" where
  "same_rings q q' \<longleftrightarrow>
     vq_self q' = vq_self q \<and> vq_num q' = vq_num q \<and>
     vq_avail_ring q' = vq_avail_ring q \<and> vq_avail_idx q' = vq_avail_idx q \<and>
     vq_used_ring q' = vq_used_ring q \<and> vq_used_idx q' = vq_used_idx q \<and>
     vq_last_seen_used q' = vq_last_seen_used q"

lemma virtq_alloc_desc_run:
  assumes "virtq_inv q" and "locks_ok env" and "errnos_ok env" and "unmaps_ok env"
  shows "\<exists>rc q' i h'. virtq_alloc_desc env (Some q) len wr (Some i0) h = Some (rc, Some q', Some i, h') \<and>
      virtq_inv q' \<and> same_rings q q' \<and> (\<forall>l. held l h' = held l h) \<and> frees h' = frees h \<and>
      (rc = EOK \<longrightarrow>
         extras_context (vq_extras q' ! unat i) = 0 \<and>
         (\<exists>h1. live h1 = live h \<and> env_mmap env h1 None (ucast len) = Inr (extras_vaddr (vq_extras q' ! unat i))) \<and>
         i < vq_num q \<and> i \<notin> allocated q \<and> allocated q' = insert i (allocated q) \<and>
         desc_len (vq_desc q' ! unat i) = len \<and>
         desc_flags (vq_desc q' ! unat i) = (if wr then VIRTQ_DESC_F_WRITE else 0) \<and>
         desc_next (vq_desc q' ! unat i) = 0 \<and>
         (\<forall>j. j \<noteq> i \<longrightarrow> vq_desc q' ! unat j = vq_desc q ! unat j \<and> vq_extras q' ! unat j = vq_extras q ! unat j) \<and>
         live h' = add_mset (extras_vaddr (vq_extras q' ! unat i), ucast len) (live h)) \<and>
      (rc \<noteq> EOK \<longrightarrow>
         allocated q' = allocated q \<and> vq_desc q' = vq_desc q \<and> vq_extras q' = vq_extras q \<and>
         live h' = live h) \<and>
      (allocated q = {i. i < vq_num q} \<longrightarrow> rc = ENOENT)"
  using virtq_alloc_desc_cases [OF assms(1-3), of len wr i0 h]
proof (elim disjE conjE exE)
  fix h'
  assume "virtq_alloc_desc env (Some q) len wr (Some i0) h = Some (ENOENT, Some q, Some i0, h')" "quiet h h'"
  then show ?thesis using assms(1) by (auto simp: quiet_def same_rings_def)
next
  assume "alloc_done env q len wr h (virtq_alloc_desc env (Some q) len wr (Some i0) h)"
  then obtain i f va pa h' where ok: "virtq_alloc_desc env (Some q) len wr (Some i0) h =
        Some (EOK, Some (virtq_alloc_post q f i va pa len wr), Some i, h')"
      "free_list q = i # fifo_elems16 f" "fifo_inv16 f" "fifo_cap f = unat (vq_num q)"
      "live h' = add_mset (va, ucast len) (live h)" "\<forall>l. held l h' = held l h" "frees h' = frees h"
      "\<exists>h1. live h1 = live h \<and> env_mmap env h1 None (ucast len) = Inr va"
    unfolding alloc_done_def by blast
  note al = allocated_cons [OF assms(1) ok(2)]
  have "unat i < length (vq_desc q)" "unat i < length (vq_extras q)"
    using virtq_inv_in_range [OF assms(1) al(1)] by simp_all
  moreover have "allocated (virtq_alloc_post q f i va pa len wr) = insert i (allocated q)"
    using al(3) by (simp add: allocated_def virtq_alloc_post_def)
  moreover have "\<not> allocated q = {i. i < vq_num q}" using al(1,2) by blast
  ultimately show ?thesis
    using ok(1,5-8) al(1,2) virtq_alloc_post_inv [OF assms(1) ok(3,4,2), of va pa len wr]
    by (simp add: virtq_alloc_post_def nth_list_update unat_inject same_rings_def)
next
  assume "alloc_undone env q h (virtq_alloc_desc env (Some q) len wr (Some i0) h)"
  then obtain rc i f h' where undone: "virtq_alloc_desc env (Some q) len wr (Some i0) h =
        Some (rc, Some (q\<lparr> vq_free_descs := Some f \<rparr>), Some i, h')" "rc \<noteq> EOK"
      "free_list q \<noteq> []" "fifo_elems16 f = rotate1 (free_list q)" "fifo_inv16 f"
      "fifo_cap f = unat (vq_num q)" "live h' = live h" "\<forall>l. held l h' = held l h" "frees h' = frees h"
    using assms(4) unfolding alloc_undone_def by blast
  have "virtq_inv (q\<lparr> vq_free_descs := Some f \<rparr>)"
    using assms(1) undone by (intro virtq_inv_free) (auto simp: virtq_inv_def)
  moreover have "allocated (q\<lparr> vq_free_descs := Some f \<rparr>) = allocated q"
    using undone(4) by (simp add: allocated_def)
  moreover have "allocated q \<noteq> {i. i < vq_num q}"
    using undone(3) assms(1) by (cases "free_list q") (auto simp: virtq_inv_def allocated_def)
  ultimately show ?thesis using undone by (simp add: same_rings_def)
qed

text \<open>
  C5: allocation on every path. On a well-formed virtqueue \<open>virtq_alloc_desc\<close> returns with the
  invariant kept and every lock as it was. On success the descriptor was not in use and now is,
  its table entry holds the length, the direction flag and a link of 0, no other entry changed,
  and exactly its buffer was mapped. On failure no entry changed, the same descriptors are in use
  and nothing stays mapped. With no descriptor left the result is \<open>ENOENT\<close>.
\<close>

theorem virtq_alloc_desc_spec:
  assumes "virtq_inv q" and "locks_ok env" and "errnos_ok env" and "unmaps_ok env"
  shows "\<exists>rc q' i h'. virtq_alloc_desc env (Some q) len wr (Some i0) h = Some (rc, Some q', Some i, h') \<and>
      virtq_inv q' \<and> (\<forall>l. held l h' = held l h) \<and> frees h' = frees h \<and>
      (rc = EOK \<longrightarrow>
         i < vq_num q \<and> i \<notin> allocated q \<and> allocated q' = insert i (allocated q) \<and>
         desc_len (vq_desc q' ! unat i) = len \<and>
         desc_flags (vq_desc q' ! unat i) = (if wr then VIRTQ_DESC_F_WRITE else 0) \<and>
         desc_next (vq_desc q' ! unat i) = 0 \<and>
         (\<forall>j. j \<noteq> i \<longrightarrow> vq_desc q' ! unat j = vq_desc q ! unat j \<and> vq_extras q' ! unat j = vq_extras q ! unat j) \<and>
         live h' = add_mset (extras_vaddr (vq_extras q' ! unat i), ucast len) (live h)) \<and>
      (rc \<noteq> EOK \<longrightarrow>
         allocated q' = allocated q \<and> vq_desc q' = vq_desc q \<and> vq_extras q' = vq_extras q \<and>
         live h' = live h) \<and>
      (allocated q = {i. i < vq_num q} \<longrightarrow> rc = ENOENT)"
  using virtq_alloc_desc_run [OF assms, of len wr i0 h] by blast

section \<open>Release\<close>

text \<open>What a successful release of descriptor \<open>i\<close> stores.\<close>

definition virtq_free_post :: "virtq \<Rightarrow> fifo \<Rightarrow> u16 \<Rightarrow> virtq" where
  "virtq_free_post q f i =
     q\<lparr> vq_extras := (vq_extras q)[unat i := \<lparr> extras_vaddr = 0, extras_context = 0 \<rparr>],
        vq_desc := (vq_desc q)[unat i := \<lparr> desc_addr = 0, desc_len = 0, desc_flags = 0, desc_next = 0 \<rparr>],
        vq_free_descs := Some f \<rparr>"

lemma virtq_free_post_sel [simp]:
  "vq_self (virtq_free_post q f i) = vq_self q" "vq_num (virtq_free_post q f i) = vq_num q"
  "vq_avail_ring (virtq_free_post q f i) = vq_avail_ring q" "vq_avail_idx (virtq_free_post q f i) = vq_avail_idx q"
  "vq_used_ring (virtq_free_post q f i) = vq_used_ring q" "vq_used_idx (virtq_free_post q f i) = vq_used_idx q"
  "vq_last_seen_used (virtq_free_post q f i) = vq_last_seen_used q"
  by (simp_all add: virtq_free_post_def)

lemma virtq_free_post_other:
  "j \<noteq> i \<Longrightarrow> vq_desc (virtq_free_post q f i) ! unat j = vq_desc q ! unat j"
  "j \<noteq> i \<Longrightarrow> vq_extras (virtq_free_post q f i) ! unat j = vq_extras q ! unat j"
  by (simp_all add: virtq_free_post_def nth_list_update unat_inject)

lemma virtq_free_desc_run:
  assumes "virtq_inv q" and "locks_ok env" and "i \<in> allocated q"
    and "env_munmap env h (extras_vaddr (vq_extras q ! unat i)) (ucast (desc_len (vq_desc q ! unat i))) = 0"
  shows "\<exists>f h'. virtq_free_desc env q i h = Some (EOK, virtq_free_post q f i, h') \<and>
      virtq_inv (virtq_free_post q f i) \<and> (\<forall>l. held l h' = held l h) \<and> frees h' = frees h \<and>
      free_list (virtq_free_post q f i) = free_list q @ [i] \<and>
      allocated (virtq_free_post q f i) = allocated q - {i} \<and>
      live h' = live h - {#(extras_vaddr (vq_extras q ! unat i), ucast (desc_len (vq_desc q ! unat i)))#}"
proof -
  have i: "i < vq_num q" "i \<notin> set (free_list q)" using assms(3) by (simp_all add: allocated_def)
  note rng = virtq_inv_in_range [OF assms(1) i(1)]
  let ?a = "extras_vaddr (vq_extras q ! unat i)" and ?n = "ucast (desc_len (vq_desc q ! unat i)) :: size_t"
  obtain f where f: "vq_free_descs q = Some f" "fifo_inv16 f" "fifo_cap f = unat (vq_num q)"
      "free_list q = fifo_elems16 f"
    using assms(1) by (rule virtq_inv_fifo)
  have "distinct (i # free_list q)" and "\<forall>j \<in> set (i # free_list q). j < vq_num q"
    using assms(1) i by (simp_all add: virtq_inv_def)
  then have "length (fifo_elems16 f) < fifo_cap f"
    using distinct_words_length [of "i # free_list q" "vq_num q"] f(3,4) by simp
  then obtain f' h' where p: "fifo_put16 env f i (Munmap ?a ?n 0 # h) = Some (EOK, f', h')" "fifo_inv16 f'"
      "fifo_elems16 f' = fifo_elems16 f @ [i]" "fifo_keeps f f'" "quiet (Munmap ?a ?n 0 # h) h'"
    using fq16.put_ok [OF f(2) TrueI, of env "Munmap ?a ?n 0 # h" i] assms(2) by auto
  let ?q = "virtq_free_post q f' i"
  have run: "virtq_free_desc env q i h = Some (EOK, ?q, h')"
    using assms(4) f(1) p(1) rng by (simp add: virtq_free_desc_def virtq_free_post_def)
  have "free_list ?q = free_list q @ [i]" using p(3) f(4) by (simp add: virtq_free_post_def)
  moreover have "virtq_inv ?q"
    using assms(1) p(2,3,4) f(3,4) i by (auto simp: virtq_inv_def fifo_keeps_def virtq_free_post_def)
  moreover have "allocated ?q = allocated q - {i}"
    using p(3) f(4) by (auto simp: allocated_def virtq_free_post_def)
  moreover have "live h' = live h - {#(?a, ?n)#}" "\<forall>l. held l h' = held l h" "frees h' = frees h"
    using p(5) by (simp_all add: quiet_def)
  ultimately show ?thesis using run by blast
qed

text \<open>
  C19: releasing a descriptor in use. \<open>virtq_free_desc\<close> unmaps exactly the mapping recorded for the
  descriptor; if that succeeds the descriptor is free again, its entries are cleared, all others
  are untouched; if it fails nothing changes.
\<close>

theorem virtq_free_desc_spec:
  assumes "virtq_inv q" and "locks_ok env" and "i \<in> allocated q"
  shows "\<exists>rc q' h'. virtq_free_desc env q i h = Some (rc, q', h') \<and> virtq_inv q' \<and>
      (\<forall>l. held l h' = held l h) \<and> frees h' = frees h \<and>
      (rc = EOK \<longrightarrow> free_list q' = free_list q @ [i] \<and> allocated q' = allocated q - {i} \<and>
         live h' = live h - {#(extras_vaddr (vq_extras q ! unat i), ucast (desc_len (vq_desc q ! unat i)))#} \<and>
         (\<forall>j. j \<noteq> i \<longrightarrow> vq_desc q' ! unat j = vq_desc q ! unat j \<and> vq_extras q' ! unat j = vq_extras q ! unat j)) \<and>
      (rc \<noteq> EOK \<longrightarrow> q' = q \<and> live h' = live h)"
proof -
  have "i < vq_num q" using assms(3) by (simp add: allocated_def)
  note rng = virtq_inv_in_range [OF assms(1) this]
  show ?thesis
  proof (cases "env_munmap env h (extras_vaddr (vq_extras q ! unat i)) (ucast (desc_len (vq_desc q ! unat i))) = 0")
    case False
    then show ?thesis
      using assms(1) rng by (simp add: virtq_free_desc_def)
  next
    case True
    then obtain f h' where "virtq_free_desc env q i h = Some (EOK, virtq_free_post q f i, h')"
        "virtq_inv (virtq_free_post q f i)" "\<forall>l. held l h' = held l h" "frees h' = frees h"
        "free_list (virtq_free_post q f i) = free_list q @ [i]"
        "allocated (virtq_free_post q f i) = allocated q - {i}"
        "live h' = live h - {#(extras_vaddr (vq_extras q ! unat i), ucast (desc_len (vq_desc q ! unat i)))#}"
      using virtq_free_desc_run [OF assms] by blast
    then show ?thesis
      by (intro exI [of _ EOK] exI [of _ "virtq_free_post q f i"] exI [of _ h'])
        (simp add: virtq_free_post_other)
  qed
qed

section \<open>Chains\<close>

definition has_next :: "virtq_desc \<Rightarrow> bool" where
  "has_next d \<longleftrightarrow> desc_flags d AND VIRTQ_DESC_F_NEXT \<noteq> 0"

text \<open>A descriptor chain in the table: every entry but the last is flagged and links to the next.\<close>

fun chain :: "virtq_desc list \<Rightarrow> u16 list \<Rightarrow> bool" where
  "chain ds [] = False"
| "chain ds [i] = (unat i < length ds \<and> \<not> has_next (ds ! unat i))"
| "chain ds (i # j # is) =
     (unat i < length ds \<and> has_next (ds ! unat i) \<and> desc_next (ds ! unat i) = j \<and> chain ds (j # is))"

lemma and_1_or_1: "(x OR 1) AND 1 \<noteq> (0::u16)"
proof
  assume "(x OR 1) AND 1 = 0"
  then have "bit ((x OR 1) AND 1 :: u16) 0 = bit (0::u16) 0" by simp
  then show False by (simp add: bit_simps)
qed

lemma has_next_link [simp]:
  "has_next (d\<lparr> desc_next := j, desc_flags := fl OR VIRTQ_DESC_F_NEXT \<rparr>)"
  by (simp add: has_next_def VIRTQ_DESC_F_NEXT_def and_1_or_1)

lemma has_next_next [simp]: "has_next (d\<lparr> desc_next := j \<rparr>) = has_next d"
  by (simp add: has_next_def)

text \<open>The linking loop turns distinct descriptors in range, the last unflagged, into a chain.\<close>

lemma virtq_link_chain:
  assumes "is \<noteq> []" and "distinct is" and "\<forall>i \<in> set is. unat i < length ds"
    and "\<not> has_next (ds ! unat (last is))"
  shows "\<exists>ds'. virtq_link ds is = Some ds' \<and> length ds' = length ds \<and> chain ds' is \<and>
           (\<forall>j. j \<notin> set (butlast is) \<longrightarrow> ds' ! unat j = ds ! unat j) \<and>
           (\<forall>j::u16. desc_addr (ds' ! unat j) = desc_addr (ds ! unat j) \<and>
                desc_len (ds' ! unat j) = desc_len (ds ! unat j))"
  using assms
proof (induction ds "is" rule: virtq_link.induct)
  case (1 ds i j "is")
  let ?d = "(ds ! unat i)\<lparr> desc_next := j, desc_flags := desc_flags (ds ! unat i) OR VIRTQ_DESC_F_NEXT \<rparr>"
  let ?ds = "ds[unat i := ?d]"
  have i: "unat i < length ds" and ij: "i \<notin> set (j # is)" using "1.prems" by auto
  have same: "?ds ! unat k = ds ! unat k" if "k \<noteq> i" for k
    using that by (simp add: nth_list_update unat_inject)
  have "last (j # is) \<in> set (j # is)" by simp
  with ij have "last (j # is) \<noteq> i" by metis
  then have "\<not> has_next (?ds ! unat (last (j # is)))"
    using "1.prems"(4) same by simp
  then have "\<exists>ds'. virtq_link ?ds (j # is) = Some ds' \<and> length ds' = length ?ds \<and> chain ds' (j # is) \<and>
      (\<forall>k. k \<notin> set (butlast (j # is)) \<longrightarrow> ds' ! unat k = ?ds ! unat k) \<and>
      (\<forall>k::u16. desc_addr (ds' ! unat k) = desc_addr (?ds ! unat k) \<and>
           desc_len (ds' ! unat k) = desc_len (?ds ! unat k))"
    using "1.prems" i by (intro "1.IH" [OF arr_get_Some [OF i] arr_set_Some [OF i]]) simp_all
  then obtain ds' where ds': "virtq_link ?ds (j # is) = Some ds'" "length ds' = length ds"
      "chain ds' (j # is)" "\<forall>k. k \<notin> set (butlast (j # is)) \<longrightarrow> ds' ! unat k = ?ds ! unat k"
      "\<forall>k::u16. desc_addr (ds' ! unat k) = desc_addr (?ds ! unat k) \<and>
           desc_len (ds' ! unat k) = desc_len (?ds ! unat k)"
    unfolding length_list_update by blast
  have "i \<notin> set (butlast (j # is))" using ij by (meson in_set_butlastD)
  then have "ds' ! unat i = ?d" using ds'(4) i by simp
  then have "chain ds' (i # j # is)" using ds'(2,3) i by simp
  moreover have "desc_addr (?ds ! unat k) = desc_addr (ds ! unat k) \<and>
      desc_len (?ds ! unat k) = desc_len (ds ! unat k)" for k :: u16
    using i by (cases "k = i") (simp_all add: same)
  ultimately show ?case using ds' i same by auto
qed auto

text \<open>
  Following a chain from its head writes its indices to the buffer and stops at the last one,
  when the buffer has room for all of them.
\<close>

lemma virtq_walk_chain:
  assumes "chain ds is" and "unat n + length is \<le> unat cnt" and "unat cnt < 65536"
    and "unat cnt \<le> length buf"
  shows "virtq_walk ds cnt n (hd is) buf =
           Some (n + of_nat (length is - 1), take (unat n) buf @ is @ drop (unat n + length is) buf)"
  using assms
proof (induction ds "is" arbitrary: n buf rule: chain.induct)
  case (2 ds i)
  then have "ucast n < cnt" and n: "unat n < length buf" by (auto simp: word_less_nat_alt)
  with 2 show ?case
    by (subst virtq_walk.simps) (simp add: has_next_def upd_conv_take_nth_drop)
next
  case (3 ds i j "is")
  have lt: "ucast n < cnt" and n: "unat n < length buf"
    using "3.prems" by (auto simp: word_less_nat_alt)
  have n1: "unat (n + 1) = Suc (unat n)"
    using "3.prems"(2,3) by (simp add: unat_word_ariths)
  have "virtq_walk ds cnt n i buf = virtq_walk ds cnt (n + 1) j (buf[unat n := i])"
    using lt n "3.prems"(1) by (subst virtq_walk.simps) (simp add: has_next_def)
  also have "\<dots> = Some (n + 1 + of_nat (length (j # is) - 1),
      take (unat (n + 1)) (buf[unat n := i]) @ (j # is) @ drop (unat (n + 1) + length (j # is)) (buf[unat n := i]))"
    using "3.IH" [of "n + 1" "buf[unat n := i]"] "3.prems" n1 by simp
  also have "take (unat (n + 1)) (buf[unat n := i]) = take (unat n) buf @ [i]"
    using n n1 by (simp add: take_Suc_conv_app_nth)
  finally show ?case using n1 by simp
qed simp

text \<open>With too few entries the loop stops at the bound.\<close>

lemma virtq_walk_long:
  assumes "chain ds is" and "unat n \<le> unat cnt" and "unat cnt < unat n + length is"
    and "unat cnt < 65536" and "unat cnt \<le> length buf"
  shows "\<exists>buf'. virtq_walk ds cnt n (hd is) buf = Some (ucast cnt, buf')"
  using assms
proof (induction ds "is" arbitrary: n buf rule: chain.induct)
  case (2 ds i)
  then have "unat n = unat cnt" by simp
  then have "\<not> ucast n < cnt" and "n = ucast cnt"
    using "2.prems"(4) by (auto simp: word_less_nat_alt word_unat_eq_iff unsigned_ucast_eq take_bit_nat_eq_self)
  then show ?case by (subst virtq_walk.simps) simp
next
  case (3 ds i j "is")
  show ?case
  proof (cases "unat n = unat cnt")
    case True
    then have "\<not> ucast n < cnt" and "n = ucast cnt"
      using "3.prems"(4) by (auto simp: word_less_nat_alt word_unat_eq_iff unsigned_ucast_eq take_bit_nat_eq_self)
    then show ?thesis by (subst virtq_walk.simps) simp
  next
    case False
    then have lt: "ucast n < cnt" and n: "unat n < length buf" and le: "unat n < unat cnt"
      using "3.prems" by (auto simp: word_less_nat_alt)
    have n1: "unat (n + 1) = Suc (unat n)"
      using le "3.prems"(4) by (simp add: unat_word_ariths)
    have "virtq_walk ds cnt n i buf = virtq_walk ds cnt (n + 1) j (buf[unat n := i])"
      using lt n "3.prems"(1) by (subst virtq_walk.simps) (simp add: has_next_def)
    then show ?thesis
      using "3.IH" [of "n + 1" "buf[unat n := i]"] "3.prems" n1 le by simp
  qed
qed simp

lemma chain_set_last:
  assumes "chain ds is" and "distinct is"
  shows "chain (ds[unat (last is) := (ds ! unat (last is))\<lparr> desc_next := x \<rparr>]) is"
  using assms
proof (induction ds "is" rule: chain.induct)
  case (3 ds i j "is")
  have "last (j # is) \<in> set (j # is)" by simp
  then have "last (j # is) \<noteq> i" using "3.prems"(2) by (metis distinct.simps(2))
  then have "unat (last (j # is)) \<noteq> unat i" by (simp add: unat_inject)
  then show ?case using 3 by simp
qed auto

text \<open>What submitting the chain \<open>is\<close> leaves behind, up to the descriptor table.\<close>

definition virtq_put_post :: "virtq \<Rightarrow> virtq_desc list \<Rightarrow> u16 \<Rightarrow> virtq" where
  "virtq_put_post q ds head =
     q\<lparr> vq_desc := ds,
        vq_avail_ring := (vq_avail_ring q)[unat (vq_avail_idx q) mod unat (vq_num q) := head],
        vq_avail_idx := vq_avail_idx q + 1 \<rparr>"

lemma virtq_put_chain_link:
  assumes "is \<noteq> []" and "distinct is" and "\<forall>i \<in> set is. unat i < length ds"
    and "\<not> has_next (ds ! unat (last is))"
  shows "\<exists>ds1 ds2. virtq_link ds is = Some ds1 \<and> arr_get ds1 (unat (last is)) = Some (ds1 ! unat (last is)) \<and>
           arr_set ds1 (unat (last is)) ((ds1 ! unat (last is))\<lparr> desc_next := 0 \<rparr>) = Some ds2 \<and>
           length ds2 = length ds \<and> chain ds2 is \<and>
           (\<forall>j. j \<notin> set is \<longrightarrow> ds2 ! unat j = ds ! unat j) \<and>
           (\<forall>j::u16. desc_addr (ds2 ! unat j) = desc_addr (ds ! unat j) \<and>
                     desc_len (ds2 ! unat j) = desc_len (ds ! unat j))"
proof -
  obtain ds1 where ds1: "virtq_link ds is = Some ds1" "length ds1 = length ds" "chain ds1 is"
      "\<forall>j. j \<notin> set (butlast is) \<longrightarrow> ds1 ! unat j = ds ! unat j"
      "\<forall>j::u16. desc_addr (ds1 ! unat j) = desc_addr (ds ! unat j) \<and>
                desc_len (ds1 ! unat j) = desc_len (ds ! unat j)"
    using virtq_link_chain [OF assms] by blast
  let ?l = "last is"
  let ?ds2 = "ds1[unat ?l := (ds1 ! unat ?l)\<lparr> desc_next := 0 \<rparr>]"
  have l: "unat ?l < length ds1" using assms(1,3) ds1(2) by simp
  have "?ds2 ! unat j = ds ! unat j" if "j \<notin> set is" for j
  proof -
    have "unat ?l \<noteq> unat j" and "j \<notin> set (butlast is)"
      using that assms(1) by (auto simp: unat_inject dest: in_set_butlastD)
    then show ?thesis using ds1(4) by simp
  qed
  moreover have "desc_addr (?ds2 ! unat j) = desc_addr (ds ! unat j) \<and>
      desc_len (?ds2 ! unat j) = desc_len (ds ! unat j)" for j :: u16
    using ds1(5) l by (cases "unat j = unat ?l") auto
  moreover have "chain ?ds2 is" by (rule chain_set_last [OF ds1(3) assms(2)])
  ultimately show ?thesis using ds1(1,2) l by auto
qed

text \<open>
  What a submission does to the outside: under the lock, the ring entry is stored, then the
  fence, then the index.
\<close>

definition publish :: "virtq \<Rightarrow> u16 \<Rightarrow> rc \<Rightarrow> hist \<Rightarrow> hist" where
  "publish q head rc h =
     SpinUnlock (VirtqLock (vq_self q)) rc # AvailIdx (vq_self q) (vq_avail_idx q + 1) # Fence #
     AvailRing (vq_self q) (vq_avail_idx q mod vq_num q) head # SpinLock (VirtqLock (vq_self q)) EOK # h"

lemma quiet_publish [simp]: "quiet h (publish q head rc h)"
  by (simp add: quiet_def publish_def)

lemma virtq_put_desc_chain_run:
  assumes "virtq_inv q" and "unat cnt \<le> length idx" and "cnt \<noteq> 0"
    and "distinct (take (unat cnt) idx)" and "\<forall>i \<in> set (take (unat cnt) idx). i < vq_num q"
    and "\<not> has_next (vq_desc q ! unat (idx ! (unat cnt - 1)))"
  shows "\<exists>rc ds h'. chain ds (take (unat cnt) idx) \<and> length ds = length (vq_desc q) \<and>
      (\<forall>j. j \<notin> set (take (unat cnt) idx) \<longrightarrow> ds ! unat j = vq_desc q ! unat j) \<and>
      (\<forall>j::u16. desc_addr (ds ! unat j) = desc_addr (vq_desc q ! unat j) \<and>
                desc_len (ds ! unat j) = desc_len (vq_desc q ! unat j)) \<and> quiet h h' \<and>
      virtq_put_desc_chain env q cnt idx h =
        Some (rc, if env_spin_lock env h (VirtqLock (vq_self q)) = EOK
                  then virtq_put_post q ds (idx ! 0) else q\<lparr> vq_desc := ds \<rparr>, h') \<and>
      (env_spin_lock env h (VirtqLock (vq_self q)) = EOK \<longrightarrow> h' = publish q (idx ! 0) rc h)"
proof -
  let ?is = "take (unat cnt) idx"
  have cnt: "0 < unat cnt" using assms(3) by (simp add: unat_gt_0)
  then have ne: "?is \<noteq> []" using assms(2) by auto
  have last: "last ?is = idx ! (unat cnt - 1)"
    using assms(2) cnt ne by (simp add: last_conv_nth)
  obtain ds1 ds2 where ds: "virtq_link (vq_desc q) ?is = Some ds1"
      "arr_get ds1 (unat (last ?is)) = Some (ds1 ! unat (last ?is))"
      "arr_set ds1 (unat (last ?is)) ((ds1 ! unat (last ?is))\<lparr> desc_next := 0 \<rparr>) = Some ds2"
      "length ds2 = length (vq_desc q)" "chain ds2 ?is"
      "\<forall>j. j \<notin> set ?is \<longrightarrow> ds2 ! unat j = vq_desc q ! unat j"
      "\<forall>j::u16. desc_addr (ds2 ! unat j) = desc_addr (vq_desc q ! unat j) \<and>
                desc_len (ds2 ! unat j) = desc_len (vq_desc q ! unat j)"
    using virtq_put_chain_link [OF ne assms(4), of "vq_desc q"] assms(1,5,6) last
    by (auto simp: virtq_inv_def word_less_nat_alt)
  have num: "vq_num q \<noteq> 0" and ring: "unat (vq_avail_idx q) mod unat (vq_num q) < length (vq_avail_ring q)"
    using assms(1) by (simp_all add: virtq_inv_def unat_gt_0)
  show ?thesis
  proof (cases "env_spin_lock env h (VirtqLock (vq_self q)) = EOK")
    case True
    have "\<exists>rc. virtq_put_desc_chain env q cnt idx h =
        Some (rc, virtq_put_post q ds2 (idx ! 0),
              publish q (idx ! 0) rc h)"
      using assms(2,3) ds(1,2,3) last True num ring
      by (simp add: virtq_put_desc_chain_def virtq_put_post_def publish_def Let_def)
    then show ?thesis using ds(4-7) True quiet_publish by fastforce
  next
    case False
    then have "virtq_put_desc_chain env q cnt idx h =
        Some (env_spin_lock env h (VirtqLock (vq_self q)), q\<lparr> vq_desc := ds2 \<rparr>,
              SpinLock (VirtqLock (vq_self q)) (env_spin_lock env h (VirtqLock (vq_self q))) # h)"
      using assms(2,3) ds(1,2,3) last
      by (simp add: virtq_put_desc_chain_def Let_def)
    then show ?thesis using ds(4-7) False quiet_lock_error by auto
  qed
qed

text \<open>
  C13: submitting a chain. Given distinct descriptors in range of which the last is not yet
  linked, \<open>virtq_put_desc_chain\<close> links them into a chain in the order of the array, keeps every
  buffer address and length and every other descriptor, writes the head to the available ring
  slot of the current index and advances the index by one (mod 2^16). The device sees the ring
  entry, then a fence, then the index. If the lock fails, the ring and the index are untouched.
\<close>

theorem virtq_put_desc_chain_spec:
  assumes "virtq_inv q" and "unat cnt \<le> length idx" and "cnt \<noteq> 0"
    and "distinct (take (unat cnt) idx)" and "\<forall>i \<in> set (take (unat cnt) idx). i < vq_num q"
    and "\<not> has_next (vq_desc q ! unat (idx ! (unat cnt - 1)))"
  shows "\<exists>rc ds h'. chain ds (take (unat cnt) idx) \<and> length ds = length (vq_desc q) \<and>
      (\<forall>j. j \<notin> set (take (unat cnt) idx) \<longrightarrow> ds ! unat j = vq_desc q ! unat j) \<and>
      (\<forall>j::u16. desc_addr (ds ! unat j) = desc_addr (vq_desc q ! unat j) \<and>
                desc_len (ds ! unat j) = desc_len (vq_desc q ! unat j)) \<and> quiet h h' \<and>
      virtq_put_desc_chain env q cnt idx h =
        Some (rc, if env_spin_lock env h (VirtqLock (vq_self q)) = EOK
                  then virtq_put_post q ds (idx ! 0) else q\<lparr> vq_desc := ds \<rparr>, h') \<and>
      (env_spin_lock env h (VirtqLock (vq_self q)) = EOK \<longrightarrow> h' = publish q (idx ! 0) rc h)"
  by (rule virtq_put_desc_chain_run [OF assms])

lemma virtq_put_post_inv:
  "virtq_inv q \<Longrightarrow> length ds = length (vq_desc q) \<Longrightarrow> virtq_inv (virtq_put_post q ds i)"
  by (simp add: virtq_inv_def virtq_put_post_def split: option.splits)

lemma virtq_get_desc_chain_run:
  assumes "virtq_inv q" and "env_spin_lock env h (VirtqLock (vq_self q)) = EOK"
    and "unat cnt < 65536" and "unat cnt \<le> length buf"
    and "vq_used_idx q \<noteq> vq_last_seen_used q \<Longrightarrow>
         chain (vq_desc q) is \<and>
         hd is = ucast (used_elem_id (vq_used_ring q ! (unat (vq_last_seen_used q) mod unat (vq_num q))))"
  shows "\<exists>h'. quiet h h' \<and>
      (vq_used_idx q = vq_last_seen_used q \<longrightarrow>
         virtq_get_desc_chain env (Some q) (Some cnt) (Some buf) h =
           Some (ENOENT, Some q, Some cnt, Some buf, h')) \<and>
      (vq_used_idx q \<noteq> vq_last_seen_used q \<and> length is \<le> unat cnt \<longrightarrow>
         virtq_get_desc_chain env (Some q) (Some cnt) (Some buf) h =
           Some (EOK, Some (q\<lparr> vq_last_seen_used := vq_last_seen_used q + 1 \<rparr>),
                 Some (of_nat (length is)), Some (is @ drop (length is) buf), h')) \<and>
      (vq_used_idx q \<noteq> vq_last_seen_used q \<and> unat cnt < length is \<longrightarrow>
         (\<exists>buf'. virtq_get_desc_chain env (Some q) (Some cnt) (Some buf) h =
           Some (ENOMEM, Some q, Some cnt, Some buf', h')))"
proof -
  let ?l = "VirtqLock (vq_self q)"
  let ?h = "SpinUnlock ?l (env_spin_unlock env (SpinLock ?l EOK # h) ?l) # SpinLock ?l EOK # h"
  let ?u = "vq_used_ring q ! (unat (vq_last_seen_used q) mod unat (vq_num q))"
  have num: "vq_num q \<noteq> 0" and ring: "unat (vq_last_seen_used q) mod unat (vq_num q) < length (vq_used_ring q)"
    using assms(1) by (simp_all add: virtq_inv_def unat_gt_0)
  have none: "virtq_get_desc_chain env (Some q) (Some cnt) (Some buf) h = Some (ENOENT, Some q, Some cnt, Some buf, ?h)"
    if "vq_used_idx q = vq_last_seen_used q"
    using that assms(2) by (simp add: virtq_get_desc_chain_def)
  have all: "virtq_get_desc_chain env (Some q) (Some cnt) (Some buf) h =
      Some (EOK, Some (q\<lparr> vq_last_seen_used := vq_last_seen_used q + 1 \<rparr>),
            Some (of_nat (length is)), Some (is @ drop (length is) buf), ?h)"
    if "vq_used_idx q \<noteq> vq_last_seen_used q" and le: "length is \<le> unat cnt"
  proof -
    have ch: "chain (vq_desc q) is" and hd: "hd is = ucast (used_elem_id ?u)"
      using assms(5) [OF that(1)] by simp_all
    from ch have pos: "0 < length is" by (cases "is") simp_all
    have walk: "virtq_walk (vq_desc q) cnt 0 (ucast (used_elem_id ?u)) buf =
        Some (of_nat (length is - 1), is @ drop (length is) buf)"
      using virtq_walk_chain [OF ch, of 0 cnt buf] assms(3,4) le hd by simp
    have n: "unat (of_nat (length is - 1) :: u16) = length is - 1"
      using le assms(3) by (simp add: unat_of_nat)
    have "unat (ucast (of_nat (length is - 1) :: u16) :: size_t) < unat cnt"
      using le pos by (simp only: unat_ucast_16_64 n)
    then have "ucast (of_nat (length is - 1) :: u16) \<noteq> cnt" by blast
    moreover have "ucast (of_nat (length is - 1) :: u16) + 1 = (of_nat (length is) :: size_t)"
    proof -
      have "ucast (of_nat (length is - 1) :: u16) = (of_nat (length is - 1) :: size_t)"
        using n le assms(3) by (simp add: word_unat_eq_iff unat_of_nat)
      moreover have "(of_nat (length is) :: size_t) = of_nat (length is - 1) + 1"
        using pos by (cases "length is") simp_all
      ultimately show ?thesis by (simp only:)
    qed
    ultimately show ?thesis
      using that(1) assms(2) num ring walk by (simp add: virtq_get_desc_chain_def)
  qed
  have short: "\<exists>buf'. virtq_get_desc_chain env (Some q) (Some cnt) (Some buf) h =
      Some (ENOMEM, Some q, Some cnt, Some buf', ?h)"
    if "vq_used_idx q \<noteq> vq_last_seen_used q" and lt: "unat cnt < length is"
  proof -
    have ch: "chain (vq_desc q) is" and hd: "hd is = ucast (used_elem_id ?u)"
      using assms(5) [OF that(1)] by simp_all
    obtain buf' where "virtq_walk (vq_desc q) cnt 0 (ucast (used_elem_id ?u)) buf = Some (ucast cnt, buf')"
      using virtq_walk_long [OF ch, of 0 cnt buf] assms(3,4) lt hd by auto
    moreover have "ucast (ucast cnt :: u16) = cnt"
      using assms(3) by (rule ucast_64_16_64)
    ultimately show ?thesis
      using that(1) assms(2) num ring by (simp add: virtq_get_desc_chain_def)
  qed
  show ?thesis using none all short quiet_locked by blast
qed

text \<open>
  Collecting a used chain, on every path. With the device's index equal to the last seen one
  the answer is \<open>ENOENT\<close>. Otherwise, when the used element names the head of a chain, the whole
  chain is copied to the caller's buffer, in order, with its length, and one element is consumed;
  a buffer too small for it gives \<open>ENOMEM\<close> and the element stays. Every lock is left as found.
\<close>

theorem virtq_get_desc_chain_spec:
  assumes "virtq_inv q" and "env_spin_lock env h (VirtqLock (vq_self q)) = EOK"
    and "unat cnt < 65536" and "unat cnt \<le> length buf"
    and "vq_used_idx q \<noteq> vq_last_seen_used q \<Longrightarrow>
         chain (vq_desc q) is \<and>
         hd is = ucast (used_elem_id (vq_used_ring q ! (unat (vq_last_seen_used q) mod unat (vq_num q))))"
  shows "\<exists>h'. quiet h h' \<and>
      (vq_used_idx q = vq_last_seen_used q \<longrightarrow>
         virtq_get_desc_chain env (Some q) (Some cnt) (Some buf) h =
           Some (ENOENT, Some q, Some cnt, Some buf, h')) \<and>
      (vq_used_idx q \<noteq> vq_last_seen_used q \<and> length is \<le> unat cnt \<longrightarrow>
         virtq_get_desc_chain env (Some q) (Some cnt) (Some buf) h =
           Some (EOK, Some (q\<lparr> vq_last_seen_used := vq_last_seen_used q + 1 \<rparr>),
                 Some (of_nat (length is)), Some (is @ drop (length is) buf), h')) \<and>
      (vq_used_idx q \<noteq> vq_last_seen_used q \<and> unat cnt < length is \<longrightarrow>
         (\<exists>buf'. virtq_get_desc_chain env (Some q) (Some cnt) (Some buf) h =
           Some (ENOMEM, Some q, Some cnt, Some buf', h')))"
  by (rule virtq_get_desc_chain_run [OF assms])

section \<open>Submit and collect\<close>


section \<open>The rings as queues\<close>

text \<open>
  Both rings are indexed by free-running 16-bit counters. When the size divides 2^16 (every
  power of two does) the counters' wrap-around is invisible.
\<close>

lemma ring_index:
  assumes "n dvd 65536"
  shows "unat (b + of_nat k :: u16) mod n = (unat b + k) mod n"
proof -
  have "unat (b + of_nat k :: u16) mod n = ((unat b + k) mod 65536) mod n"
    by (simp add: unat_word_ariths unat_of_nat mod_simps)
  then show ?thesis using assms by (simp add: mod_mod_cancel)
qed

text \<open>The heads submitted since the available index was \<open>b\<close>, oldest first.\<close>

definition avail_since :: "virtq \<Rightarrow> u16 \<Rightarrow> u16 list" where
  "avail_since q b =
     map (\<lambda>k. vq_avail_ring q ! ((unat b + k) mod unat (vq_num q))) [0..<unat (vq_avail_idx q - b)]"

text \<open>The heads the device has returned and the driver has not yet collected.\<close>

definition used_pending :: "virtq \<Rightarrow> u16 list" where
  "used_pending q =
     map (\<lambda>k. ucast (used_elem_id (vq_used_ring q ! ((unat (vq_last_seen_used q) + k) mod unat (vq_num q)))))
       [0..<unat (vq_used_idx q - vq_last_seen_used q)]"

lemma avail_since_put_post:
  assumes "virtq_inv q" and "unat (vq_num q) dvd 65536" and "unat (vq_avail_idx q - b) < unat (vq_num q)"
  shows "avail_since (virtq_put_post q ds i) b = avail_since q b @ [i]"
proof -
  let ?n = "unat (vq_num q)" and ?k = "unat (vq_avail_idx q - b)"
  have idx: "vq_avail_idx q = b + of_nat ?k" by simp
  have slot: "unat (vq_avail_idx q) mod ?n = (unat b + ?k) mod ?n"
    by (subst idx) (rule ring_index [OF assms(2)])
  have "unat (vq_avail_idx q + 1 - b) = Suc ?k"
  proof -
    have "unat (vq_avail_idx q - b + 1) = Suc ?k"
      using assms(3) by (rule unat_inc_eq)
    then show ?thesis by (simp add: algebra_simps)
  qed
  moreover have "(unat b + ?k) mod ?n \<noteq> (unat b + k) mod ?n" if "k < ?k" for k
    using ring_slot_inj [of k ?n ?k "unat b"] that assms(3) by auto
  moreover have "(unat b + ?k) mod ?n < length (vq_avail_ring q)"
    using assms(1) by (simp add: virtq_inv_def unat_gt_0)
  ultimately show ?thesis
    by (simp add: avail_since_def virtq_put_post_def slot)
qed

text \<open>
  C20: the available ring is a queue of heads. With a size that divides 2^16 and fewer than
  \<open>num\<close> heads submitted since index \<open>b\<close>, a submission whose lock call succeeds appends its head
  to them and overwrites none, also when the 16-bit index wraps round, and neither takes nor
  gives back a descriptor.
\<close>

theorem virtq_put_appends_avail:
  assumes "virtq_inv q" and "unat cnt \<le> length idx" and "cnt \<noteq> 0"
    and "distinct (take (unat cnt) idx)" and "\<forall>i \<in> set (take (unat cnt) idx). i < vq_num q"
    and "\<not> has_next (vq_desc q ! unat (idx ! (unat cnt - 1)))"
    and "env_spin_lock env h (VirtqLock (vq_self q)) = EOK"
    and "unat (vq_num q) dvd 65536" and "unat (vq_avail_idx q - b) < unat (vq_num q)"
  shows "\<exists>rc q' h'. virtq_put_desc_chain env q cnt idx h = Some (rc, q', h') \<and> virtq_inv q' \<and>
           avail_since q' b = avail_since q b @ [idx ! 0] \<and> allocated q' = allocated q"
proof -
  obtain rc ds h' where "length ds = length (vq_desc q)"
      "virtq_put_desc_chain env q cnt idx h = Some (rc, virtq_put_post q ds (idx ! 0), h')"
    using virtq_put_desc_chain_run [OF assms(1-6), where env = env and h = h] assms(7) by auto
  then show ?thesis
    using avail_since_put_post [OF assms(1,8,9)] virtq_put_post_inv [OF assms(1)]
    by (auto simp: allocated_def virtq_put_post_def free_list_def)
qed

lemma used_pending_head:
  assumes "used_pending q = i # rest"
  shows "vq_used_idx q \<noteq> vq_last_seen_used q"
    and "i = ucast (used_elem_id (vq_used_ring q ! (unat (vq_last_seen_used q) mod unat (vq_num q))))"
proof -
  have pos: "0 < unat (vq_used_idx q - vq_last_seen_used q)"
    using assms by (cases "unat (vq_used_idx q - vq_last_seen_used q)") (simp_all add: used_pending_def)
  then show "vq_used_idx q \<noteq> vq_last_seen_used q" by auto
  have "hd (used_pending q) = ucast (used_elem_id (vq_used_ring q ! (unat (vq_last_seen_used q) mod unat (vq_num q))))"
    using pos by (simp add: used_pending_def hd_map)
  then show "i = ucast (used_elem_id (vq_used_ring q ! (unat (vq_last_seen_used q) mod unat (vq_num q))))"
    using assms by simp
qed

text \<open>Moving the start of a window of a ring by one drops the oldest entry of the window.\<close>

lemma ring_window_tl:
  assumes "n dvd 65536" and "(u::u16) \<noteq> l"
  shows "map (\<lambda>k. g ((unat (l + 1) + k) mod n)) [0..<unat (u - (l + 1))] =
         tl (map (\<lambda>k. g ((unat l + k) mod n)) [0..<unat (u - l)])"
proof -
  have pos: "0 < unat (u - l)" using assms(2) by (simp add: unat_gt_0)
  have "unat (u - (l + 1)) = unat (u - l) - 1"
    using unat_dec [of "u - l"] pos by (simp add: algebra_simps unat_gt_0)
  moreover have "(unat (l + 1) + k) mod n = (unat l + Suc k) mod n" for k
  proof -
    have "(unat (l + 1) + k) mod n = (unat (l + 1) mod n + k) mod n"
      by (simp add: mod_simps)
    also have "unat (l + 1) mod n = (unat l + 1) mod n"
      using ring_index [OF assms(1), of l 1] by simp
    finally show ?thesis by (simp add: mod_simps)
  qed
  ultimately have "map (\<lambda>k. g ((unat (l + 1) + k) mod n)) [0..<unat (u - (l + 1))] =
      map (\<lambda>k. g ((unat l + Suc k) mod n)) [0..<unat (u - l) - 1]"
    by simp
  also have "\<dots> = map (\<lambda>k. g ((unat l + k) mod n)) (map Suc [0..<unat (u - l) - 1])"
    by simp
  also have "map Suc [0..<unat (u - l) - 1] = tl [0..<unat (u - l)]"
    using pos by (simp add: map_Suc_upt tl_upt)
  finally show ?thesis by (simp add: map_tl del: tl_upt)
qed

lemma used_pending_consume:
  assumes "unat (vq_num q) dvd 65536" and "used_pending q = i # rest"
  shows "used_pending (q\<lparr> vq_last_seen_used := vq_last_seen_used q + 1 \<rparr>) = rest"
proof -
  have "used_pending (q\<lparr> vq_last_seen_used := vq_last_seen_used q + 1 \<rparr>) = tl (used_pending q)"
    using ring_window_tl [OF assms(1) used_pending_head(1) [OF assms(2)],
        of "\<lambda>k. ucast (used_elem_id (vq_used_ring q ! k))"]
    by (simp add: used_pending_def)
  then show ?thesis using assms(2) by simp
qed

lemma virtq_inv_last_seen [simp]: "virtq_inv (q\<lparr> vq_last_seen_used := x \<rparr>) = virtq_inv q"
  by (simp add: virtq_inv_def split: option.splits)

lemma virtq_get_oldest_run:
  assumes "virtq_inv q" and "env_spin_lock env h (VirtqLock (vq_self q)) = EOK"
    and "used_pending q = i # rest" and "chain (vq_desc q) is" and "hd is = i"
    and "length is \<le> unat cnt" and "unat cnt < 65536" and "unat cnt \<le> length buf"
  shows "\<exists>h'. virtq_get_desc_chain env (Some q) (Some cnt) (Some buf) h =
           Some (EOK, Some (q\<lparr> vq_last_seen_used := vq_last_seen_used q + 1 \<rparr>),
                 Some (of_nat (length is)), Some (is @ drop (length is) buf), h') \<and> quiet h h'"
  using virtq_get_desc_chain_run [OF assms(1,2,7,8), of "is"] assms(4-6) used_pending_head [OF assms(3)] by auto

text \<open>
  C21: the used ring is a queue. With a size that divides 2^16, a call that finds an element and
  a chain at its head consumes the oldest pending element and no other: the pending heads
  afterwards are the old ones without the first.
\<close>

theorem virtq_get_consumes_oldest:
  assumes "virtq_inv q" and "unat (vq_num q) dvd 65536" and "env_spin_lock env h (VirtqLock (vq_self q)) = EOK"
    and "used_pending q = i # rest" and "chain (vq_desc q) is" and "hd is = i"
    and "length is \<le> unat cnt" and "unat cnt < 65536" and "unat cnt \<le> length buf"
  shows "\<exists>q' h'. virtq_get_desc_chain env (Some q) (Some cnt) (Some buf) h =
           Some (EOK, Some q', Some (of_nat (length is)), Some (is @ drop (length is) buf), h') \<and>
           used_pending q' = rest \<and> virtq_inv q'"
  using virtq_get_oldest_run [OF assms(1,3-9)] used_pending_consume [OF assms(2,4)] assms(1)
  by (metis virtq_inv_last_seen)

section \<open>Used elements the device made up\<close>

text \<open>
  The loop ends for every table whose links stay inside it, also for a cyclic one: the caller's
  bound stops it, provided the bound fits the 16-bit counter.
\<close>

lemma virtq_walk_total:
  assumes "\<forall>d \<in> set ds. unat (desc_next d) < length ds" and "unat i < length ds"
    and "unat cnt < 65536" and "unat cnt \<le> length buf" and "unat n \<le> unat cnt"
  shows "\<exists>n' buf'. virtq_walk ds cnt n i buf = Some (n', buf') \<and> unat n' \<le> unat cnt \<and> length buf' = length buf"
  using assms(2,4,5)
proof (induction "unat cnt - unat n" arbitrary: n i buf rule: less_induct)
  case less
  show ?case
  proof (cases "unat n = unat cnt")
    case True
    then have "\<not> ucast n < cnt" by (simp add: word_less_nat_alt)
    then show ?thesis using less.prems by (subst virtq_walk.simps) simp
  next
    case False
    then have lt: "ucast n < cnt" and n: "unat n < length buf" and le: "unat n < unat cnt"
      using less.prems by (auto simp: word_less_nat_alt)
    have n1: "unat (n + 1) = Suc (unat n)"
      using le assms(3) by (simp add: unat_word_ariths)
    show ?thesis
    proof (cases "has_next (ds ! unat i)")
      case True
      then have "virtq_walk ds cnt n i buf = virtq_walk ds cnt (n + 1) (desc_next (ds ! unat i)) (buf[unat n := i])"
        using lt n less.prems(1) by (subst virtq_walk.simps) (simp add: has_next_def)
      then show ?thesis
        using less.hyps [of "n + 1" "desc_next (ds ! unat i)" "buf[unat n := i]"] less.prems le n1 assms(1)
        by simp
    next
      case False
      then have "virtq_walk ds cnt n i buf = Some (n, buf[unat n := i])"
        using lt n less.prems(1) by (subst virtq_walk.simps) (simp add: has_next_def)
      then show ?thesis using le by simp
    qed
  qed
qed


text \<open>
  The index the device returns is not checked. If the next used element names a descriptor
  outside the queue, \<open>virtq_get_desc_chain\<close> reads outside the descriptor table (no outcome).
\<close>

theorem virtq_get_desc_chain_unchecked_id:
  assumes "virtq_inv q" and "env_spin_lock env h (VirtqLock (vq_self q)) = EOK"
    and "vq_used_idx q \<noteq> vq_last_seen_used q" and "cnt \<noteq> 0" and "buf \<noteq> []"
    and "vq_num q \<le> ucast (used_elem_id (vq_used_ring q ! (unat (vq_last_seen_used q) mod unat (vq_num q))))"
  shows "virtq_get_desc_chain env (Some q) (Some cnt) (Some buf) h = None"
proof -
  let ?u = "vq_used_ring q ! (unat (vq_last_seen_used q) mod unat (vq_num q))"
  have num: "vq_num q \<noteq> 0" and ring: "unat (vq_last_seen_used q) mod unat (vq_num q) < length (vq_used_ring q)"
    and len: "length (vq_desc q) = unat (vq_num q)"
    using assms(1) by (simp_all add: virtq_inv_def unat_gt_0)
  have "(0::size_t) < cnt" using assms(4) by (simp add: word_neq_0_conv)
  moreover have "arr_get (vq_desc q) (unat (ucast (used_elem_id ?u) :: u16)) = None"
    using assms(6) len by (simp add: arr_get_def word_le_nat_alt)
  ultimately have "virtq_walk (vq_desc q) cnt 0 (ucast (used_elem_id ?u)) buf = None"
    using assms(5) by (subst virtq_walk.simps) simp
  then show ?thesis
    using assms(2,3) num ring by (simp add: virtq_get_desc_chain_def)
qed

section \<open>A queue to instantiate the properties\<close>

text \<open>
  Four descriptors; 2 and 3 are free, 0 and 1 in use. In the second queue 0 and 1 form a chain
  that the device has returned.
\<close>

definition virtq_example :: virtq where
  "virtq_example = \<lparr> vq_self = 8192, vq_num = 4, vq_legacy = False, vq_desc_ptr = 0x10000,
     vq_desc = replicate 4 \<lparr> desc_addr = 0x40000, desc_len = 64, desc_flags = 0, desc_next = 0 \<rparr>,
     vq_desc_paddr = 0x50000, vq_avail_ptr = 0x11000, vq_avail_flags = 0, vq_avail_idx = 65535,
     vq_avail_ring = [0, 0, 0, 0], vq_avail_paddr = 0x51000, vq_used_ptr = 0x12000, vq_used_idx = 0,
     vq_used_ring = replicate 4 \<lparr> used_elem_id = 0, used_elem_len = 0 \<rparr>, vq_used_paddr = 0x52000,
     vq_last_seen_used = 0,
     vq_free_descs = Some \<lparr> fifo_self = 4096, fifo_head = 2, fifo_tail = 0, fifo_count = 2,
       fifo_capacity = 4, fifo_elem_size = 2, fifo_data = [0, 0, 1, 0, 2, 0, 3, 0] \<rparr>,
     vq_extras_ptr = 0x13000,
     vq_extras = replicate 4 \<lparr> extras_vaddr = 0x20000, extras_context = 0 \<rparr> \<rparr>"

definition virtq_example_used :: virtq where
  "virtq_example_used = virtq_example\<lparr>
     vq_desc := [\<lparr> desc_addr = 0x40000, desc_len = 64, desc_flags = 1, desc_next = 1 \<rparr>,
                 \<lparr> desc_addr = 0x40000, desc_len = 64, desc_flags = 2, desc_next = 0 \<rparr>,
                 \<lparr> desc_addr = 0, desc_len = 0, desc_flags = 0, desc_next = 0 \<rparr>,
                 \<lparr> desc_addr = 0, desc_len = 0, desc_flags = 0, desc_next = 0 \<rparr>],
     vq_used_idx := 1 \<rparr>"

lemma free_list_example: "free_list virtq_example = [2, 3]"
  by code_simp

lemma virtq_inv_example [simp]: "virtq_inv virtq_example"
  using free_list_example
  by (simp add: virtq_inv_def virtq_example_def fifo_inv16_def fifo_inv_def fifo_cap_def fifo_width_def)

lemma virtq_inv_example_used [simp]: "virtq_inv virtq_example_used"
  using free_list_example
  by (simp add: virtq_inv_def virtq_example_def virtq_example_used_def free_list_def fifo_inv16_def
      fifo_inv_def fifo_cap_def fifo_width_def)

lemma allocated_example: "0 \<in> allocated virtq_example" "1 \<in> allocated virtq_example"
  by (simp_all add: allocated_def free_list_example) (simp_all add: virtq_example_def)

lemma chain_example_used [simp]: "chain (vq_desc virtq_example_used) [0, 1]"
  by code_simp

theorem virtq_alloc_desc_spec_witness:
  "\<exists>rc q' i h'. virtq_alloc_desc env0 (Some virtq_example) 64 True (Some 0) [] = Some (rc, Some q', Some i, h') \<and>
     virtq_inv q' \<and> (rc = EOK \<longrightarrow> allocated q' = insert i (allocated virtq_example))"
  using virtq_alloc_desc_spec [OF virtq_inv_example locks_ok_env0 errnos_ok_env0 unmaps_ok_env0,
      of 64 True 0 "[]"] by blast

theorem virtq_free_desc_spec_witness:
  "\<exists>rc q' h'. virtq_free_desc env0 virtq_example 1 [] = Some (rc, q', h') \<and> virtq_inv q' \<and>
     (rc = EOK \<longrightarrow> free_list q' = free_list virtq_example @ [1])"
  using virtq_free_desc_spec [OF virtq_inv_example locks_ok_env0 allocated_example(2), of "[]"] by blast

lemma put_example:
  "unat (2::size_t) \<le> length [0, 1::u16]" "(2::size_t) \<noteq> 0" "distinct (take (unat (2::size_t)) [0, 1::u16])"
  "\<forall>i \<in> set (take (unat (2::size_t)) [0, 1]). i < vq_num virtq_example"
  "\<not> has_next (vq_desc virtq_example ! unat ([0, 1::u16] ! (unat (2::size_t) - 1)))"
  by (simp_all add: virtq_example_def has_next_def)

theorem virtq_put_desc_chain_spec_witness:
  "\<exists>rc ds h'. chain ds [0, 1] \<and> virtq_put_desc_chain env0 virtq_example 2 [0, 1] [] =
     Some (rc, virtq_put_post virtq_example ds 0, h')"
  using virtq_put_desc_chain_spec [OF virtq_inv_example put_example, where env = env0 and h = "[]"]
  by auto

theorem virtq_get_desc_chain_spec_witness:
  "\<exists>h'. virtq_get_desc_chain env0 (Some virtq_example_used) (Some 3) (Some [9, 9, 9]) [] =
     Some (EOK, Some (virtq_example_used\<lparr> vq_last_seen_used := 1 \<rparr>), Some 2, Some [0, 1, 9], h')"
proof -
  have sel: "vq_used_idx virtq_example_used = 1" "vq_last_seen_used virtq_example_used = 0"
      "vq_num virtq_example_used = 4"
      "vq_used_ring virtq_example_used = replicate 4 \<lparr> used_elem_id = 0, used_elem_len = 0 \<rparr>"
    by (simp_all add: virtq_example_used_def virtq_example_def)
  show ?thesis
    using virtq_get_desc_chain_spec [OF virtq_inv_example_used, of env0 "[]" 3 "[9, 9, 9]" "[0, 1]"] sel
    by (auto simp del: chain.simps)
qed


theorem virtq_put_appends_avail_witness:
  "\<exists>rc q' h'. virtq_put_desc_chain env0 virtq_example 2 [0, 1] [] = Some (rc, q', h') \<and>
     avail_since q' 65534 = avail_since virtq_example 65534 @ [0]"
  using virtq_put_appends_avail [OF virtq_inv_example put_example, of env0 "[]" 65534]
  by (auto simp: virtq_example_def)

theorem virtq_get_consumes_oldest_witness:
  "\<exists>q' h'. virtq_get_desc_chain env0 (Some virtq_example_used) (Some 3) (Some [9, 9, 9]) [] =
     Some (EOK, Some q', Some 2, Some [0, 1, 9], h') \<and> used_pending q' = []"
proof -
  have p: "used_pending virtq_example_used = 0 # []" by code_simp
  have "unat (vq_num virtq_example_used) dvd 65536"
    by (simp add: virtq_example_used_def virtq_example_def)
  from virtq_get_consumes_oldest [OF virtq_inv_example_used this _ p chain_example_used,
      of env0 "[]" 3 "[9, 9, 9]"] show ?thesis by auto
qed


theorem virtq_get_desc_chain_unchecked_id_witness:
  "virtq_get_desc_chain env0
     (Some (virtq_example_used\<lparr> vq_used_ring := replicate 4 \<lparr> used_elem_id = 4, used_elem_len = 0 \<rparr> \<rparr>))
     (Some 1) (Some [9]) [] = None"
proof -
  let ?q = "virtq_example_used\<lparr> vq_used_ring := replicate 4 \<lparr> used_elem_id = 4, used_elem_len = 0 \<rparr> \<rparr>"
  have "virtq_inv ?q"
    using virtq_inv_example_used
    by (simp add: virtq_inv_def free_list_def virtq_example_used_def virtq_example_def)
  then show ?thesis
    by (rule virtq_get_desc_chain_unchecked_id) (simp_all add: virtq_example_used_def virtq_example_def)
qed

end
