(* ===== verification/Virtq_Create.thy ===== *)
theory Virtq_Create
  imports Virtq
begin

text \<open>
  \<^verbatim>\<open>src/virtio/virtq.c\<close>, creation and destruction of a virtqueue: the legacy and the modern
  layout in memory, the construction of the structure with its free list, every error path of
  \<open>virtq_create\<close> down to its labels, and \<open>virtq_destroy\<close>. The lemmas give the state a successful
  call leaves (the invariant of theory \<open>Virtq\<close> and a full free list), which mappings and blocks
  are live after each outcome, and that destruction undoes creation.
\<close>

section \<open>Structures in fresh memory\<close>

text \<open>
  The content of freshly mapped memory is what the outside puts there; the structures laid over it
  are decoded little-endian, byte by byte.
\<close>

definition le_word :: "(nat \<Rightarrow> u8) \<Rightarrow> nat \<Rightarrow> nat \<Rightarrow> 'a::len word" where
  "le_word m off n = word_rcat (rev (map m [off..<off + n]))"

definition desc_at :: "(nat \<Rightarrow> u8) \<Rightarrow> nat \<Rightarrow> virtq_desc" where
  "desc_at m off =
     \<lparr> desc_addr = le_word m off 8, desc_len = le_word m (off + 8) 4,
       desc_flags = le_word m (off + 12) 2, desc_next = le_word m (off + 14) 2 \<rparr>"

definition used_elem_at :: "(nat \<Rightarrow> u8) \<Rightarrow> nat \<Rightarrow> virtq_used_elem" where
  "used_elem_at m off = \<lparr> used_elem_id = le_word m off 4, used_elem_len = le_word m (off + 4) 4 \<rparr>"

definition place_desc :: "(nat \<Rightarrow> u8) \<Rightarrow> nat \<Rightarrow> ptr \<Rightarrow> virtq \<Rightarrow> virtq" where
  "place_desc m n p q = q\<lparr> vq_desc_ptr := p, vq_desc := map (\<lambda>i. desc_at m (16 * i)) [0..<n] \<rparr>"

definition place_avail :: "(nat \<Rightarrow> u8) \<Rightarrow> nat \<Rightarrow> nat \<Rightarrow> ptr \<Rightarrow> virtq \<Rightarrow> virtq" where
  "place_avail m off n p q =
     q\<lparr> vq_avail_ptr := p, vq_avail_flags := le_word m off 2, vq_avail_idx := le_word m (off + 2) 2,
        vq_avail_ring := map (\<lambda>i. le_word m (off + 4 + 2 * i) 2) [0..<n] \<rparr>"

definition place_used :: "(nat \<Rightarrow> u8) \<Rightarrow> nat \<Rightarrow> nat \<Rightarrow> ptr \<Rightarrow> virtq \<Rightarrow> virtq" where
  "place_used m off n p q =
     q\<lparr> vq_used_ptr := p, vq_used_idx := le_word m (off + 2) 2,
        vq_used_ring := map (\<lambda>i. used_elem_at m (off + 4 + 8 * i)) [0..<n] \<rparr>"

section \<open>Creation\<close>

text \<open>What \<open>calloc(1, sizeof(struct virtq))\<close> gives at address \<open>p\<close>.\<close>

definition virtq0 :: "ptr \<Rightarrow> virtq" where
  "virtq0 p = \<lparr> vq_self = p, vq_num = 0, vq_legacy = False, vq_desc_ptr = 0, vq_desc = [],
     vq_desc_paddr = 0, vq_avail_ptr = 0, vq_avail_flags = 0, vq_avail_idx = 0, vq_avail_ring = [],
     vq_avail_paddr = 0, vq_used_ptr = 0, vq_used_idx = 0, vq_used_ring = [], vq_used_paddr = 0,
     vq_last_seen_used = 0, vq_free_descs = None, vq_extras_ptr = 0, vq_extras = [] \<rparr>"

text \<open>
  The entries of a legacy used ring that lie inside the mapping: accesses to the others leave it.
\<close>

definition legacy_used_entries :: "u16 \<Rightarrow> u16 \<Rightarrow> size_t \<Rightarrow> nat" where
  "legacy_used_entries num alignment used_offset =
     min (unat num) ((unat (virtq_legacy_mem_size num alignment) - (unat used_offset + 4)) div 8)"

definition virtq_create_legacy :: "env \<Rightarrow> virtq \<Rightarrow> u16 \<Rightarrow> hist \<Rightarrow> rc \<times> virtq \<times> hist" where
  "virtq_create_legacy env q num h =
     (let pagesize = env_pagesize env;
          q = q\<lparr> vq_legacy := True \<rparr>;
          (r, h) = mmap64 env None (virtq_legacy_mem_size num (ucast pagesize)) h
      in case r of
           Inl e \<Rightarrow> (e, q\<lparr> vq_desc_ptr := -1 \<rparr>, h)
         | Inr p \<Rightarrow>
             let m = env_garbage env h;
                 q = place_desc m (unat num) p q;
                 avail_offset = virtq_desc_mem_size (ucast num);
                 q = place_avail m (unat avail_offset) (unat num) (p + avail_offset) q;
                 used_offset = ALIGN (avail_offset + virtq_avail_mem_size num) pagesize;
                 q = place_used m (unat used_offset)
                       (legacy_used_entries num (ucast pagesize) used_offset) (p + used_offset) q
             in (0, q, h))"

definition virtq_destroy_legacy :: "env \<Rightarrow> virtq \<Rightarrow> hist \<Rightarrow> rc \<times> hist" where
  "virtq_destroy_legacy env q h =
     (let ((rc, errno), h) =
            munmap env (vq_desc_ptr q) (virtq_legacy_mem_size (vq_num q) (ucast (env_pagesize env))) h
      in if rc \<noteq> EOK then (errno, h) else (EOK, h))"

text \<open>The labels \<open>unmap_vq_desc\<close> and \<open>unmap_vq_avail\<close>, then the three mappings.\<close>

definition virtq_unmap_vq_desc :: "env \<Rightarrow> virtq \<Rightarrow> u16 \<Rightarrow> hist \<Rightarrow> rc \<times> virtq \<times> hist" where
  "virtq_unmap_vq_desc env q num h =
     (let (_, h) = munmap env (vq_desc_ptr q) (virtq_desc_mem_size (ucast num)) h in (ENOMEM, q, h))"

definition virtq_unmap_vq_avail :: "env \<Rightarrow> virtq \<Rightarrow> u16 \<Rightarrow> hist \<Rightarrow> rc \<times> virtq \<times> hist" where
  "virtq_unmap_vq_avail env q num h =
     (let (_, h) = munmap env (vq_avail_ptr q) (virtq_avail_mem_size num) h
      in virtq_unmap_vq_desc env q num h)"

definition virtq_create_modern :: "env \<Rightarrow> virtq \<Rightarrow> u16 \<Rightarrow> hist \<Rightarrow> rc \<times> virtq \<times> hist" where
  "virtq_create_modern env q num h =
     (let q = q\<lparr> vq_legacy := False \<rparr>;
          (r, h) = mmap64 env None (virtq_desc_mem_size (ucast num)) h
      in case r of
           Inl e \<Rightarrow> (e, q\<lparr> vq_desc_ptr := -1 \<rparr>, h)
         | Inr p \<Rightarrow>
             let q = place_desc (env_garbage env h) (unat num) p q;
                 (r, h) = mmap64 env None (virtq_avail_mem_size num) h
             in case r of
                  Inl e \<Rightarrow> virtq_unmap_vq_desc env (q\<lparr> vq_avail_ptr := -1 \<rparr>) num h
                | Inr p \<Rightarrow>
                    let q = place_avail (env_garbage env h) 0 (unat num) p q;
                        (r, h) = mmap64 env None (virtq_used_mem_size num) h
                    in case r of
                         Inl e \<Rightarrow> virtq_unmap_vq_avail env (q\<lparr> vq_used_ptr := -1 \<rparr>) num h
                       | Inr p \<Rightarrow> (EOK, place_used (env_garbage env h) 0 (unat num) p q, h))"

definition virtq_destroy_modern :: "env \<Rightarrow> virtq \<Rightarrow> hist \<Rightarrow> rc \<times> hist" where
  "virtq_destroy_modern env q h =
     (let ((rc, errno), h) = munmap env (vq_desc_ptr q) (virtq_desc_mem_size (ucast (vq_num q))) h
      in if rc \<noteq> EOK then (errno, h)
      else let ((rc, errno), h) = munmap env (vq_avail_ptr q) (virtq_avail_mem_size (vq_num q)) h
      in if rc \<noteq> EOK then (errno, h)
      else let ((rc, errno), h) = munmap env (vq_used_ptr q) (virtq_used_mem_size (vq_num q)) h
      in if rc \<noteq> EOK then (errno, h) else (EOK, h))"

text \<open>
  The loop that fills the free list. The counter is a \<open>uint16_t\<close>, so for sizes above 65535 it
  wraps; the loop then ends when the fifo is full.
\<close>

lemma fifo_put16_progress:
  assumes "fifo_put16 env f x h = Some (EOK, f', h')"
  shows "fifo_count f \<noteq> fifo_capacity f \<and> fifo_count f' = fifo_count f + 1 \<and> fifo_capacity f' = fifo_capacity f"
  using assms
  by (auto simp: fifo_put16_def fifo_put_def Let_def bind_eq_Some_conv split: if_splits)

function virtq_fill :: "env \<Rightarrow> size_t \<Rightarrow> fifo \<Rightarrow> u16 \<Rightarrow> hist \<Rightarrow> (bool \<times> fifo \<times> hist) option" where
  "virtq_fill env sz f i h =
     (if ucast i < sz then
        (case fifo_put16 env f i h of
           None \<Rightarrow> None
         | Some (rc, f', h') \<Rightarrow> if rc \<noteq> 0 then Some (False, f', h') else virtq_fill env sz f' (i + 1) h')
      else Some (True, f, h))"
  by pat_completeness auto

termination virtq_fill
proof (relation "measure (\<lambda>(env, sz, f, i, h). unat (fifo_capacity f - fifo_count f))")
  fix env sz f i h r a b f' h'
  assume "ucast i < (sz::size_t)" "fifo_put16 env f i h = Some r" "(a, b) = r" "(f', h') = b" "\<not> a \<noteq> 0"
  then have "fifo_put16 env f i h = Some (EOK, f', h')" by auto
  from fifo_put16_progress [OF this]
  show "((env, sz, f', i + 1, h'), env, sz, f, i, h)
      \<in> measure (\<lambda>(env, sz, f, i, h). unat (fifo_capacity f - fifo_count f))"
    using unat_sub_inc_less [of "fifo_count f" "fifo_capacity f"] by simp
qed simp

declare virtq_fill.simps [simp del]

text \<open>The labels of \<open>virtq_create\<close>; each falls through to the next.\<close>

definition virtq_create_free_vq ::
  "rc \<Rightarrow> virtq \<Rightarrow> virtq option cell \<Rightarrow> hist \<Rightarrow> (rc \<times> virtq option cell \<times> hist) option" where
  "virtq_create_free_vq rc q vq h = (let h = free (vq_self q) h in Some (rc, vq, h))"

definition virtq_create_destroy ::
  "env \<Rightarrow> bool \<Rightarrow> rc \<Rightarrow> virtq \<Rightarrow> virtq option cell \<Rightarrow> hist \<Rightarrow> (rc \<times> virtq option cell \<times> hist) option" where
  "virtq_create_destroy env legacy rc q vq h =
     (let (_, h) = (if legacy then virtq_destroy_legacy env q h else virtq_destroy_modern env q h)
      in virtq_create_free_vq rc q vq h)"

definition virtq_create_extras ::
  "env \<Rightarrow> bool \<Rightarrow> rc \<Rightarrow> virtq \<Rightarrow> virtq option cell \<Rightarrow> hist \<Rightarrow> (rc \<times> virtq option cell \<times> hist) option" where
  "virtq_create_extras env legacy rc q vq h =
     (let h = free (vq_extras_ptr q) h in virtq_create_destroy env legacy rc q vq h)"

definition virtq_create_fifo ::
  "env \<Rightarrow> bool \<Rightarrow> rc \<Rightarrow> virtq \<Rightarrow> virtq option cell \<Rightarrow> hist \<Rightarrow> (rc \<times> virtq option cell \<times> hist) option" where
  "virtq_create_fifo env legacy rc q vq h =
     (let (_, h) = fifo_destory env (vq_free_descs q) h in virtq_create_extras env legacy rc q vq h)"

text \<open>
  \<open>vq\<close> is the caller's output pointer. The assignments to \<open>avail->flags\<close>, \<open>avail->idx\<close>, \<open>num\<close> and
  \<open>last_seen_used\<close> come last, so \<open>num\<close> is 0 in every earlier call.
\<close>

definition virtq_create ::
  "env \<Rightarrow> size_t \<Rightarrow> bool \<Rightarrow> virtq option cell \<Rightarrow> hist \<Rightarrow> (rc \<times> virtq option cell \<times> hist) option" where
  "virtq_create env sz legacy vq h =
     (if vq = None then Some (EINVAL, vq, h)
      else
        let (r, h) = calloc env 1 ''struct virtq'' h
        in case r of
             Inl e \<Rightarrow> Some (e, vq, h)
           | Inr p \<Rightarrow>
        let (rc, q, h) = (if legacy then virtq_create_legacy env (virtq0 p) (ucast sz) h
                          else virtq_create_modern env (virtq0 p) (ucast sz) h)
        in if rc \<noteq> EOK then virtq_create_free_vq rc q vq h
        else
        let ((rc, _, paddr), h) =
              mem_offset64 env (vq_desc_ptr q) (virtq_desc_mem_size (ucast (vq_num q))) (vq_desc_paddr q) h;
            q = q\<lparr> vq_desc_paddr := paddr \<rparr>
        in if rc \<noteq> EOK then virtq_create_destroy env legacy rc q vq h
        else
        let ((rc, _, paddr), h) =
              mem_offset64 env (vq_avail_ptr q) (virtq_avail_mem_size (vq_num q)) (vq_avail_paddr q) h;
            q = q\<lparr> vq_avail_paddr := paddr \<rparr>
        in if rc \<noteq> EOK then virtq_create_destroy env legacy rc q vq h
        else
        let ((rc, _, paddr), h) =
              mem_offset64 env (vq_used_ptr q) (virtq_used_mem_size (vq_num q)) (vq_used_paddr q) h;
            q = q\<lparr> vq_used_paddr := paddr \<rparr>
        in if rc \<noteq> EOK then virtq_create_destroy env legacy rc q vq h
        else
        let (r, h) = calloc env sz ''struct desc_extras'' h
        in case r of
             Inl e \<Rightarrow> virtq_create_destroy env legacy e (q\<lparr> vq_extras_ptr := 0 \<rparr>) vq h
           | Inr p \<Rightarrow>
        let q = q\<lparr> vq_extras_ptr := p,
                   vq_extras := replicate (unat sz) \<lparr> extras_vaddr = 0, extras_context = 0 \<rparr> \<rparr>
        in do {
          (rc, f, h) \<leftarrow> fifo_create env sz 2 (Some (vq_free_descs q)) h;
          let q = q\<lparr> vq_free_descs := (case f of Some f \<Rightarrow> f | None \<Rightarrow> vq_free_descs q) \<rparr>
          in if rc \<noteq> EOK then virtq_create_extras env legacy rc q vq h
          else do {
            f \<leftarrow> vq_free_descs q;
            (filled, f, h) \<leftarrow> virtq_fill env sz f 0 h;
            let q = q\<lparr> vq_free_descs := Some f \<rparr>
            in if \<not> filled then virtq_create_fifo env legacy rc q vq h
            else
            let (rc, h) = spin_init env (VirtqLock (vq_self q)) h
            in if rc \<noteq> EOK then virtq_create_fifo env legacy rc q vq h
            else
            let q = q\<lparr> vq_avail_flags := 0, vq_avail_idx := 0, vq_num := ucast sz, vq_last_seen_used := 0 \<rparr>
            in Some (EOK, Some (Some q), h)
          }
        })"

definition virtq_destroy :: "env \<Rightarrow> virtq option \<Rightarrow> hist \<Rightarrow> rc \<times> hist" where
  "virtq_destroy env vq h =
     (case vq of
        None \<Rightarrow> (EINVAL, h)
      | Some q \<Rightarrow>
          let (rc, h) = (if vq_legacy q then virtq_destroy_legacy env q h else virtq_destroy_modern env q h)
          in if rc \<noteq> EOK then (rc, h)
          else
          let h = free (vq_extras_ptr q) h;
              (rc, h) = fifo_destory env (vq_free_descs q) h
          in if rc \<noteq> EOK then (rc, h)
          else
          let (rc, h) = spin_destroy env (VirtqLock (vq_self q)) h
          in if rc \<noteq> EOK then (rc, h)
          else let h = free (vq_self q) h in (EOK, h))"


section \<open>The free list\<close>

lemma virtq_fill_total:
  assumes "fifo_inv16 f" and "unat sz < 65536" and "locks_ok env"
    and "length (fifo_elems16 f) + (unat sz - unat i) \<le> fifo_cap f" and "unat i \<le> unat sz"
  shows "\<exists>f' h'. virtq_fill env sz f i h = Some (True, f', h') \<and> fifo_inv16 f' \<and> fifo_keeps f f' \<and>
           fifo_elems16 f' = fifo_elems16 f @ map of_nat [unat i..<unat sz] \<and> quiet h h'"
  using assms(1,4,5)
proof (induction "unat sz - unat i" arbitrary: f i h)
  case 0
  then have "\<not> ucast i < sz" by (simp add: word_less_nat_alt)
  then show ?case using 0 by (subst virtq_fill.simps) (simp add: fq16.keeps_refl)
next
  case (Suc n)
  then have lt: "ucast i < sz" and lt': "unat i < unat sz" by (auto simp: word_less_nat_alt)
  have i1: "unat (i + 1) = Suc (unat i)"
    using lt' assms(2) by (simp add: unat_word_ariths)
  have room: "length (fifo_elems16 f) < fifo_cap f" using Suc.prems(2) lt' by linarith
  obtain f1 h1 where put: "fifo_put16 env f i h = Some (EOK, f1, h1)" "fifo_inv16 f1" "fifo_keeps f f1"
      "fifo_elems16 f1 = fifo_elems16 f @ [i]" "quiet h h1"
    using fq16.put_ok [OF Suc.prems(1) TrueI _ room, of env h i] assms(3) by auto
  have cap: "fifo_cap f1 = fifo_cap f" using put(3) by (rule fq16.keeps_cap)
  have n: "n = unat sz - unat (i + 1)" using Suc.hyps(2) i1 by simp
  have room1: "length (fifo_elems16 f1) + (unat sz - unat (i + 1)) \<le> fifo_cap f1"
    using Suc.prems(2) put(4) cap i1 lt' by simp
  obtain f' h' where rest: "virtq_fill env sz f1 (i + 1) h1 = Some (True, f', h')" "fifo_inv16 f'"
      "fifo_keeps f1 f'" "fifo_elems16 f' = fifo_elems16 f1 @ map of_nat [unat (i + 1)..<unat sz]" "quiet h1 h'"
    using Suc.hyps(1) [OF n put(2) room1, of h1] i1 lt' by auto
  have "virtq_fill env sz f i h = Some (True, f', h')"
    using lt put(1) rest(1) by (subst virtq_fill.simps) simp
  moreover have "fifo_elems16 f' = fifo_elems16 f @ map of_nat [unat i..<unat sz]"
    using rest(4) put(4) i1 lt' by (simp add: upt_conv_Cons)
  ultimately show ?case
    using rest(2) fq16.keeps_trans [OF put(3) rest(3)] quiet_trans [OF put(5) rest(5)] by blast
qed

text \<open>A failing lock stops the loop; the error code of the put is not kept.\<close>

lemma virtq_fill_lock_error:
  assumes "sz \<noteq> 0" and "env_spin_lock env h (FifoLock (fifo_self f)) \<noteq> EOK"
  shows "\<exists>h'. virtq_fill env sz f 0 h = Some (False, f, h') \<and> quiet h h'"
proof -
  have "(0::size_t) < sz" using assms(1) by (simp add: word_neq_0_conv)
  moreover obtain h' where "fifo_put16 env f 0 h = Some (env_spin_lock env h (FifoLock (fifo_self f)), f, h')" "quiet h h'"
    using fq16.put_lock [OF assms(2), of 0] by blast
  ultimately show ?thesis using assms(2) by (subst virtq_fill.simps) simp
qed

section \<open>The memory of a queue\<close>

text \<open>The mappings a queue of \<open>num\<close> entries owns, with the length the code maps.\<close>

definition virtq_mappings :: "env \<Rightarrow> bool \<Rightarrow> u16 \<Rightarrow> virtq \<Rightarrow> (ptr \<times> size_t) multiset" where
  "virtq_mappings env legacy num q =
     (if legacy then {# (vq_desc_ptr q, virtq_legacy_mem_size num (ucast (env_pagesize env))) #}
      else {# (vq_desc_ptr q, virtq_desc_mem_size (ucast num)), (vq_avail_ptr q, virtq_avail_mem_size num),
              (vq_used_ptr q, virtq_used_mem_size num) #})"

text \<open>Anonymous mappings are filled with zeros.\<close>

definition zeroed :: "env \<Rightarrow> bool" where
  "zeroed env \<longleftrightarrow> (\<forall>n a h k. env_garbage env (Mmap None n (Inr a) # h) k = 0)"

lemma le_word_zero:
  assumes "\<And>k. m k = 0"
  shows "le_word m off n = 0"
proof -
  have "horner_sum uint c (map m ks) = 0" for c ks
    by (induction ks) (simp_all add: assms)
  then show ?thesis by (simp add: le_word_def word_rcat_def)
qed

lemma zeroedD: "zeroed env \<Longrightarrow> le_word (env_garbage env (Mmap None n (Inr a) # h)) off k = 0"
  by (rule le_word_zero) (simp add: zeroed_def)

definition laid_out :: "env \<Rightarrow> bool \<Rightarrow> u16 \<Rightarrow> ptr \<Rightarrow> virtq \<Rightarrow> bool" where
  "laid_out env legacy num p q \<longleftrightarrow>
     vq_self q = p \<and> vq_num q = 0 \<and> vq_legacy q = legacy \<and> vq_free_descs q = None \<and>
     length (vq_desc q) = unat num \<and> length (vq_avail_ring q) = unat num \<and> length (vq_used_ring q) = unat num \<and>
     (zeroed env \<longrightarrow> vq_used_idx q = 0)"

lemmas place_defs = place_desc_def place_avail_def place_used_def

lemma legacy_used_entries_all:
  assumes "unat num \<le> 511"
  shows "legacy_used_entries num 4096 (ALIGN (virtq_desc_mem_size (ucast num) + virtq_avail_mem_size num) 4096) = unat num"
proof -
  let ?off = "ALIGN (virtq_desc_mem_size (ucast num) + virtq_avail_mem_size num) 4096"
  have "unat ?off + unat (virtq_used_mem_size num) \<le> unat (virtq_legacy_mem_size num 4096)"
    using legacy_used_fits [of num] assms by simp
  then have "8 * unat num \<le> unat (virtq_legacy_mem_size num 4096) - (unat ?off + 4)"
    by (simp add: unat_used_mem_size)
  then have "unat num \<le> (unat (virtq_legacy_mem_size num 4096) - (unat ?off + 4)) div 8"
    by simp
  then show ?thesis by (simp add: legacy_used_entries_def)
qed

lemma virtq_create_legacy_cases:
  assumes "errnos_ok env" and "env_pagesize env = 4096" and "unat num \<le> 511"
  obtains (failed) rc q h' where "virtq_create_legacy env (virtq0 p) num h = (rc, q, h')" "rc \<noteq> EOK"
      "vq_self q = p" "live h' = live h" "\<forall>l. held l h' = held l h" "frees h' = frees h"
  | (ok) q h' where "virtq_create_legacy env (virtq0 p) num h = (EOK, q, h')" "laid_out env True num p q"
      "live h' = live h + virtq_mappings env True num q" "\<forall>l. held l h' = held l h" "frees h' = frees h"
proof -
  obtain rc q h' where run: "virtq_create_legacy env (virtq0 p) num h = (rc, q, h')"
    by (cases "virtq_create_legacy env (virtq0 p) num h") auto
  show ?thesis
  proof (cases "env_mmap env h None (virtq_legacy_mem_size num 4096)")
    case (Inl e)
    then have "e \<noteq> 0" using assms(1) by auto
    then show ?thesis
      using run Inl assms(2) by (intro failed [OF run]) (auto simp: virtq_create_legacy_def virtq0_def)
  next
    case (Inr a)
    then have "rc = EOK" using run by (auto simp: virtq_create_legacy_def assms(2) Let_def)
    then show ?thesis
      using run Inr assms(2) legacy_used_entries_all [OF assms(3)]
      by (intro ok [OF run [unfolded \<open>rc = EOK\<close>]])
        (auto simp: virtq_create_legacy_def virtq0_def laid_out_def place_defs virtq_mappings_def zeroedD Let_def)
  qed
qed

lemma virtq_create_modern_cases:
  assumes "errnos_ok env" and "unmaps_ok env"
  obtains (failed) rc q h' where "virtq_create_modern env (virtq0 p) num h = (rc, q, h')" "rc \<noteq> EOK"
      "vq_self q = p" "live h' = live h" "\<forall>l. held l h' = held l h" "frees h' = frees h"
  | (ok) q h' where "virtq_create_modern env (virtq0 p) num h = (EOK, q, h')" "laid_out env False num p q"
      "live h' = live h + virtq_mappings env False num q" "\<forall>l. held l h' = held l h" "frees h' = frees h"
proof -
  obtain rc q h' where run: "virtq_create_modern env (virtq0 p) num h = (rc, q, h')"
    by (cases "virtq_create_modern env (virtq0 p) num h") auto
  let ?d = "virtq_desc_mem_size (ucast num)" and ?a = "virtq_avail_mem_size num" and ?u = "virtq_used_mem_size num"
  note defs = virtq_create_modern_def virtq_unmap_vq_desc_def virtq_unmap_vq_avail_def virtq0_def place_defs
  have um: "env_munmap env h2 x n = 0" if "(x, n) \<in># live h2" for h2 x n
    using assms(2) that by (simp add: unmaps_ok_def)
  show ?thesis
  proof (cases "env_mmap env h None ?d")
    case (Inl e)
    then have "e \<noteq> 0" using assms(1) by auto
    then show ?thesis using run Inl by (intro failed [OF run]) (auto simp: defs)
  next
    case d: (Inr pd)
    let ?h1 = "Mmap None ?d (Inr pd) # h"
    show ?thesis
    proof (cases "env_mmap env ?h1 None ?a")
      case (Inl e)
      have "env_munmap env (Mmap None ?a (Inl e) # ?h1) pd ?d = 0" by (rule um) simp
      then show ?thesis using run d Inl by (intro failed [OF run]) (auto simp: defs Let_def)
    next
      case a: (Inr pa)
      let ?h2 = "Mmap None ?a (Inr pa) # ?h1"
      show ?thesis
      proof (cases "env_mmap env ?h2 None ?u")
        case (Inl e)
        let ?h3 = "Mmap None ?u (Inl e) # ?h2"
        have "env_munmap env ?h3 pa ?a = 0" by (rule um) simp
        moreover have "env_munmap env (Munmap pa ?a 0 # ?h3) pd ?d = 0" by (rule um) simp
        ultimately show ?thesis using run d a Inl by (intro failed [OF run]) (auto simp: defs Let_def)
      next
        case u: (Inr pu)
        have "rc = EOK" using run d a u by (auto simp: defs Let_def)
        then show ?thesis
          using run d a u
          by (intro ok [OF run [unfolded \<open>rc = EOK\<close>]])
            (auto simp: defs laid_out_def virtq_mappings_def zeroedD Let_def)
      qed
    qed
  qed
qed

section \<open>The error paths\<close>

lemma virtq_destroy_legacy_held: "\<exists>rc h'. virtq_destroy_legacy env q h = (rc, h') \<and> (\<forall>l. held l h' = held l h)"
  by (simp add: virtq_destroy_legacy_def Let_def)

lemma virtq_destroy_modern_held: "\<exists>rc h'. virtq_destroy_modern env q h = (rc, h') \<and> (\<forall>l. held l h' = held l h)"
  by (simp add: virtq_destroy_modern_def Let_def)

text \<open>
  Every label returns the code it was reached with and leaves the output pointer alone; what it
  does to the outside is a function of the state.
\<close>

definition destroy_hist :: "env \<Rightarrow> bool \<Rightarrow> virtq \<Rightarrow> hist \<Rightarrow> hist" where
  "destroy_hist env legacy q h =
     Free (vq_self q) # snd (if legacy then virtq_destroy_legacy env q h else virtq_destroy_modern env q h)"

definition fifo_hist :: "env \<Rightarrow> bool \<Rightarrow> virtq \<Rightarrow> hist \<Rightarrow> hist" where
  "fifo_hist env legacy q h =
     destroy_hist env legacy q (Free (vq_extras_ptr q) # snd (fifo_destory env (vq_free_descs q) h))"

lemma virtq_create_labels [simp]:
  "virtq_create_free_vq rc q vq h = Some (rc, vq, Free (vq_self q) # h)"
  "virtq_create_destroy env legacy rc q vq h = Some (rc, vq, destroy_hist env legacy q h)"
  "virtq_create_extras env legacy rc q vq h = Some (rc, vq, destroy_hist env legacy q (Free (vq_extras_ptr q) # h))"
  "virtq_create_fifo env legacy rc q vq h = Some (rc, vq, fifo_hist env legacy q h)"
  by (simp_all add: virtq_create_free_vq_def virtq_create_destroy_def virtq_create_extras_def
      virtq_create_fifo_def destroy_hist_def fifo_hist_def split_beta)

lemma held_destroy_hist [simp]: "held l (destroy_hist env legacy q h) = held l h"
  using virtq_destroy_legacy_held [of env q h] virtq_destroy_modern_held [of env q h]
  by (auto simp: destroy_hist_def)

lemma held_fifo_hist [simp]: "held l (fifo_hist env legacy q h) = held l h"
  by (auto simp: fifo_hist_def fifo_destory_def Let_def split: option.splits)

section \<open>Creating a queue\<close>

text \<open>Either layout, as one call.\<close>

lemma virtq_layout_cases:
  assumes "errnos_ok env" and "unmaps_ok env" and "legacy \<Longrightarrow> env_pagesize env = 4096 \<and> unat num \<le> 511"
  obtains (failed) rc q h' where "rc \<noteq> EOK" "vq_self q = p" "live h' = live h" "\<forall>l. held l h' = held l h"
      "(if legacy then virtq_create_legacy env (virtq0 p) num h else virtq_create_modern env (virtq0 p) num h) = (rc, q, h')"
  | (ok) q h' where "laid_out env legacy num p q" "live h' = live h + virtq_mappings env legacy num q"
      "\<forall>l. held l h' = held l h"
      "(if legacy then virtq_create_legacy env (virtq0 p) num h else virtq_create_modern env (virtq0 p) num h) = (EOK, q, h')"
proof (cases legacy)
  case True
  then have "env_pagesize env = 4096" and "unat num \<le> 511" using assms(3) by simp_all
  from assms(1) this show ?thesis
    by (rule virtq_create_legacy_cases [where p = p and h = h]) (use True failed ok in auto)
next
  case False
  from assms(1,2) show ?thesis
    by (rule virtq_create_modern_cases [where p = p and h = h and num = num]) (use False failed ok in auto)
qed

text \<open>What a finished queue of \<open>n\<close> entries is.\<close>

definition virtq_fresh :: "env \<Rightarrow> bool \<Rightarrow> nat \<Rightarrow> hist \<Rightarrow> hist \<Rightarrow> virtq \<Rightarrow> bool" where
  "virtq_fresh env legacy n h h' q \<longleftrightarrow>
     virtq_inv q \<and> free_list q = map of_nat [0..<n] \<and> unat (vq_num q) = n \<and> vq_legacy q = legacy \<and>
     vq_avail_idx q = 0 \<and> vq_last_seen_used q = 0 \<and>
     (zeroed env \<longrightarrow> vq_used_idx q = 0) \<and>
     live h' = live h + virtq_mappings env legacy (vq_num q) q"

lemma distinct_of_nat_upt: "n < 65536 \<Longrightarrow> distinct (map of_nat [0..<n] :: u16 list)"
  by (auto simp: distinct_map inj_on_def word_unat_eq_iff unat_of_nat)

lemma virtq_fresh_intro:
  assumes "laid_out env legacy (ucast sz) p q" and "unat sz < 65536" and "sz \<noteq> (0::size_t)"
    and "fifo_inv16 f" and "fifo_cap f = unat sz" and "fifo_elems16 f = map of_nat [0..<unat sz]"
    and "live h' = live h + virtq_mappings env legacy (ucast sz) q"
  shows "virtq_fresh env legacy (unat sz) h h'
           (q\<lparr> vq_desc_paddr := a, vq_avail_paddr := b, vq_used_paddr := c, vq_extras_ptr := e,
              vq_extras := replicate (unat sz) x, vq_free_descs := Some f,
              vq_avail_flags := 0, vq_avail_idx := 0, vq_num := ucast sz, vq_last_seen_used := 0 \<rparr>)"
proof -
  have num: "unat (ucast sz :: u16) = unat sz" using assms(2) by (rule unat_ucast_64_16)
  then have nz: "(ucast sz :: u16) \<noteq> 0" using assms(3) by (auto simp: word_unat_eq_iff)
  have bound: "of_nat i < (ucast sz :: u16)" if "i < unat sz" for i
    using that assms(2) num by (simp add: word_less_nat_alt unat_of_nat)
  show ?thesis
    using assms(1,4-7) num nz distinct_of_nat_upt [OF assms(2)] bound
    by (simp add: virtq_fresh_def virtq_inv_def laid_out_def free_list_def virtq_mappings_def)
qed

lemma fifo_create16_cases:
  assumes "unat (env_fifo_hdr env) + unat sz * 2 < 2 ^ 64"
  obtains (failed) rc h' where "fifo_create env sz 2 (Some old) h = Some (rc, Some old, h')" "rc \<noteq> EOK"
      "live h' = live h" "\<forall>l. held l h' = held l h"
  | (ok) f h' where "fifo_create env sz 2 (Some old) h = Some (EOK, Some (Some f), h')" "fifo_inv16 f"
      "fifo_elems16 f = []" "fifo_cap f = unat sz" "live h' = live h" "\<forall>l. held l h' = held l h"
proof -
  let ?size = "env_fifo_hdr env + sz * 2"
  let ?p = "env_malloc env h ?size"
  let ?h = "Malloc ?size ?p # h"
  have mul: "unat (sz * 2) = unat sz * 2"
    using assms by (simp add: unat_word_ariths)
  have "unat ?size = unat (env_fifo_hdr env) + unat sz * 2"
    using assms by (simp add: unat_word_ariths)
  then have fits: "\<not> ?size < env_fifo_hdr env" by (simp add: word_less_nat_alt)
  consider "?p = 0" | "?p \<noteq> 0" "env_spin_init env ?h (FifoLock ?p) \<noteq> EOK"
    | "?p \<noteq> 0" "env_spin_init env ?h (FifoLock ?p) = EOK" by blast
  then show ?thesis
  proof cases
    case 1
    then have "fifo_create env sz 2 (Some old) h = Some (ENOMEM, Some old, ?h)"
      by (simp add: fifo_create_def Let_def)
    from failed [OF this] show ?thesis by simp
  next
    case 2
    let ?rc = "env_spin_init env ?h (FifoLock ?p)"
    have "fifo_create env sz 2 (Some old) h = Some (?rc, Some old, Free ?p # SpinInit (FifoLock ?p) ?rc # ?h)"
      using 2 fits by (simp add: fifo_create_def Let_def)
    from failed [OF this] 2 show ?thesis by simp
  next
    case 3
    let ?h' = "SpinInit (FifoLock ?p) 0 # ?h"
    let ?f = "\<lparr> fifo_self = ?p, fifo_head = 0, fifo_tail = 0, fifo_count = 0, fifo_capacity = sz,
                 fifo_elem_size = 2, fifo_data = map (env_garbage env ?h') [0..<unat (sz * 2)] \<rparr>"
    have "fifo_create env sz 2 (Some old) h = Some (EOK, Some (Some ?f), ?h')"
      using 3 fits by (simp add: fifo_create_def Let_def)
    moreover have "fifo_inv16 ?f" "fifo_elems16 ?f = []" "fifo_cap ?f = unat sz"
      using mul assms
      by (simp_all add: fifo_inv16_def fifo_inv_def fifo_elems16_def fifo_elems_def fifo_cap_def
          fifo_width_def unat_gt_0)
    ultimately show ?thesis by (rule ok) simp_all
  qed
qed

text \<open>The outcome of a creation: a fresh queue with its mappings, or no queue and an error.\<close>

definition create_outcome ::
  "env \<Rightarrow> bool \<Rightarrow> nat \<Rightarrow> hist \<Rightarrow> (rc \<times> virtq option cell \<times> hist) option \<Rightarrow> bool" where
  "create_outcome env legacy n h r \<longleftrightarrow>
     (\<exists>rc out h'. r = Some (rc, Some out, h') \<and> (rc = EOK \<longleftrightarrow> out \<noteq> None) \<and> (\<forall>l. held l h' = held l h) \<and>
        (\<forall>q. out = Some q \<longrightarrow> virtq_fresh env legacy n h h' q))"

text \<open>The history after the layout: the three addresses, then the extras.\<close>

definition hist_desc :: "env \<Rightarrow> virtq \<Rightarrow> hist \<Rightarrow> hist" where
  "hist_desc env q h =
     MemOffset (vq_desc_ptr q) (virtq_desc_mem_size 0) (env_mem_offset env h (vq_desc_ptr q) (virtq_desc_mem_size 0)) # h"

definition hist_avail :: "env \<Rightarrow> virtq \<Rightarrow> hist \<Rightarrow> hist" where
  "hist_avail env q h =
     MemOffset (vq_avail_ptr q) (virtq_avail_mem_size 0) (env_mem_offset env h (vq_avail_ptr q) (virtq_avail_mem_size 0)) # h"

definition hist_used :: "env \<Rightarrow> virtq \<Rightarrow> hist \<Rightarrow> hist" where
  "hist_used env q h =
     MemOffset (vq_used_ptr q) (virtq_used_mem_size 0) (env_mem_offset env h (vq_used_ptr q) (virtq_used_mem_size 0)) # h"

definition hist_extras :: "env \<Rightarrow> size_t \<Rightarrow> hist \<Rightarrow> hist" where
  "hist_extras env sz h = Calloc sz ''struct desc_extras'' (env_calloc env h sz ''struct desc_extras'') # h"

lemmas hist_steps = hist_desc_def hist_avail_def hist_used_def hist_extras_def

abbreviation layout :: "env \<Rightarrow> bool \<Rightarrow> ptr \<Rightarrow> u16 \<Rightarrow> hist \<Rightarrow> rc \<times> virtq \<times> hist" where
  "layout env legacy p n h \<equiv>
     (if legacy then virtq_create_legacy env (virtq0 p) n h else virtq_create_modern env (virtq0 p) n h)"

lemma virtq_create_extras_run:
  assumes env: "locks_ok env" "unat (env_fifo_hdr env) + unat sz * 2 < 2 ^ 64"
    and sz: "sz \<noteq> 0" "unat sz < 65536"
    and p: "env_calloc env h 1 ''struct virtq'' = Inr p"
    and lay: "layout env legacy p (ucast sz) (Calloc 1 ''struct virtq'' (Inr p) # h) = (EOK, q, h2)"
    and laid: "laid_out env legacy (ucast sz) p q"
    and h2: "live h2 = live h + virtq_mappings env legacy (ucast sz) q" "\<forall>l. held l h2 = held l h"
    and a: "env_mem_offset env h2 (vq_desc_ptr q) (virtq_desc_mem_size 0) = Inr a"
    and b: "env_mem_offset env (hist_desc env q h2) (vq_avail_ptr q) (virtq_avail_mem_size 0) = Inr b"
    and c: "env_mem_offset env (hist_avail env q (hist_desc env q h2)) (vq_used_ptr q) (virtq_used_mem_size 0) = Inr c"
    and x: "env_calloc env (hist_used env q (hist_avail env q (hist_desc env q h2))) sz ''struct desc_extras'' = Inr x"
  shows "create_outcome env legacy (unat sz) h (virtq_create env sz legacy (Some None) h)"
proof -
  let ?h6 = "hist_extras env sz (hist_used env q (hist_avail env q (hist_desc env q h2)))"
  have num0: "vq_num q = 0" "vq_free_descs q = None" "vq_self q = p"
    using laid by (simp_all add: laid_out_def)
  note run = virtq_create_def p lay num0 create_outcome_def
  have live6: "live ?h6 = live h2" "\<forall>l. held l ?h6 = held l h2" by (simp_all add: hist_steps)
  from env(2) show ?thesis
  proof (rule fifo_create16_cases [where old = None and h = ?h6])
    fix rc h'
    assume "fifo_create env sz 2 (Some None) ?h6 = Some (rc, Some None, h')" "rc \<noteq> EOK" "\<forall>l. held l h' = held l ?h6"
    then show ?thesis using a b c x live6 h2(2) by (simp add: run hist_steps)
  next
    fix f h7
    assume fifo: "fifo_create env sz 2 (Some None) ?h6 = Some (EOK, Some (Some f), h7)" "fifo_inv16 f"
      "fifo_elems16 f = []" "fifo_cap f = unat sz" "live h7 = live ?h6" "\<forall>l. held l h7 = held l ?h6"
    obtain f' h8 where fill: "virtq_fill env sz f 0 h7 = Some (True, f', h8)" "fifo_inv16 f'"
        "fifo_keeps f f'" "fifo_elems16 f' = map of_nat [0..<unat sz]" "quiet h7 h8"
      using virtq_fill_total [OF fifo(2) sz(2) env(1), of 0 h7] fifo(3,4) by auto
    have cap: "fifo_cap f' = unat sz" using fifo(4) fq16.keeps_cap [OF fill(3)] by simp
    have hist: "live h8 = live h + virtq_mappings env legacy (ucast sz) q" "\<forall>l. held l h8 = held l h"
      using fill(5) fifo(5,6) live6 h2 by (simp_all add: quiet_def)
    show ?thesis
    proof (cases "env_spin_init env h8 (VirtqLock p) = EOK")
      case False
      then show ?thesis using a b c x fifo(1) fill(1) hist by (simp add: run hist_steps)
    next
      case True
      have "live (SpinInit (VirtqLock p) EOK # h8) = live h + virtq_mappings env legacy (ucast sz) q"
        using hist(1) by simp
      from virtq_fresh_intro [OF laid sz(2,1) fill(2) cap fill(4) this]
      show ?thesis using a b c x fifo(1) fill(1) hist(2) True by (simp add: run hist_steps)
    qed
  qed
qed

lemma virtq_create_laid_run:
  assumes env: "locks_ok env" "errnos_ok env" "unat (env_fifo_hdr env) + unat sz * 2 < 2 ^ 64"
    and sz: "sz \<noteq> 0" "unat sz < 65536"
    and p: "env_calloc env h 1 ''struct virtq'' = Inr p"
    and lay: "layout env legacy p (ucast sz) (Calloc 1 ''struct virtq'' (Inr p) # h) = (EOK, q, h2)"
    and laid: "laid_out env legacy (ucast sz) p q"
    and h2: "live h2 = live h + virtq_mappings env legacy (ucast sz) q" "\<forall>l. held l h2 = held l h"
  shows "create_outcome env legacy (unat sz) h (virtq_create env sz legacy (Some None) h)"
proof -
  let ?o1 = "env_mem_offset env h2 (vq_desc_ptr q) (virtq_desc_mem_size 0)"
  let ?o2 = "env_mem_offset env (hist_desc env q h2) (vq_avail_ptr q) (virtq_avail_mem_size 0)"
  let ?o3 = "env_mem_offset env (hist_avail env q (hist_desc env q h2)) (vq_used_ptr q) (virtq_used_mem_size 0)"
  let ?o4 = "env_calloc env (hist_used env q (hist_avail env q (hist_desc env q h2))) sz ''struct desc_extras''"
  have num0: "vq_num q = 0" "vq_free_descs q = None" "vq_self q = p"
    using laid by (simp_all add: laid_out_def)
  note run = virtq_create_def p lay num0 create_outcome_def hist_steps
  consider (o1) e where "?o1 = Inl e" | (o2) a e where "?o1 = Inr a" "?o2 = Inl e"
    | (o3) a b e where "?o1 = Inr a" "?o2 = Inr b" "?o3 = Inl e"
    | (o4) a b c e where "?o1 = Inr a" "?o2 = Inr b" "?o3 = Inr c" "?o4 = Inl e"
    | (ok) a b c x where "?o1 = Inr a" "?o2 = Inr b" "?o3 = Inr c" "?o4 = Inr x"
    by (meson old.sum.exhaust)
  then show ?thesis
  proof cases
    case o4
    then have "e \<noteq> 0" using env(2) by auto
    then show ?thesis using h2(2) o4 by (simp add: run)
  next
    case ok
    show ?thesis by (rule virtq_create_extras_run [OF env(1,3) sz p lay laid h2 ok])
  qed (use h2(2) in \<open>simp_all add: run\<close>)
qed

lemma virtq_create_outcome:
  assumes "locks_ok env" and "errnos_ok env" and "unmaps_ok env"
    and "sz \<noteq> 0" and "unat sz < 65536" and "unat (env_fifo_hdr env) + unat sz * 2 < 2 ^ 64"
    and "legacy \<Longrightarrow> env_pagesize env = 4096 \<and> unat sz \<le> 511"
  shows "create_outcome env legacy (unat sz) h (virtq_create env sz legacy (Some None) h)"
proof (cases "env_calloc env h 1 ''struct virtq''")
  case (Inl e)
  then have "e \<noteq> 0" using assms(2) by auto
  then show ?thesis using Inl by (simp add: virtq_create_def create_outcome_def)
next
  case (Inr p)
  let ?h1 = "Calloc 1 ''struct virtq'' (Inr p) # h" and ?n = "ucast sz :: u16"
  have "unat ?n = unat sz" using assms(5) by (rule unat_ucast_64_16)
  then have legacy: "legacy \<Longrightarrow> env_pagesize env = 4096 \<and> unat ?n \<le> 511" using assms(7) by simp
  from assms(2,3) legacy show ?thesis
  proof (rule virtq_layout_cases [where p = p and h = ?h1])
    fix rc q h'
    assume "rc \<noteq> EOK" "\<forall>l. held l h' = held l ?h1" "layout env legacy p ?n ?h1 = (rc, q, h')"
    then show ?thesis using Inr by (simp add: virtq_create_def create_outcome_def)
  next
    fix q h2
    assume laid: "laid_out env legacy ?n p q" and h2: "live h2 = live ?h1 + virtq_mappings env legacy ?n q"
        "\<forall>l. held l h2 = held l ?h1" and lay: "layout env legacy p ?n ?h1 = (EOK, q, h2)"
    from h2 have "live h2 = live h + virtq_mappings env legacy ?n q" "\<forall>l. held l h2 = held l h" by simp_all
    then show ?thesis by (rule virtq_create_laid_run [OF assms(1,2,6,4,5) Inr lay laid])
  qed
qed

lemma virtq_create_run:
  assumes "locks_ok env" and "errnos_ok env" and "unmaps_ok env"
    and "sz \<noteq> 0" and "unat sz < 65536" and "unat (env_fifo_hdr env) + unat sz * 2 < 2 ^ 64"
    and "legacy \<Longrightarrow> env_pagesize env = 4096 \<and> unat sz \<le> 511"
  shows "\<exists>rc out h'. virtq_create env sz legacy (Some None) h = Some (rc, Some out, h') \<and>
           (rc = EOK \<longleftrightarrow> out \<noteq> None) \<and> (\<forall>l. held l h' = held l h) \<and>
           (\<forall>q. out = Some q \<longrightarrow> virtq_fresh env legacy (unat sz) h h' q)"
  using virtq_create_outcome [OF assms] unfolding create_outcome_def .

text \<open>When the other calls succeed, creation comes down to filling the free list.\<close>

definition calls_ok :: "env \<Rightarrow> bool" where
  "calls_ok env \<longleftrightarrow>
     (\<forall>h n ty. \<exists>p. env_calloc env h n ty = Inr p) \<and> (\<forall>h phys n. \<exists>p. env_mmap env h phys n = Inr p) \<and>
     (\<forall>h a n. \<exists>p. env_mem_offset env h a n = Inr p) \<and> (\<forall>h n. env_malloc env h n \<noteq> 0) \<and>
     (\<forall>h l. env_spin_init env h l = EOK)"

lemma layout_calls_ok:
  assumes "calls_ok env"
  shows "\<exists>q h'. (if legacy then virtq_create_legacy env (virtq0 p) n h else virtq_create_modern env (virtq0 p) n h) =
           (EOK, q, h') \<and> vq_free_descs q = None"
proof (cases legacy)
  case True
  obtain a where "env_mmap env h None (virtq_legacy_mem_size n (ucast (env_pagesize env))) = Inr a"
    using assms by (unfold calls_ok_def) blast
  with True show ?thesis by (simp add: virtq_create_legacy_def virtq0_def place_defs Let_def)
next
  case False
  have ok: "\<exists>a. env_mmap env h None n = Inr a" for h n
    using assms unfolding calls_ok_def by blast
  obtain d where d: "env_mmap env h None (virtq_desc_mem_size (ucast n)) = Inr d" using ok by blast
  let ?h1 = "Mmap None (virtq_desc_mem_size (ucast n)) (Inr d) # h"
  obtain a where a: "env_mmap env ?h1 None (virtq_avail_mem_size n) = Inr a" using ok by blast
  let ?h2 = "Mmap None (virtq_avail_mem_size n) (Inr a) # ?h1"
  obtain u where u: "env_mmap env ?h2 None (virtq_used_mem_size n) = Inr u" using ok by blast
  from False d a u show ?thesis by (simp add: virtq_create_modern_def virtq0_def place_defs Let_def)
qed

lemma virtq_create_to_fill:
  assumes "calls_ok env" and "unat (env_fifo_hdr env) + unat sz * 2 < 2 ^ 64"
  shows "\<exists>finish undone l f h1. fifo_inv16 f \<and> fifo_elems16 f = [] \<and> fifo_cap f = unat sz \<and>
     virtq_create env sz legacy (Some None) h =
       (case virtq_fill env sz f 0 h1 of
          None \<Rightarrow> None
        | Some (filled, f', h2) \<Rightarrow>
            if filled then Some (EOK, Some (Some (finish f')), SpinInit l EOK # h2)
            else Some (EOK, Some None, fifo_hist env legacy (undone f') h2))"
proof -
  obtain p where p: "env_calloc env h 1 ''struct virtq'' = Inr p"
    using assms(1) unfolding calls_ok_def by blast
  let ?h1 = "Calloc 1 ''struct virtq'' (Inr p) # h"
  obtain q h2 where lay: "(if legacy then virtq_create_legacy env (virtq0 p) (ucast sz) ?h1
      else virtq_create_modern env (virtq0 p) (ucast sz) ?h1) = (EOK, q, h2)" "vq_free_descs q = None"
    using layout_calls_ok [OF assms(1)] by blast
  have off: "\<exists>x. env_mem_offset env h a n = Inr x" for h a n
    using assms(1) unfolding calls_ok_def by blast
  let ?n1 = "virtq_desc_mem_size (ucast (vq_num q))" and ?n2 = "virtq_avail_mem_size (vq_num q)"
    and ?n3 = "virtq_used_mem_size (vq_num q)"
  obtain a where a: "env_mem_offset env h2 (vq_desc_ptr q) ?n1 = Inr a" using off by blast
  let ?h3 = "MemOffset (vq_desc_ptr q) ?n1 (Inr a) # h2"
  obtain b where b: "env_mem_offset env ?h3 (vq_avail_ptr q) ?n2 = Inr b" using off by blast
  let ?h4 = "MemOffset (vq_avail_ptr q) ?n2 (Inr b) # ?h3"
  obtain c where c: "env_mem_offset env ?h4 (vq_used_ptr q) ?n3 = Inr c" using off by blast
  let ?h5 = "MemOffset (vq_used_ptr q) ?n3 (Inr c) # ?h4"
  obtain x where x: "env_calloc env ?h5 sz ''struct desc_extras'' = Inr x"
    using assms(1) unfolding calls_ok_def by blast
  let ?h6 = "Calloc sz ''struct desc_extras'' (Inr x) # ?h5"
  have "fst (malloc env (env_fifo_hdr env + sz * 2) ?h6) \<noteq> 0" and "\<And>h l. env_spin_init env h l = EOK"
    using assms(1) by (simp_all add: calls_ok_def)
  then obtain f h7 where f: "fifo_create env sz 2 (Some None) ?h6 = Some (EOK, Some (Some f), h7)"
    and f': "fifo_inv f" "fifo_elems f = []" "fifo_cap f = unat sz" "fifo_width f = 2"
    using fifo_create_ok [of env sz 2 ?h6 None] assms(2) by auto
  then have "fifo_inv16 f" and "fifo_elems16 f = []"
    by (simp_all add: fifo_inv16_def fifo_elems16_def)
  let ?q = "q\<lparr> vq_desc_paddr := a, vq_avail_paddr := b, vq_used_paddr := c, vq_extras_ptr := x,
              vq_extras := replicate (unat sz) \<lparr> extras_vaddr = 0, extras_context = 0 \<rparr> \<rparr>"
  have spin: "env_spin_init env h l = EOK" for h l
    using assms(1) by (simp add: calls_ok_def)
  have run: "virtq_create env sz legacy (Some None) h =
       (case virtq_fill env sz f 0 h7 of
          None \<Rightarrow> None
        | Some (filled, f', h2) \<Rightarrow>
            if filled
            then Some (EOK, Some (Some (?q\<lparr> vq_free_descs := Some f', vq_avail_flags := 0, vq_avail_idx := 0,
                   vq_num := ucast sz, vq_last_seen_used := 0 \<rparr>)), SpinInit (VirtqLock (vq_self q)) EOK # h2)
            else Some (EOK, Some None, fifo_hist env legacy (?q\<lparr> vq_free_descs := Some f' \<rparr>) h2))"
    using p lay a b c x f spin by (cases "virtq_fill env sz f 0 h7") (auto simp: virtq_create_def)
  show ?thesis
    by (intro exI conjI) (fact \<open>fifo_inv16 f\<close> \<open>fifo_elems16 f = []\<close> f'(3) run)+
qed

text \<open>An outside on which creation succeeds.\<close>

definition env_create :: env where
  "env_create = env0\<lparr> env_malloc := \<lambda>h n. 64 \<rparr>"

lemma env_create_ok [simp]:
  "locks_ok env_create" "errnos_ok env_create" "unmaps_ok env_create" "calls_ok env_create"
  "env_fifo_hdr env_create = 48" "env_pagesize env_create = 4096" "env_spin_destroy env_create h l = 0"
  by (simp_all add: env_create_def locks_ok_def errnos_ok_def unmaps_ok_def calls_ok_def)

lemma env_create_succeeds:
  assumes "unat sz < 65536"
  shows "\<exists>q h'. virtq_create env_create sz legacy (Some None) h = Some (EOK, Some (Some q), h')"
proof -
  have "unat (env_fifo_hdr env_create) + unat sz * 2 < 2 ^ 64" using assms by simp
  then obtain finish undone l f h1 where run: "fifo_inv16 f" "fifo_elems16 f = []" "fifo_cap f = unat sz"
      "virtq_create env_create sz legacy (Some None) h =
       (case virtq_fill env_create sz f 0 h1 of
          None \<Rightarrow> None
        | Some (filled, f', h2) \<Rightarrow>
            if filled then Some (EOK, Some (Some (finish f')), SpinInit l EOK # h2)
            else Some (EOK, Some None, fifo_hist env_create legacy (undone f') h2))"
    using virtq_create_to_fill [OF env_create_ok(4)] by blast
  obtain f' h2 where "virtq_fill env_create sz f 0 h1 = Some (True, f', h2)"
    using virtq_fill_total [OF run(1) assms env_create_ok(1), of 0 h1] run(2,3) by auto
  with run(4) show ?thesis by simp
qed



section \<open>Destroying a queue\<close>

lemma unmaps_okD: "unmaps_ok env \<Longrightarrow> (a, n) \<in># live h \<Longrightarrow> env_munmap env h a n = 0"
  by (simp add: unmaps_ok_def)

lemma virtq_unmap_legacy:
  assumes "unmaps_ok env" and "virtq_mappings env True (vq_num q) q \<subseteq># live h"
  shows "\<exists>h'. virtq_destroy_legacy env q h = (EOK, h') \<and>
           live h' = live h - virtq_mappings env True (vq_num q) q \<and> frees h' = frees h"
  using unmaps_okD [OF assms(1)] assms(2)
  by (simp add: virtq_destroy_legacy_def virtq_mappings_def)

lemma virtq_unmap_modern:
  assumes "unmaps_ok env" and "virtq_mappings env False (vq_num q) q \<subseteq># live h"
  shows "\<exists>h'. virtq_destroy_modern env q h = (EOK, h') \<and>
           live h' = live h - virtq_mappings env False (vq_num q) q \<and> frees h' = frees h"
proof -
  let ?d = "(vq_desc_ptr q, virtq_desc_mem_size (ucast (vq_num q)))"
    and ?a = "(vq_avail_ptr q, virtq_avail_mem_size (vq_num q))"
    and ?u = "(vq_used_ptr q, virtq_used_mem_size (vq_num q))"
  obtain M where M: "live h = {#?d, ?a, ?u#} + M"
    using assms(2) by (auto simp: virtq_mappings_def mset_subset_eq_exists_conv)
  let ?h1 = "Munmap (fst ?d) (snd ?d) 0 # h"
  let ?h2 = "Munmap (fst ?a) (snd ?a) 0 # ?h1"
  have 1: "env_munmap env h (fst ?d) (snd ?d) = 0" by (rule unmaps_okD [OF assms(1)]) (simp add: M)
  have 2: "env_munmap env ?h1 (fst ?a) (snd ?a) = 0" by (rule unmaps_okD [OF assms(1)]) (simp add: M)
  have 3: "env_munmap env ?h2 (fst ?u) (snd ?u) = 0" by (rule unmaps_okD [OF assms(1)]) (simp add: M)
  show ?thesis
    using 1 2 3 by (simp add: virtq_destroy_modern_def virtq_mappings_def M)
qed

lemma virtq_destroy_run:
  assumes "unmaps_ok env" and "\<And>h l. env_spin_destroy env h l = EOK" and "vq_free_descs q = Some f"
    and "virtq_mappings env (vq_legacy q) (vq_num q) q \<subseteq># live h"
  shows "\<exists>h'. virtq_destroy env (Some q) h = (EOK, h') \<and>
           live h' = live h - virtq_mappings env (vq_legacy q) (vq_num q) q \<and>
           frees h' = [vq_self q, fifo_self f, vq_extras_ptr q] @ frees h"
proof (cases "vq_legacy q")
  case True
  then show ?thesis
    using virtq_unmap_legacy [OF assms(1), of q h] assms(2-4) by (auto simp: virtq_destroy_def fifo_destory_def)
next
  case False
  then show ?thesis
    using virtq_unmap_modern [OF assms(1), of q h] assms(2-4) by (auto simp: virtq_destroy_def fifo_destory_def)
qed

text \<open>
  C27: destruction undoes creation. Whatever happened in between, as long as the queue's mappings
  are still live: \<open>virtq_destroy\<close> of a created queue returns \<open>EOK\<close>, removes exactly the mappings
  that \<open>virtq_create\<close> made, and frees the descriptor extras, the free list and the structure,
  each once.
\<close>

theorem virtq_create_destroy_roundtrip:
  assumes "locks_ok env" and "errnos_ok env" and "unmaps_ok env"
    and "sz \<noteq> 0" and "unat sz < 65536" and "unat (env_fifo_hdr env) + unat sz * 2 < 2 ^ 64"
    and "legacy \<Longrightarrow> env_pagesize env = 4096 \<and> unat sz \<le> 511"
    and "\<And>h l. env_spin_destroy env h l = EOK"
    and created: "virtq_create env sz legacy (Some None) h = Some (rc, Some (Some q), h1)"
    and "live h2 = live h1 + extra"
  shows "\<exists>h3 f. virtq_destroy env (Some q) h2 = (EOK, h3) \<and> live h3 = live h + extra \<and>
           vq_free_descs q = Some f \<and> frees h3 = [vq_self q, fifo_self f, vq_extras_ptr q] @ frees h2"
proof -
  have fresh: "virtq_fresh env legacy (unat sz) h h1 q"
    using virtq_create_run [where h = h and legacy = legacy, OF assms(1-7)] created by auto
  then obtain f where f: "vq_free_descs q = Some f"
    by (auto simp: virtq_fresh_def elim: virtq_inv_fifo)
  have leg: "vq_legacy q = legacy" and live: "live h2 = live h + extra + virtq_mappings env legacy (vq_num q) q"
    using fresh assms(10) by (simp_all add: virtq_fresh_def)
  then show ?thesis
    using virtq_destroy_run [OF assms(3,8) f, of h2] f by (simp add: leg live)
qed

theorem virtq_create_destroy_roundtrip_witness:
  "\<exists>q h1 h3. virtq_create env_create 4 False (Some None) [] = Some (EOK, Some (Some q), h1) \<and>
     virtq_destroy env_create (Some q) h1 = (EOK, h3) \<and> live h3 = {#}"
proof -
  obtain q h1 where run: "virtq_create env_create 4 False (Some None) [] = Some (EOK, Some (Some q), h1)"
    using env_create_succeeds [of 4 False "[]"] by auto
  from virtq_create_destroy_roundtrip [OF env_create_ok(1-3) _ _ _ _ env_create_ok(7) this, of h1 "{#}"]
  show ?thesis using run by auto
qed

section \<open>Where the error paths fall short\<close>

text \<open>
  \<open>virtq_create\<close> leaks. The cleanup computes its lengths from the field \<open>num\<close>, which is
  assigned only at the very end. If a modern queue is laid out and the first \<open>mem_offset64\<close>
  fails, the cleanup unmaps length 0, which fails, and gives up: all three mappings stay live,
  and the caller gets -1 instead of an error number.
\<close>

theorem virtq_create_leaks:
  assumes "errnos_ok env" and "env_calloc env h 1 ''struct virtq'' = Inr p"
    and "virtq_create_modern env (virtq0 p) (ucast sz) (Calloc 1 ''struct virtq'' (Inr p) # h) = (EOK, q, h1)"
    and "env_mem_offset env h1 (vq_desc_ptr q) (virtq_desc_mem_size (ucast (vq_num q))) = Inl e"
    and "\<And>h a. env_munmap env h a 0 \<noteq> 0"
  shows "\<exists>h'. virtq_create env sz False (Some None) h = Some (-1, Some None, h') \<and> live h' = live h1 \<and>
           live h1 = live h + virtq_mappings env False (ucast sz) q"
proof -
  have "vq_num q = 0 \<and> live h1 = live h + virtq_mappings env False (ucast sz) q"
    using assms(1,3)
    by (auto simp: virtq_create_modern_def virtq_unmap_vq_desc_def virtq_unmap_vq_avail_def virtq0_def
        place_defs virtq_mappings_def Let_def split: sum.splits)
  then show ?thesis
    using assms(2-5)
    by (simp add: virtq_create_def destroy_hist_def virtq_destroy_modern_def virtq_desc_mem_size_def)
qed

theorem virtq_create_leaks_witness:
  "\<exists>h' q. virtq_create (env0\<lparr> env_mem_offset := \<lambda>h a n. Inl EINVAL, env_munmap := \<lambda>h a n. if n = 0 then EINVAL else 0 \<rparr>)
     4 False (Some None) [] = Some (-1, Some None, h') \<and> live h' = virtq_mappings env0 False 4 q"
proof -
  let ?env = "env0\<lparr> env_mem_offset := \<lambda>h a n. Inl EINVAL, env_munmap := \<lambda>h a n. if n = 0 then EINVAL else 0 \<rparr>"
  let ?h = "[Calloc 1 ''struct virtq'' (Inr 4096)]"
  obtain rc q h1 where run: "virtq_create_modern ?env (virtq0 4096) (ucast (4::size_t)) ?h = (rc, q, h1)"
    by (cases "virtq_create_modern ?env (virtq0 4096) (ucast (4::size_t)) ?h") auto
  then have "rc = EOK"
    by (simp add: virtq_create_modern_def Let_def)
  with run have mod: "virtq_create_modern ?env (virtq0 4096) (ucast (4::size_t)) ?h = (EOK, q, h1)" by simp
  have "errnos_ok ?env" by (simp add: errnos_ok_def)
  from virtq_create_leaks [OF this _ mod, of EINVAL] show ?thesis
    by (auto simp: virtq_mappings_def)
qed

text \<open>
  \<open>virtq_create\<close> can report success without a queue. If everything succeeds but the spin lock
  of the free list, the loop that fills the list gives up and \<open>rc\<close> still holds the \<open>EOK\<close> of
  \<open>fifo_create\<close>: the caller sees \<open>EOK\<close> and an output pointer that was never written.
\<close>

theorem virtq_create_false_success:
  assumes "calls_ok env" and "\<And>h l. env_spin_lock env h l \<noteq> EOK"
    and "sz \<noteq> 0" and "unat (env_fifo_hdr env) + unat sz * 2 < 2 ^ 64"
  shows "\<exists>h'. virtq_create env sz legacy (Some None) h = Some (EOK, Some None, h')"
proof -
  obtain finish undone l f h1 where run: "virtq_create env sz legacy (Some None) h =
       (case virtq_fill env sz f 0 h1 of
          None \<Rightarrow> None
        | Some (filled, f', h2) \<Rightarrow>
            if filled then Some (EOK, Some (Some (finish f')), SpinInit l EOK # h2)
            else Some (EOK, Some None, fifo_hist env legacy (undone f') h2))"
    using virtq_create_to_fill [OF assms(1,4)] by blast
  obtain h2 where "virtq_fill env sz f 0 h1 = Some (False, f, h2)"
    using virtq_fill_lock_error [OF assms(3,2)] by blast
  with run show ?thesis by simp
qed

theorem virtq_create_false_success_witness:
  "\<exists>h'. virtq_create (env0\<lparr> env_malloc := \<lambda>h n. 64, env_spin_lock := \<lambda>h l. EINVAL \<rparr>) 4 True (Some None) [] =
     Some (EOK, Some None, h')"
  by (rule virtq_create_false_success) (simp_all add: calls_ok_def)

end
