(* ===== verification/Virtio.thy ===== *)
theory Virtio
  imports Virtq_Create
begin

text \<open>
  \<^verbatim>\<open>src/virtio/virtio.h\<close> and \<^verbatim>\<open>src/virtio/virtio.c\<close>: the transport-independent device. The table of
  transport operations is a record of functions; the device calls through it. The theory models
  the device's operations with their locking, the polling loops of the two resets, the creation of
  a queue and the interrupt thread. The locale \<open>transport\<close> states what the device needs of a
  transport; the lemmas about the device are proved in it and hold for both transports.
\<close>

section \<open>Constants and structures\<close>

definition VIRTIO_DEVICE_STATUS_ACKNOWLEDGE :: u8 where "VIRTIO_DEVICE_STATUS_ACKNOWLEDGE = 1"
definition VIRTIO_DEVICE_STATUS_DRIVER :: u8 where "VIRTIO_DEVICE_STATUS_DRIVER = 2"
definition VIRTIO_DEVICE_STATUS_DRIVER_OK :: u8 where "VIRTIO_DEVICE_STATUS_DRIVER_OK = 4"
definition VIRTIO_DEVICE_STATUS_FEATURES_OK :: u8 where "VIRTIO_DEVICE_STATUS_FEATURES_OK = 8"

text \<open>
  \<open>struct virtio_device\<close> in two parts: the fields the transports use, with \<open>'p\<close> the type of the
  private data (\<open>None\<close> a null pointer), and the table of operations, \<open>None\<close> while its entries are
  null pointers. Both initialisers fill the whole table at once.
\<close>

record 'p vdev_base =
  vd_self :: ptr
  vd_legacy :: bool
  vd_device_reset_timeout_ms :: u32
  vd_device_reset_poll_interval_ms :: u32
  vd_queue_reset_timeout_ms :: u32
  vd_queue_reset_poll_interval_ms :: u32
  vd_irq :: int
  vd_priv :: "'p option"

text \<open>A driver's callback works on a state \<open>'s\<close>, which holds the queue.\<close>

type_synonym 's callback = "'s \<Rightarrow> hist \<Rightarrow> (rc \<times> 's \<times> hist) option"

record ('p, 's) virtio_ops =
  op_read_device_features ::
    "env \<Rightarrow> 'p vdev_base option \<Rightarrow> u32 list cell \<Rightarrow> size_t \<Rightarrow> hist \<Rightarrow> (rc \<times> u32 list cell \<times> hist) option"
  op_write_driver_features ::
    "env \<Rightarrow> 'p vdev_base option \<Rightarrow> u32 list cell \<Rightarrow> size_t \<Rightarrow> hist \<Rightarrow> (rc \<times> hist) option"
  op_set_device_status :: "env \<Rightarrow> 'p vdev_base option \<Rightarrow> u8 \<Rightarrow> hist \<Rightarrow> rc \<times> hist"
  op_get_device_status :: "env \<Rightarrow> 'p vdev_base option \<Rightarrow> u8 cell \<Rightarrow> hist \<Rightarrow> rc \<times> u8 cell \<times> hist"
  op_reset_device :: "env \<Rightarrow> 'p vdev_base option \<Rightarrow> hist \<Rightarrow> rc \<times> hist"
  op_read_device_config ::
    "env \<Rightarrow> 'p vdev_base option \<Rightarrow> u32 list cell \<Rightarrow> size_t \<Rightarrow> size_t \<Rightarrow> hist \<Rightarrow> (rc \<times> u32 list cell \<times> hist) option"
  op_set_queue_addr :: "env \<Rightarrow> 'p vdev_base \<Rightarrow> virtq option \<Rightarrow> hist \<Rightarrow> (rc \<times> hist) option"
  op_select_queue :: "env \<Rightarrow> 'p vdev_base option \<Rightarrow> u16 \<Rightarrow> hist \<Rightarrow> rc \<times> hist"
  op_notify_queue :: "env \<Rightarrow> 'p vdev_base option \<Rightarrow> u16 \<Rightarrow> hist \<Rightarrow> rc \<times> hist"
  op_enable_queue :: "env \<Rightarrow> 'p vdev_base option \<Rightarrow> bool \<Rightarrow> hist \<Rightarrow> rc \<times> hist"
  op_set_queue_reset :: "env \<Rightarrow> 'p vdev_base option \<Rightarrow> hist \<Rightarrow> rc \<times> hist"
  op_get_queue_reset :: "env \<Rightarrow> 'p vdev_base option \<Rightarrow> u32 cell \<Rightarrow> hist \<Rightarrow> rc \<times> u32 cell \<times> hist"
  op_max_queue_size :: "env \<Rightarrow> 'p vdev_base option \<Rightarrow> u16 cell \<Rightarrow> hist \<Rightarrow> rc \<times> u16 cell \<times> hist"
  op_set_queue_size :: "env \<Rightarrow> 'p vdev_base option \<Rightarrow> u16 \<Rightarrow> hist \<Rightarrow> rc \<times> hist"
  op_virtq_callback ::
    "env \<Rightarrow> 'p vdev_base option \<Rightarrow> 's option \<Rightarrow> 's callback option \<Rightarrow> hist \<Rightarrow> (rc \<times> 's option \<times> hist) option"

record ('p, 's) virtio_device =
  vd_base :: "'p vdev_base"
  vd_ops :: "('p, 's) virtio_ops option"

abbreviation device_lock :: "('p, 's) virtio_device \<Rightarrow> lock" where
  "device_lock dev \<equiv> DeviceLock (vd_self (vd_base dev))"

section \<open>The inline calls through the table\<close>

definition virtio_read_device_features ::
  "env \<Rightarrow> ('p, 's) virtio_device \<Rightarrow> u32 list cell \<Rightarrow> size_t \<Rightarrow> hist \<Rightarrow> (rc \<times> u32 list cell \<times> hist) option" where
  "virtio_read_device_features env dev features cnt h = do {
     ops \<leftarrow> vd_ops dev;
     op_read_device_features ops env (Some (vd_base dev)) features cnt h
   }"

definition virtio_write_driver_features ::
  "env \<Rightarrow> ('p, 's) virtio_device \<Rightarrow> u32 list cell \<Rightarrow> size_t \<Rightarrow> hist \<Rightarrow> (rc \<times> hist) option" where
  "virtio_write_driver_features env dev features cnt h = do {
     ops \<leftarrow> vd_ops dev;
     op_write_driver_features ops env (Some (vd_base dev)) features cnt h
   }"

definition virtio_set_device_status ::
  "env \<Rightarrow> ('p, 's) virtio_device \<Rightarrow> u8 \<Rightarrow> hist \<Rightarrow> (rc \<times> hist) option" where
  "virtio_set_device_status env dev status h = do {
     ops \<leftarrow> vd_ops dev;
     Some (op_set_device_status ops env (Some (vd_base dev)) status h)
   }"

definition virtio_get_device_status ::
  "env \<Rightarrow> ('p, 's) virtio_device \<Rightarrow> u8 cell \<Rightarrow> hist \<Rightarrow> (rc \<times> u8 cell \<times> hist) option" where
  "virtio_get_device_status env dev status h = do {
     ops \<leftarrow> vd_ops dev;
     Some (op_get_device_status ops env (Some (vd_base dev)) status h)
   }"

definition virtio_read_device_config ::
  "env \<Rightarrow> ('p, 's) virtio_device \<Rightarrow> u32 list cell \<Rightarrow> size_t \<Rightarrow> size_t \<Rightarrow> hist \<Rightarrow> (rc \<times> u32 list cell \<times> hist) option" where
  "virtio_read_device_config env dev dst len offset h = do {
     ops \<leftarrow> vd_ops dev;
     op_read_device_config ops env (Some (vd_base dev)) dst len offset h
   }"

definition virtio_select_queue ::
  "env \<Rightarrow> ('p, 's) virtio_device \<Rightarrow> u16 \<Rightarrow> hist \<Rightarrow> (rc \<times> hist) option" where
  "virtio_select_queue env dev index h = do {
     ops \<leftarrow> vd_ops dev;
     Some (op_select_queue ops env (Some (vd_base dev)) index h)
   }"

definition virtio_set_queue_addr ::
  "env \<Rightarrow> ('p, 's) virtio_device \<Rightarrow> virtq option \<Rightarrow> hist \<Rightarrow> (rc \<times> hist) option" where
  "virtio_set_queue_addr env dev vq h = do {
     ops \<leftarrow> vd_ops dev;
     op_set_queue_addr ops env (vd_base dev) vq h
   }"

definition virtio_virtq_callback ::
  "env \<Rightarrow> ('p, 's) virtio_device \<Rightarrow> 's option \<Rightarrow> 's callback option \<Rightarrow> hist \<Rightarrow> (rc \<times> 's option \<times> hist) option" where
  "virtio_virtq_callback env dev s callback h = do {
     ops \<leftarrow> vd_ops dev;
     op_virtq_callback ops env (Some (vd_base dev)) s callback h
   }"

section \<open>Operations under the device lock\<close>

text \<open>
  \<open>virtio_add_device_status\<close>: \<open>current_status\<close> is an uninitialised local until it is read.
\<close>

definition virtio_add_device_status ::
  "env \<Rightarrow> ('p, 's) virtio_device option \<Rightarrow> u8 \<Rightarrow> hist \<Rightarrow> (rc \<times> hist) option" where
  "virtio_add_device_status env devp status h =
     (case devp of
        None \<Rightarrow> Some (EINVAL, h)
      | Some dev \<Rightarrow>
          let (rc, h) = spin_lock env (device_lock dev) h
          in if rc \<noteq> EOK then Some (rc, h)
          else do {
            (rc, cur, h) \<leftarrow> virtio_get_device_status env dev (Some (ucast (env_uninit env h))) h;
            (rc, h) \<leftarrow>
              (if rc \<noteq> EOK then Some (rc, h)
               else do { c \<leftarrow> cur; virtio_set_device_status env dev (c OR status) h });
            let (_, h) = spin_unlock env (device_lock dev) h
            in Some (rc, h)
          })"

text \<open>
  The seven operations on a queue share one shape: check the pointers, take the device lock,
  select the queue, run the transport's operation if that succeeded, release the lock and return
  the last code. \<open>out\<close> is the output argument, unit where there is none.
\<close>

definition with_queue ::
  "env \<Rightarrow> ('p, 's) virtio_device \<Rightarrow> u16 \<Rightarrow> 'o \<Rightarrow>
   (('p, 's) virtio_ops \<Rightarrow> hist \<Rightarrow> rc \<times> 'o \<times> hist) \<Rightarrow> hist \<Rightarrow> (rc \<times> 'o \<times> hist) option" where
  "with_queue env dev index out operation h =
     (let (rc, h) = spin_lock env (device_lock dev) h
      in if rc \<noteq> EOK then Some (rc, out, h)
      else do {
        (rc, h) \<leftarrow> virtio_select_queue env dev index h;
        (rc, out, h) \<leftarrow>
          (if rc \<noteq> EOK then Some (rc, out, h)
           else do { ops \<leftarrow> vd_ops dev; Some (operation ops h) });
        let (_, h) = spin_unlock env (device_lock dev) h
        in Some (rc, out, h)
      })"

definition no_out :: "rc \<times> hist \<Rightarrow> rc \<times> unit \<times> hist" where
  "no_out r = (case r of (rc, h) \<Rightarrow> (rc, (), h))"

definition virtio_set_queue_reset ::
  "env \<Rightarrow> ('p, 's) virtio_device option \<Rightarrow> u16 \<Rightarrow> hist \<Rightarrow> (rc \<times> hist) option" where
  "virtio_set_queue_reset env devp index h =
     (case devp of
        None \<Rightarrow> Some (EINVAL, h)
      | Some dev \<Rightarrow> do {
          (rc, _, h) \<leftarrow> with_queue env dev index ()
            (\<lambda>ops h. no_out (op_set_queue_reset ops env (Some (vd_base dev)) h)) h;
          Some (rc, h)
        })"

definition virtio_get_queue_reset ::
  "env \<Rightarrow> ('p, 's) virtio_device option \<Rightarrow> u16 \<Rightarrow> u32 cell \<Rightarrow> hist \<Rightarrow> (rc \<times> u32 cell \<times> hist) option" where
  "virtio_get_queue_reset env devp index queue_reset h =
     (case (devp, queue_reset) of
        (Some dev, Some _) \<Rightarrow>
          with_queue env dev index queue_reset
            (\<lambda>ops h. op_get_queue_reset ops env (Some (vd_base dev)) queue_reset h) h
      | _ \<Rightarrow> Some (EINVAL, queue_reset, h))"

definition virtio_notify_queue ::
  "env \<Rightarrow> ('p, 's) virtio_device option \<Rightarrow> u16 \<Rightarrow> hist \<Rightarrow> (rc \<times> hist) option" where
  "virtio_notify_queue env devp index h =
     (case devp of
        None \<Rightarrow> Some (EINVAL, h)
      | Some dev \<Rightarrow> do {
          (rc, _, h) \<leftarrow> with_queue env dev index ()
            (\<lambda>ops h. no_out (op_notify_queue ops env (Some (vd_base dev)) index h)) h;
          Some (rc, h)
        })"

definition virtio_enable_queue ::
  "env \<Rightarrow> ('p, 's) virtio_device option \<Rightarrow> u16 \<Rightarrow> bool \<Rightarrow> hist \<Rightarrow> (rc \<times> hist) option" where
  "virtio_enable_queue env devp index enable h =
     (case devp of
        None \<Rightarrow> Some (EINVAL, h)
      | Some dev \<Rightarrow> do {
          (rc, _, h) \<leftarrow> with_queue env dev index ()
            (\<lambda>ops h. no_out (op_enable_queue ops env (Some (vd_base dev)) enable h)) h;
          Some (rc, h)
        })"

definition virtio_max_queue_size ::
  "env \<Rightarrow> ('p, 's) virtio_device option \<Rightarrow> u16 \<Rightarrow> u16 cell \<Rightarrow> hist \<Rightarrow> (rc \<times> u16 cell \<times> hist) option" where
  "virtio_max_queue_size env devp index sz h =
     (case (devp, sz) of
        (Some dev, Some _) \<Rightarrow>
          with_queue env dev index sz (\<lambda>ops h. op_max_queue_size ops env (Some (vd_base dev)) sz h) h
      | _ \<Rightarrow> Some (EINVAL, sz, h))"

definition virtio_set_queue_size ::
  "env \<Rightarrow> ('p, 's) virtio_device option \<Rightarrow> u16 \<Rightarrow> u16 \<Rightarrow> hist \<Rightarrow> (rc \<times> hist) option" where
  "virtio_set_queue_size env devp index sz h =
     (case devp of
        None \<Rightarrow> Some (EINVAL, h)
      | Some dev \<Rightarrow> do {
          (rc, _, h) \<leftarrow> with_queue env dev index ()
            (\<lambda>ops h. no_out (op_set_queue_size ops env (Some (vd_base dev)) sz h)) h;
          Some (rc, h)
        })"

section \<open>Resets\<close>

text \<open>
  \<open>delay\<close> returns the milliseconds it did not sleep; the inner loops sleep until none are left.
  They and the polling loops may run for ever: \<open>None\<close>.
\<close>

partial_function (option) delay_all :: "env \<Rightarrow> u32 \<Rightarrow> hist \<Rightarrow> hist option" where
  "delay_all env remaining_poll_interval_ms h =
     (if 0 < remaining_poll_interval_ms
      then delay_all env (fst (delay env remaining_poll_interval_ms h)) (snd (delay env remaining_poll_interval_ms h))
      else Some h)"

partial_function (option) virtio_reset_device_poll ::
  "env \<Rightarrow> ('p, 's) virtio_device \<Rightarrow> u32 \<Rightarrow> u8 \<Rightarrow> hist \<Rightarrow> (rc \<times> hist) option" where
  "virtio_reset_device_poll env dev remaining_timeout_ms device_status h =
     (if device_status \<noteq> 0 \<and> 0 < remaining_timeout_ms then
        Option.bind (delay_all env (vd_device_reset_poll_interval_ms (vd_base dev)) h) (\<lambda>h.
          Option.bind (virtio_get_device_status env dev (Some device_status) h) (\<lambda>r.
            if fst r \<noteq> EOK then Some (fst r, snd (snd r))
            else Option.bind (fst (snd r)) (\<lambda>status.
              virtio_reset_device_poll env dev
                (remaining_timeout_ms - min remaining_timeout_ms (vd_device_reset_poll_interval_ms (vd_base dev)))
                status (snd (snd r)))))
      else Some (if device_status = 0 then EOK else ETIMEDOUT, h))"

definition virtio_reset_device :: "env \<Rightarrow> ('p, 's) virtio_device \<Rightarrow> hist \<Rightarrow> (rc \<times> hist) option" where
  "virtio_reset_device env dev h = do {
     ops \<leftarrow> vd_ops dev;
     let (rc, h) = op_reset_device ops env (Some (vd_base dev)) h
     in if rc \<noteq> EOK then Some (rc, h)
     else do {
       (rc, status, h) \<leftarrow> virtio_get_device_status env dev (Some (ucast (env_uninit env h))) h;
       (if rc \<noteq> EOK then Some (rc, h)
        else do {
          status \<leftarrow> status;
          virtio_reset_device_poll env dev (vd_device_reset_timeout_ms (vd_base dev)) status h
        })
     }
   }"

text \<open>
  The loop of \<open>virtio_reset_queue\<close> sleeps for the poll interval of the device reset and counts
  down the one of the queue reset.
\<close>

partial_function (option) virtio_reset_queue_poll ::
  "env \<Rightarrow> ('p, 's) virtio_device \<Rightarrow> u16 \<Rightarrow> u32 \<Rightarrow> u32 \<Rightarrow> hist \<Rightarrow> (rc \<times> hist) option" where
  "virtio_reset_queue_poll env dev index remaining_timeout_ms queue_reset h =
     (if queue_reset \<noteq> 0 \<and> 0 < remaining_timeout_ms then
        Option.bind (delay_all env (vd_device_reset_poll_interval_ms (vd_base dev)) h) (\<lambda>h.
          Option.bind (virtio_get_queue_reset env (Some dev) index (Some queue_reset) h) (\<lambda>r.
            if fst r \<noteq> EOK then Some (fst r, snd (snd r))
            else Option.bind (fst (snd r)) (\<lambda>queue_reset.
              virtio_reset_queue_poll env dev index
                (remaining_timeout_ms - min remaining_timeout_ms (vd_queue_reset_poll_interval_ms (vd_base dev)))
                queue_reset (snd (snd r)))))
      else Some (if queue_reset = 0 then EOK else ETIMEDOUT, h))"

text \<open>The local \<open>queue_reset\<close> is read before it is first written: its value is indeterminate.\<close>

definition virtio_reset_queue ::
  "env \<Rightarrow> ('p, 's) virtio_device option \<Rightarrow> u16 \<Rightarrow> hist \<Rightarrow> (rc \<times> hist) option" where
  "virtio_reset_queue env devp index h =
     (case devp of
        None \<Rightarrow> Some (EINVAL, h)
      | Some dev \<Rightarrow>
          let queue_reset = ucast (env_uninit env h);
              remaining_timeout_ms = vd_queue_reset_timeout_ms (vd_base dev)
          in do {
            (rc, h) \<leftarrow> virtio_set_queue_reset env (Some dev) index h;
            (if rc \<noteq> EOK then Some (rc, h)
             else virtio_reset_queue_poll env dev index remaining_timeout_ms queue_reset h)
          })"

section \<open>Creating a queue, and the interrupt thread\<close>

text \<open>The object handed to the interrupt thread; pointers by address.\<close>

record virtio_interrupt =
  intr_dev :: ptr
  intr_vq :: ptr
  intr_irq :: int

text \<open>
  \<open>callback\<close> is only checked for a null pointer here. \<open>vq\<close> is the output argument; \<open>*vq\<close> is read back
  after \<open>virtq_create\<close> returned \<open>EOK\<close>. The memory for the interrupt object is written without a
  check for a null pointer. The result of \<open>pthread_create\<close> is not used.
\<close>

definition virtio_create_queue ::
  "env \<Rightarrow> ('p, 's) virtio_device option \<Rightarrow> u16 \<Rightarrow> u16 \<Rightarrow> int \<Rightarrow> 's callback option \<Rightarrow> virtq option cell \<Rightarrow> hist \<Rightarrow>
   (rc \<times> virtq option cell \<times> virtio_interrupt option \<times> hist) option" where
  "virtio_create_queue env devp index sz irq callback vq h =
     (case (devp, callback, vq) of
        (Some dev, Some _, Some _) \<Rightarrow> do {
          (_, queue_size, h) \<leftarrow> virtio_max_queue_size env (Some dev) index (Some (ucast (env_uninit env h))) h;
          queue_size \<leftarrow> queue_size;
          let queue_size = (if sz = 0 then queue_size else min sz queue_size)
          in if queue_size = 0 then Some (ENODEV, vq, None, h)
          else do {
            (rc, vq, h) \<leftarrow> virtq_create env (ucast queue_size) (vd_legacy (vd_base dev)) vq h;
            (if rc \<noteq> EOK then Some (rc, vq, None, h)
             else do {
               (rc, h) \<leftarrow> virtio_reset_queue env (Some dev) index h;
               (if rc \<noteq> EOK then Some (rc, vq, None, h)
                else do {
                  (rc, h) \<leftarrow> virtio_set_queue_size env (Some dev) index sz h;
                  (if rc \<noteq> EOK then Some (rc, vq, None, h)
                   else do {
                     q \<leftarrow> vq;
                     (rc, h) \<leftarrow> virtio_set_queue_addr env dev q h;
                     (if rc \<noteq> EOK then Some (rc, vq, None, h)
                      else
                        let (r, h) = calloc env 1 ''struct virtio_interrupt'' h
                        in case r of
                             Inl _ \<Rightarrow> None
                           | Inr p \<Rightarrow>
                               let intr = \<lparr> intr_dev = vd_self (vd_base dev),
                                            intr_vq = (case q of None \<Rightarrow> 0 | Some q \<Rightarrow> vq_self q),
                                            intr_irq = irq \<rparr>;
                                   h = ThreadCreate p (intr_dev intr) (intr_vq intr) irq # h
                               in Some (EOK, vq, Some intr, h))
                   })
                })
             })
          }
        }
      | _ \<Rightarrow> Some (EINVAL, vq, None, h))"

text \<open>
  The thread: attach to the interrupt, then for ever unmask, wait, and run the callback through
  the transport. One turn of the loop is a function; \<open>virtio_ist\<close> makes \<open>n\<close> turns.
\<close>

definition virtio_ist_turn ::
  "env \<Rightarrow> ('p, 's) virtio_device \<Rightarrow> int \<Rightarrow> int \<Rightarrow> 's callback \<Rightarrow> 's \<Rightarrow> hist \<Rightarrow> ('s \<times> hist) option" where
  "virtio_ist_turn env dev irq iid callback s h =
     (let h = InterruptUnmask irq iid # h;
          h = InterruptWait # h
      in do {
        (_, s, h) \<leftarrow> virtio_virtq_callback env dev (Some s) (Some callback) h;
        s \<leftarrow> s;
        Some (s, h)
      })"

fun virtio_ist_turns ::
  "nat \<Rightarrow> env \<Rightarrow> ('p, 's) virtio_device \<Rightarrow> int \<Rightarrow> int \<Rightarrow> 's callback \<Rightarrow> 's \<Rightarrow> hist \<Rightarrow> ('s \<times> hist) option" where
  "virtio_ist_turns 0 env dev irq iid callback s h = Some (s, h)"
| "virtio_ist_turns (Suc n) env dev irq iid callback s h = do {
     (s, h) \<leftarrow> virtio_ist_turn env dev irq iid callback s h;
     virtio_ist_turns n env dev irq iid callback s h
   }"

definition virtio_ist ::
  "nat \<Rightarrow> env \<Rightarrow> ('p, 's) virtio_device \<Rightarrow> int \<Rightarrow> 's callback \<Rightarrow> 's \<Rightarrow> hist \<Rightarrow> ('s \<times> hist) option" where
  "virtio_ist n env dev irq callback s h =
     (let iid = env_interrupt_attach env h irq; h = InterruptAttach irq iid # h
      in if iid = -1 then Some (s, h) else virtio_ist_turns n env dev irq iid callback s h)"

text \<open>The loop of both transports' interrupt callback: \<open>do rc = callback(dev, vq); while (rc == EOK)\<close>.\<close>

partial_function (option) repeat_callback ::
  "('s \<Rightarrow> hist \<Rightarrow> (rc \<times> 's \<times> hist) option) \<Rightarrow> 's \<Rightarrow> hist \<Rightarrow> (rc \<times> 's \<times> hist) option" where
  "repeat_callback callback s h =
     Option.bind (callback s h) (\<lambda>r.
       if fst r = EOK then repeat_callback callback (fst (snd r)) (snd (snd r)) else Some r)"

section \<open>The device object\<close>

text \<open>
  A failing lock initialisation is logged; the object is stored all the same and the code of
  the failure is returned.
\<close>

definition virtio_init ::
  "env \<Rightarrow> ('p, 's) virtio_device option cell \<Rightarrow> hist \<Rightarrow> rc \<times> ('p, 's) virtio_device option cell \<times> hist" where
  "virtio_init env dev h =
     (if dev = None then (EINVAL, dev, h)
      else
        let (r, h) = calloc env 1 ''struct virtio_device'' h
        in case r of
             Inl e \<Rightarrow> (e, dev, h)
           | Inr p \<Rightarrow>
               let (rc, h) = spin_init env (DeviceLock p) h
               in (rc,
                   Some (Some \<lparr> vd_base =
                     \<lparr> vd_self = p, vd_legacy = False, vd_device_reset_timeout_ms = 500,
                       vd_device_reset_poll_interval_ms = 10, vd_queue_reset_timeout_ms = 500,
                       vd_queue_reset_poll_interval_ms = 10, vd_irq = 0, vd_priv = None \<rparr>,
                     vd_ops = None \<rparr>), h))"

definition virtio_destroy :: "env \<Rightarrow> ('p, 's) virtio_device option \<Rightarrow> hist \<Rightarrow> rc \<times> hist" where
  "virtio_destroy env devp h =
     (case devp of
        None \<Rightarrow> (EINVAL, h)
      | Some dev \<Rightarrow>
          let (rc, h) = spin_destroy env (device_lock dev) h
          in if rc \<noteq> EOK then (rc, h)
          else let h = free (vd_self (vd_base dev)) h in (EOK, h))"


section \<open>Sleeping\<close>

lemma delay_all_total:
  assumes "delays_ok env"
  shows "\<exists>es. delay_all env ms h = Some (es @ h) \<and> list_all is_delay es"
proof (induction "unat ms" arbitrary: ms h rule: less_induct)
  case less
  show ?case
  proof (cases "0 < ms")
    case True
    let ?r = "env_delay env h ms"
    have "unat ?r < unat ms"
      using assms True by (simp add: delays_ok_def word_less_nat_alt)
    from less.hyps [OF this] obtain es where
      es: "delay_all env ?r (Delay ms ?r # h) = Some (es @ Delay ms ?r # h)" "list_all is_delay es"
      by blast
    have "delay_all env ms h = Some ((es @ [Delay ms ?r]) @ h)"
      using True es(1) by (subst delay_all.simps) simp
    moreover have "list_all is_delay (es @ [Delay ms ?r])" using es(2) by simp
    ultimately show ?thesis by blast
  next
    case False
    then have "delay_all env ms h = Some ([] @ h)" by (subst delay_all.simps) simp
    then show ?thesis by (intro exI [of _ "[]"]) simp
  qed
qed

section \<open>The interface of a transport\<close>

text \<open>
  What the device relies on. On a device that is \<open>ready\<close>, every operation returns \<open>EOK\<close> and does
  nothing but access registers; the parameters say which accesses, newest first. The three
  queries also give the value that they read.
\<close>

locale transport =
  fixes ops :: "('p, 's) virtio_ops"
    and ready :: "'p vdev_base \<Rightarrow> bool"
    and rd_status :: "env \<Rightarrow> 'p vdev_base \<Rightarrow> hist \<Rightarrow> u8 \<times> event"
    and wr_status :: "'p vdev_base \<Rightarrow> u8 \<Rightarrow> hist"
    and wr_select :: "'p vdev_base \<Rightarrow> u16 \<Rightarrow> hist"
    and wr_notify :: "env \<Rightarrow> 'p vdev_base \<Rightarrow> u16 \<Rightarrow> hist \<Rightarrow> hist"
    and wr_enable :: "'p vdev_base \<Rightarrow> bool \<Rightarrow> hist"
    and wr_size :: "'p vdev_base \<Rightarrow> u16 \<Rightarrow> hist"
    and wr_reset :: "'p vdev_base \<Rightarrow> hist"
    and rd_reset :: "env \<Rightarrow> 'p vdev_base \<Rightarrow> hist \<Rightarrow> u32 \<times> event"
    and rd_max :: "env \<Rightarrow> 'p vdev_base \<Rightarrow> hist \<Rightarrow> u16 \<times> event"
  assumes get_status: "ready b \<Longrightarrow> op_get_device_status ops env (Some b) (Some v0) h =
      (EOK, Some (fst (rd_status env b h)), snd (rd_status env b h) # h)"
    and set_status: "ready b \<Longrightarrow> op_set_device_status ops env (Some b) st h = (EOK, wr_status b st @ h)"
    and reset: "ready b \<Longrightarrow> op_reset_device ops env (Some b) h = (EOK, wr_status b 0 @ h)"
    and select: "ready b \<Longrightarrow> op_select_queue ops env (Some b) i h = (EOK, wr_select b i @ h)"
    and notify: "ready b \<Longrightarrow> op_notify_queue ops env (Some b) i h = (EOK, wr_notify env b i h @ h)"
    and enable: "ready b \<Longrightarrow> op_enable_queue ops env (Some b) en h = (EOK, wr_enable b en @ h)"
    and set_size: "ready b \<Longrightarrow> op_set_queue_size ops env (Some b) n h = (EOK, wr_size b n @ h)"
    and queue_reset: "ready b \<Longrightarrow> op_set_queue_reset ops env (Some b) h = (EOK, wr_reset b @ h)"
    and get_reset: "ready b \<Longrightarrow> op_get_queue_reset ops env (Some b) (Some v1) h =
      (EOK, Some (fst (rd_reset env b h)), snd (rd_reset env b h) # h)"
    and max_size: "ready b \<Longrightarrow> op_max_queue_size ops env (Some b) (Some v2) h =
      (EOK, Some (fst (rd_max env b h)), snd (rd_max env b h) # h)"
    and status_reads: "is_read (snd (rd_status env b h))"
    and reset_reads: "is_read (snd (rd_reset env b h))"
    and max_reads: "is_read (snd (rd_max env b h))"
    and regs: "list_all is_reg (wr_status b st)" "list_all is_reg (wr_select b i)"
      "list_all is_reg (wr_notify env b i h)" "list_all is_reg (wr_enable b en)"
      "list_all is_reg (wr_size b n)" "list_all is_reg (wr_reset b)"
begin

lemma read_is_reg: "is_read e \<Longrightarrow> is_reg e"
  by (cases e) simp_all

lemma with_queue_run:
  assumes "vd_ops dev = Some ops" and "ready (vd_base dev)" and "env_spin_lock env h (device_lock dev) = EOK"
    and "\<And>h. operation ops h = (rc, out' h, f h @ h)"
  shows "with_queue env dev i out operation h =
           Some (rc, out' (wr_select (vd_base dev) i @ SpinLock (device_lock dev) 0 # h),
             critical env (device_lock dev)
               (\<lambda>h. let h = wr_select (vd_base dev) i @ h in f h @ h) h)"
  using assms select [OF assms(2)]
  by (simp add: with_queue_def virtio_select_queue_def critical_def Let_def)

lemma with_queue_lock_error:
  "env_spin_lock env h (device_lock dev) \<noteq> EOK \<Longrightarrow>
   with_queue env dev i out operation h =
     Some (env_spin_lock env h (device_lock dev), out,
           SpinLock (device_lock dev) (env_spin_lock env h (device_lock dev)) # h)"
  by (simp add: with_queue_def)

text \<open>Each operation on a queue selects the queue and acts in one critical section.\<close>

lemma notify_queue:
  assumes "vd_ops dev = Some ops" and "ready (vd_base dev)" and "env_spin_lock env h (device_lock dev) = EOK"
  shows "virtio_notify_queue env (Some dev) i h =
           Some (EOK, critical env (device_lock dev)
             (\<lambda>h. let h = wr_select (vd_base dev) i @ h in wr_notify env (vd_base dev) i h @ h) h)"
  using with_queue_run [OF assms, where rc = EOK and out' = "\<lambda>_. ()" and f = "wr_notify env (vd_base dev) i"
      and operation = "\<lambda>ops h. no_out (op_notify_queue ops env (Some (vd_base dev)) i h)"]
    notify [OF assms(2)]
  by (simp add: virtio_notify_queue_def no_out_def)

lemma enable_queue:
  assumes "vd_ops dev = Some ops" and "ready (vd_base dev)" and "env_spin_lock env h (device_lock dev) = EOK"
  shows "virtio_enable_queue env (Some dev) i en h =
           Some (EOK, critical env (device_lock dev)
             (\<lambda>h. wr_enable (vd_base dev) en @ wr_select (vd_base dev) i @ h) h)"
  using with_queue_run [OF assms, where rc = EOK and out' = "\<lambda>_. ()" and f = "\<lambda>_. wr_enable (vd_base dev) en"
      and operation = "\<lambda>ops h. no_out (op_enable_queue ops env (Some (vd_base dev)) en h)"]
    enable [OF assms(2)]
  by (simp add: virtio_enable_queue_def no_out_def)

lemma set_queue_size:
  assumes "vd_ops dev = Some ops" and "ready (vd_base dev)" and "env_spin_lock env h (device_lock dev) = EOK"
  shows "virtio_set_queue_size env (Some dev) i n h =
           Some (EOK, critical env (device_lock dev)
             (\<lambda>h. wr_size (vd_base dev) n @ wr_select (vd_base dev) i @ h) h)"
  using with_queue_run [OF assms, where rc = EOK and out' = "\<lambda>_. ()" and f = "\<lambda>_. wr_size (vd_base dev) n"
      and operation = "\<lambda>ops h. no_out (op_set_queue_size ops env (Some (vd_base dev)) n h)"]
    set_size [OF assms(2)]
  by (simp add: virtio_set_queue_size_def no_out_def)

lemma set_queue_reset:
  assumes "vd_ops dev = Some ops" and "ready (vd_base dev)" and "env_spin_lock env h (device_lock dev) = EOK"
  shows "virtio_set_queue_reset env (Some dev) i h =
           Some (EOK, critical env (device_lock dev)
             (\<lambda>h. wr_reset (vd_base dev) @ wr_select (vd_base dev) i @ h) h)"
  using with_queue_run [OF assms, where rc = EOK and out' = "\<lambda>_. ()" and f = "\<lambda>_. wr_reset (vd_base dev)"
      and operation = "\<lambda>ops h. no_out (op_set_queue_reset ops env (Some (vd_base dev)) h)"]
    queue_reset [OF assms(2)]
  by (simp add: virtio_set_queue_reset_def no_out_def)

lemma get_queue_reset:
  assumes "vd_ops dev = Some ops" and "ready (vd_base dev)" and "env_spin_lock env h (device_lock dev) = EOK"
  shows "virtio_get_queue_reset env (Some dev) i (Some v) h =
           Some (EOK, Some (fst (rd_reset env (vd_base dev) (wr_select (vd_base dev) i @ SpinLock (device_lock dev) 0 # h))),
             critical env (device_lock dev)
             (\<lambda>h. let h = wr_select (vd_base dev) i @ h in snd (rd_reset env (vd_base dev) h) # h) h)"
  using with_queue_run [OF assms, where rc = EOK and out' = "\<lambda>h. Some (fst (rd_reset env (vd_base dev) h))"
      and f = "\<lambda>h. [snd (rd_reset env (vd_base dev) h)]" and i = i
      and operation = "\<lambda>ops h. op_get_queue_reset ops env (Some (vd_base dev)) (Some v) h"]
    get_reset [OF assms(2)]
  by (simp add: virtio_get_queue_reset_def)

lemma max_queue_size:
  assumes "vd_ops dev = Some ops" and "ready (vd_base dev)" and "env_spin_lock env h (device_lock dev) = EOK"
  shows "virtio_max_queue_size env (Some dev) i (Some v) h =
           Some (EOK, Some (fst (rd_max env (vd_base dev) (wr_select (vd_base dev) i @ SpinLock (device_lock dev) 0 # h))),
             critical env (device_lock dev)
             (\<lambda>h. let h = wr_select (vd_base dev) i @ h in snd (rd_max env (vd_base dev) h) # h) h)"
  using with_queue_run [OF assms, where rc = EOK and out' = "\<lambda>h. Some (fst (rd_max env (vd_base dev) h))"
      and f = "\<lambda>h. [snd (rd_max env (vd_base dev) h)]" and i = i
      and operation = "\<lambda>ops h. op_max_queue_size ops env (Some (vd_base dev)) (Some v) h"]
    max_size [OF assms(2)]
  by (simp add: virtio_max_queue_size_def)

text \<open>Adding a status bit is one read-modify-write under the lock, which clears no bit.\<close>

lemma add_status:
  assumes "vd_ops dev = Some ops" and "ready (vd_base dev)" and "env_spin_lock env h (device_lock dev) = EOK"
  shows "virtio_add_device_status env (Some dev) st h =
           Some (EOK, critical env (device_lock dev)
             (\<lambda>h. let (v, e) = rd_status env (vd_base dev) h in wr_status (vd_base dev) (v OR st) @ e # h) h)"
  using assms get_status [OF assms(2)] set_status [OF assms(2)]
  by (simp add: virtio_add_device_status_def virtio_get_device_status_def virtio_set_device_status_def
      critical_def Let_def split_beta)

lemma add_status_lock_error:
  assumes "env_spin_lock env h (device_lock dev) \<noteq> EOK"
  shows "virtio_add_device_status env (Some dev) st h =
           Some (env_spin_lock env h (device_lock dev),
             SpinLock (device_lock dev) (env_spin_lock env h (device_lock dev)) # h)"
  using assms by (simp add: virtio_add_device_status_def)

text \<open>
  The polling loop of a device reset ends: the remaining time shrinks by the interval or the
  status has become 0. Its answer is the last status read.
\<close>

lemma reset_device_poll:
  assumes "vd_ops dev = Some ops" and "ready (vd_base dev)" and "delays_ok env"
    and "vd_device_reset_poll_interval_ms (vd_base dev) \<noteq> 0"
  shows "\<exists>rc es. virtio_reset_device_poll env dev remaining (fst (rd_status env (vd_base dev) h)) (snd (rd_status env (vd_base dev) h) # h) =
             Some (rc, es @ h) \<and> quiet h (es @ h) \<and>
             (\<exists>es'. es = snd (rd_status env (vd_base dev) (es' @ h)) # es' \<and>
                rc = (if fst (rd_status env (vd_base dev) (es' @ h)) = 0 then EOK else ETIMEDOUT)) \<and>
             reads es \<le> Suc ((unat remaining + (unat (vd_device_reset_poll_interval_ms (vd_base dev)) - 1))
                              div unat (vd_device_reset_poll_interval_ms (vd_base dev)))"
proof (induction "unat remaining" arbitrary: remaining h rule: less_induct)
  case less
  let ?b = "vd_base dev" and ?int = "vd_device_reset_poll_interval_ms (vd_base dev)"
  let ?st = "fst (rd_status env ?b h)" and ?e = "snd (rd_status env ?b h)"
  have int: "0 < unat ?int" using assms(4) by (simp add: unat_gt_0)
  have read: "quiet h (?e # h)" using status_reads by (intro quiet_reg disjI1 read_is_reg)
  show ?case
  proof (cases "?st \<noteq> 0 \<and> 0 < remaining")
    case False
    then have run: "virtio_reset_device_poll env dev remaining ?st (?e # h) =
        Some (if ?st = 0 then EOK else ETIMEDOUT, [?e] @ h)"
      by (subst virtio_reset_device_poll.simps) auto
    show ?thesis
      by (intro exI [of _ "if ?st = 0 then EOK else ETIMEDOUT"] exI [of _ "[?e]"])
        (use run read status_reads [of env ?b h] in auto)
  next
    case True
    let ?rem = "remaining - min remaining ?int"
    obtain ds where ds: "delay_all env ?int (?e # h) = Some (ds @ ?e # h)" "list_all is_delay ds"
      using delay_all_total [OF assms(3)] by blast
    let ?h = "ds @ ?e # h"
    have rem: "unat ?rem = unat remaining - unat ?int"
      by (simp add: min_def word_le_nat_alt unat_sub)
    then have lt: "unat ?rem < unat remaining" using True int by (simp add: word_less_nat_alt)
    obtain rc es where es: "virtio_reset_device_poll env dev ?rem (fst (rd_status env ?b ?h)) (snd (rd_status env ?b ?h) # ?h) =
          Some (rc, es @ ?h)" "quiet ?h (es @ ?h)"
        "\<exists>es'. es = snd (rd_status env ?b (es' @ ?h)) # es' \<and>
           rc = (if fst (rd_status env ?b (es' @ ?h)) = 0 then EOK else ETIMEDOUT)"
        "reads es \<le> Suc ((unat ?rem + (unat ?int - 1)) div unat ?int)"
      using less [OF lt, of ?h] by blast
    have "virtio_reset_device_poll env dev remaining ?st (?e # h) = Some (rc, (es @ ds @ [?e]) @ h)"
      using True ds(1) es(1) assms(1) get_status [OF assms(2)]
      by (subst virtio_reset_device_poll.simps) (simp add: virtio_get_device_status_def)
    moreover have "quiet h ((es @ ds @ [?e]) @ h)"
      using quiet_trans [OF read quiet_trans [OF quiet_delay_list [OF ds(2)] es(2)]] by simp
    moreover have "\<exists>es'. es @ ds @ [?e] = snd (rd_status env ?b (es' @ h)) # es' \<and>
           rc = (if fst (rd_status env ?b (es' @ h)) = 0 then EOK else ETIMEDOUT)"
    proof -
      obtain es' where "es = snd (rd_status env ?b (es' @ ?h)) # es'"
          "rc = (if fst (rd_status env ?b (es' @ ?h)) = 0 then EOK else ETIMEDOUT)" using es(3) by blast
      then show ?thesis by (intro exI [of _ "es' @ ds @ [?e]"]) simp
    qed
    moreover have "reads (es @ ds @ [?e]) \<le> Suc ((unat remaining + (unat ?int - 1)) div unat ?int)"
    proof -
      have "Suc ((unat ?rem + (unat ?int - 1)) div unat ?int) \<le> (unat remaining + (unat ?int - 1)) div unat ?int"
        unfolding rem using int True by (intro ceil_div_step) (simp_all add: word_less_nat_alt)
      then show ?thesis using es(4) ds(2) status_reads by simp
    qed
    ultimately show ?thesis by blast
  qed
qed

lemma reset_device:
  assumes "vd_ops dev = Some ops" and "ready (vd_base dev)" and "delays_ok env"
    and "vd_device_reset_poll_interval_ms (vd_base dev) \<noteq> 0"
  shows "\<exists>rc es. virtio_reset_device env dev h = Some (rc, es @ wr_status (vd_base dev) 0 @ h) \<and>
             quiet h (es @ wr_status (vd_base dev) 0 @ h) \<and>
             (\<exists>es'. es = snd (rd_status env (vd_base dev) (es' @ wr_status (vd_base dev) 0 @ h)) # es' \<and>
                rc = (if fst (rd_status env (vd_base dev) (es' @ wr_status (vd_base dev) 0 @ h)) = 0
                      then EOK else ETIMEDOUT)) \<and>
             reads es \<le> Suc ((unat (vd_device_reset_timeout_ms (vd_base dev)) +
                               (unat (vd_device_reset_poll_interval_ms (vd_base dev)) - 1))
                              div unat (vd_device_reset_poll_interval_ms (vd_base dev)))"
proof -
  let ?h = "wr_status (vd_base dev) 0 @ h"
  have q: "quiet h ?h" using regs(1) by (rule quiet_reg_list)
  have "virtio_reset_device env dev h =
      virtio_reset_device_poll env dev (vd_device_reset_timeout_ms (vd_base dev))
        (fst (rd_status env (vd_base dev) ?h)) (snd (rd_status env (vd_base dev) ?h) # ?h)"
    using assms(1) get_status [OF assms(2)] reset [OF assms(2)]
    by (simp add: virtio_reset_device_def virtio_get_device_status_def)
  then show ?thesis
    using reset_device_poll [OF assms, of "vd_device_reset_timeout_ms (vd_base dev)" ?h] quiet_trans [OF q]
    by auto
qed

text \<open>
  A queue reset does not wait when the indeterminate local happens to be 0: it reports success
  after the request, without one look at the device.
\<close>

lemma reset_queue_stale:
  assumes "vd_ops dev = Some ops" and "ready (vd_base dev)" and "env_spin_lock env h (device_lock dev) = EOK"
    and "(ucast (env_uninit env h) :: u32) = 0"
  shows "virtio_reset_queue env (Some dev) i h =
           Some (EOK, critical env (device_lock dev)
             (\<lambda>h. wr_reset (vd_base dev) @ wr_select (vd_base dev) i @ h) h)"
  using set_queue_reset [OF assms(1-3)] assms(4)
  by (simp add: virtio_reset_queue_def virtio_reset_queue_poll.simps)

end

end
