(* ===== verification/Virtio_Mmio.thy ===== *)
theory Virtio_Mmio
  imports Virtio
begin

text \<open>
  \<^verbatim>\<open>src/virtio_mmio/virtio_mmio.c\<close>: the memory-mapped transport. Every operation of the table,
  the interrupt callback and the initialiser are modelled down to the register accesses. The
  theory interprets the locale \<open>transport\<close>, so the lemmas about the device hold for it, and shows
  what initialisation and the queue address registers do.
\<close>

section \<open>Registers\<close>

definition VIRTIO_MMIO_MAGIC_VALUE :: u32 where "VIRTIO_MMIO_MAGIC_VALUE = 0x000"
definition VIRTIO_MMIO_VERSION :: u32 where "VIRTIO_MMIO_VERSION = 0x004"
definition VIRTIO_MMIO_DEVICE_ID :: u32 where "VIRTIO_MMIO_DEVICE_ID = 0x008"
definition VIRTIO_MMIO_DEVICE_FEATURES :: u32 where "VIRTIO_MMIO_DEVICE_FEATURES = 0x010"
definition VIRTIO_MMIO_DEVICE_FEATURES_SEL :: u32 where "VIRTIO_MMIO_DEVICE_FEATURES_SEL = 0x014"
definition VIRTIO_MMIO_DRIVER_FEATURES :: u32 where "VIRTIO_MMIO_DRIVER_FEATURES = 0x020"
definition VIRTIO_MMIO_DRIVER_FEATURES_SEL :: u32 where "VIRTIO_MMIO_DRIVER_FEATURES_SEL = 0x024"
definition VIRTIO_MMIO_GUEST_PAGE_SIZE :: u32 where "VIRTIO_MMIO_GUEST_PAGE_SIZE = 0x028"
definition VIRTIO_MMIO_QUEUE_SEL :: u32 where "VIRTIO_MMIO_QUEUE_SEL = 0x030"
definition VIRTIO_MMIO_QUEUE_SIZE_MAX :: u32 where "VIRTIO_MMIO_QUEUE_SIZE_MAX = 0x034"
definition VIRTIO_MMIO_QUEUE_SIZE :: u32 where "VIRTIO_MMIO_QUEUE_SIZE = 0x038"
definition VIRTIO_MMIO_QUEUE_PFN :: u32 where "VIRTIO_MMIO_QUEUE_PFN = 0x040"
definition VIRTIO_MMIO_QUEUE_READY :: u32 where "VIRTIO_MMIO_QUEUE_READY = 0x044"
definition VIRTIO_MMIO_QUEUE_NOTIFY :: u32 where "VIRTIO_MMIO_QUEUE_NOTIFY = 0x050"
definition VIRTIO_MMIO_INTERRUPT_STATUS :: u32 where "VIRTIO_MMIO_INTERRUPT_STATUS = 0x060"
definition VIRTIO_MMIO_INTERRUPT_ACK :: u32 where "VIRTIO_MMIO_INTERRUPT_ACK = 0x064"
definition VIRTIO_MMIO_STATUS :: u32 where "VIRTIO_MMIO_STATUS = 0x070"
definition VIRTIO_MMIO_QUEUE_DESC_LOW :: u32 where "VIRTIO_MMIO_QUEUE_DESC_LOW = 0x080"
definition VIRTIO_MMIO_QUEUE_DESC_HIGH :: u32 where "VIRTIO_MMIO_QUEUE_DESC_HIGH = 0x084"
definition VIRTIO_MMIO_QUEUE_DRIVER_LOW :: u32 where "VIRTIO_MMIO_QUEUE_DRIVER_LOW = 0x090"
definition VIRTIO_MMIO_QUEUE_DRIVER_HIGH :: u32 where "VIRTIO_MMIO_QUEUE_DRIVER_HIGH = 0x094"
definition VIRTIO_MMIO_QUEUE_DEVICE_LOW :: u32 where "VIRTIO_MMIO_QUEUE_DEVICE_LOW = 0x0a0"
definition VIRTIO_MMIO_QUEUE_DEVICE_HIGH :: u32 where "VIRTIO_MMIO_QUEUE_DEVICE_HIGH = 0x0a4"
definition VIRTIO_MMIO_QUEUE_RESET :: u32 where "VIRTIO_MMIO_QUEUE_RESET = 0x0c0"
definition VIRTIO_MMIO_CONFIG :: u32 where "VIRTIO_MMIO_CONFIG = 0x100"

definition VIRTIO_MMIO_VERSION_LEGACY :: u32 where "VIRTIO_MMIO_VERSION_LEGACY = 1"
definition VIRTIO_MMIO_INT_VIRTQ :: u32 where "VIRTIO_MMIO_INT_VIRTQ = 1"

record virtio_mmio_device =
  mmio_self :: ptr
  mmio_paddr :: u64
  mmio_vaddr :: u64
  mmio_pagesize :: u16

definition virtio_mmio_write32 :: "virtio_mmio_device \<Rightarrow> u32 \<Rightarrow> u32 \<Rightarrow> hist \<Rightarrow> hist" where
  "virtio_mmio_write32 m offset v h = reg_write (mmio_vaddr m + ucast offset) 4 (ucast v) h"

definition virtio_mmio_read32 :: "env \<Rightarrow> virtio_mmio_device \<Rightarrow> u32 \<Rightarrow> hist \<Rightarrow> u32 \<times> hist" where
  "virtio_mmio_read32 env m offset h =
     (let (v, h) = reg_read env (mmio_vaddr m + ucast offset) 4 h in (ucast v, h))"

type_synonym mmio_base = "virtio_mmio_device vdev_base"

section \<open>Operations\<close>

text \<open>
  The feature loops count with a \<open>uint32_t\<close>, so they do not end for counts above 2^32 - 1.
  \<open>features\<close> is the caller's array.
\<close>

fun virtio_mmio_read_features_from ::
  "env \<Rightarrow> virtio_mmio_device \<Rightarrow> nat \<Rightarrow> nat \<Rightarrow> u32 list \<Rightarrow> hist \<Rightarrow> (u32 list \<times> hist) option" where
  "virtio_mmio_read_features_from env m 0 sel features h = Some (features, h)"
| "virtio_mmio_read_features_from env m (Suc k) sel features h =
     (let h = virtio_mmio_write32 m VIRTIO_MMIO_DEVICE_FEATURES_SEL (of_nat sel) h;
          (v, h) = virtio_mmio_read32 env m VIRTIO_MMIO_DEVICE_FEATURES h
      in do {
        features \<leftarrow> arr_set features sel v;
        virtio_mmio_read_features_from env m k (Suc sel) features h
      })"

definition virtio_mmio_read_device_features ::
  "env \<Rightarrow> mmio_base option \<Rightarrow> u32 list cell \<Rightarrow> size_t \<Rightarrow> hist \<Rightarrow> (rc \<times> u32 list cell \<times> hist) option" where
  "virtio_mmio_read_device_features env dev features cnt h =
     (case (dev, features) of
        (Some d, Some fs) \<Rightarrow>
          (case vd_priv d of
             None \<Rightarrow> Some (EINVAL, features, h)
           | Some m \<Rightarrow>
               if 2 ^ 32 \<le> unat cnt then None
               else do {
                 (fs, h) \<leftarrow> virtio_mmio_read_features_from env m (unat cnt) 0 fs h;
                 Some (EOK, Some fs, h)
               })
      | _ \<Rightarrow> Some (EINVAL, features, h))"

fun virtio_mmio_write_features_from ::
  "virtio_mmio_device \<Rightarrow> nat \<Rightarrow> nat \<Rightarrow> u32 list \<Rightarrow> hist \<Rightarrow> hist option" where
  "virtio_mmio_write_features_from m 0 sel features h = Some h"
| "virtio_mmio_write_features_from m (Suc k) sel features h =
     (let h = virtio_mmio_write32 m VIRTIO_MMIO_DRIVER_FEATURES_SEL (of_nat sel) h
      in do {
        v \<leftarrow> arr_get features sel;
        let h = virtio_mmio_write32 m VIRTIO_MMIO_DRIVER_FEATURES v h
        in virtio_mmio_write_features_from m k (Suc sel) features h
      })"

definition virtio_mmio_write_driver_features ::
  "env \<Rightarrow> mmio_base option \<Rightarrow> u32 list cell \<Rightarrow> size_t \<Rightarrow> hist \<Rightarrow> (rc \<times> hist) option" where
  "virtio_mmio_write_driver_features env dev features cnt h =
     (case (dev, features) of
        (Some d, Some fs) \<Rightarrow>
          (case vd_priv d of
             None \<Rightarrow> Some (EINVAL, h)
           | Some m \<Rightarrow>
               if 2 ^ 32 \<le> unat cnt then None
               else do {
                 h \<leftarrow> virtio_mmio_write_features_from m (unat cnt) 0 fs h;
                 Some (EOK, h)
               })
      | _ \<Rightarrow> Some (EINVAL, h))"

text \<open>The shape of the writing operations: a null device or null private data gives \<open>EINVAL\<close>.\<close>

definition with_mdev :: "mmio_base option \<Rightarrow> (virtio_mmio_device \<Rightarrow> hist \<Rightarrow> hist) \<Rightarrow> hist \<Rightarrow> rc \<times> hist" where
  "with_mdev dev f h =
     (case dev of
        None \<Rightarrow> (EINVAL, h)
      | Some d \<Rightarrow> (case vd_priv d of None \<Rightarrow> (EINVAL, h) | Some m \<Rightarrow> let h = f m h in (EOK, h)))"

text \<open>The shape of the reading operations, which also check the output pointer.\<close>

definition with_mdev_out ::
  "mmio_base option \<Rightarrow> 'o cell \<Rightarrow> (virtio_mmio_device \<Rightarrow> hist \<Rightarrow> 'o \<times> hist) \<Rightarrow> hist \<Rightarrow> rc \<times> 'o cell \<times> hist" where
  "with_mdev_out dev out f h =
     (case (dev, out) of
        (Some d, Some _) \<Rightarrow>
          (case vd_priv d of
             None \<Rightarrow> (EINVAL, out, h)
           | Some m \<Rightarrow> let (v, h) = f m h in (EOK, Some v, h))
      | _ \<Rightarrow> (EINVAL, out, h))"

definition virtio_mmio_get_device_status ::
  "env \<Rightarrow> mmio_base option \<Rightarrow> u8 cell \<Rightarrow> hist \<Rightarrow> rc \<times> u8 cell \<times> hist" where
  "virtio_mmio_get_device_status env dev status h =
     with_mdev_out dev status
       (\<lambda>m h. let (v, h) = virtio_mmio_read32 env m VIRTIO_MMIO_STATUS h in (ucast (v AND 0xFF), h)) h"

definition virtio_mmio_set_device_status :: "env \<Rightarrow> mmio_base option \<Rightarrow> u8 \<Rightarrow> hist \<Rightarrow> rc \<times> hist" where
  "virtio_mmio_set_device_status env dev status h =
     with_mdev dev (\<lambda>m. virtio_mmio_write32 m VIRTIO_MMIO_STATUS (ucast status)) h"

definition virtio_mmio_reset_device :: "env \<Rightarrow> mmio_base option \<Rightarrow> hist \<Rightarrow> rc \<times> hist" where
  "virtio_mmio_reset_device env dev h = with_mdev dev (\<lambda>m. virtio_mmio_write32 m VIRTIO_MMIO_STATUS 0) h"

definition virtio_mmio_select_queue :: "env \<Rightarrow> mmio_base option \<Rightarrow> u16 \<Rightarrow> hist \<Rightarrow> rc \<times> hist" where
  "virtio_mmio_select_queue env dev index h =
     with_mdev dev (\<lambda>m. virtio_mmio_write32 m VIRTIO_MMIO_QUEUE_SEL (ucast index)) h"

definition virtio_mmio_notify_queue :: "env \<Rightarrow> mmio_base option \<Rightarrow> u16 \<Rightarrow> hist \<Rightarrow> rc \<times> hist" where
  "virtio_mmio_notify_queue env dev index h =
     with_mdev dev (\<lambda>m. virtio_mmio_write32 m VIRTIO_MMIO_QUEUE_NOTIFY (ucast index)) h"

definition virtio_mmio_enable_queue :: "env \<Rightarrow> mmio_base option \<Rightarrow> bool \<Rightarrow> hist \<Rightarrow> rc \<times> hist" where
  "virtio_mmio_enable_queue env dev enable h =
     with_mdev dev (\<lambda>m. virtio_mmio_write32 m VIRTIO_MMIO_QUEUE_READY (if enable then 1 else 0)) h"

definition virtio_mmio_set_queue_reset :: "env \<Rightarrow> mmio_base option \<Rightarrow> hist \<Rightarrow> rc \<times> hist" where
  "virtio_mmio_set_queue_reset env dev h =
     with_mdev dev (\<lambda>m. virtio_mmio_write32 m VIRTIO_MMIO_QUEUE_RESET 1) h"

definition virtio_mmio_get_queue_reset ::
  "env \<Rightarrow> mmio_base option \<Rightarrow> u32 cell \<Rightarrow> hist \<Rightarrow> rc \<times> u32 cell \<times> hist" where
  "virtio_mmio_get_queue_reset env dev v h =
     with_mdev_out dev v (\<lambda>m. virtio_mmio_read32 env m VIRTIO_MMIO_QUEUE_RESET) h"

definition virtio_mmio_max_queue_size ::
  "env \<Rightarrow> mmio_base option \<Rightarrow> u16 cell \<Rightarrow> hist \<Rightarrow> rc \<times> u16 cell \<times> hist" where
  "virtio_mmio_max_queue_size env dev sz h =
     with_mdev_out dev sz
       (\<lambda>m h. let (v, h) = virtio_mmio_read32 env m VIRTIO_MMIO_QUEUE_SIZE_MAX h in (ucast v, h)) h"

definition virtio_mmio_set_queue_size :: "env \<Rightarrow> mmio_base option \<Rightarrow> u16 \<Rightarrow> hist \<Rightarrow> rc \<times> hist" where
  "virtio_mmio_set_queue_size env dev sz h =
     with_mdev dev (\<lambda>m. virtio_mmio_write32 m VIRTIO_MMIO_QUEUE_SIZE (ucast sz)) h"

definition virtio_mmio_get_interrupt_status ::
  "env \<Rightarrow> mmio_base option \<Rightarrow> u32 cell \<Rightarrow> hist \<Rightarrow> rc \<times> u32 cell \<times> hist" where
  "virtio_mmio_get_interrupt_status env dev status h =
     with_mdev_out dev status (\<lambda>m. virtio_mmio_read32 env m VIRTIO_MMIO_INTERRUPT_STATUS) h"

definition virtio_mmio_set_interrupt_ack :: "env \<Rightarrow> mmio_base option \<Rightarrow> u32 \<Rightarrow> hist \<Rightarrow> rc \<times> hist" where
  "virtio_mmio_set_interrupt_ack env dev status h =
     with_mdev dev (\<lambda>m. virtio_mmio_write32 m VIRTIO_MMIO_INTERRUPT_ACK status) h"

text \<open>
  The destination of the configuration is an array of 32-bit words. The register offset is
  computed in \<open>size_t\<close> and passed as a \<open>uint32_t\<close>.
\<close>

fun virtio_mmio_read_config_from ::
  "env \<Rightarrow> virtio_mmio_device \<Rightarrow> size_t \<Rightarrow> nat \<Rightarrow> nat \<Rightarrow> u32 list \<Rightarrow> hist \<Rightarrow> (u32 list \<times> hist) option" where
  "virtio_mmio_read_config_from env m offset 0 i dst h = Some (dst, h)"
| "virtio_mmio_read_config_from env m offset (Suc k) i dst h =
     (let (v, h) = virtio_mmio_read32 env m (ucast (ucast VIRTIO_MMIO_CONFIG + offset + of_nat i * 4)) h
      in do {
        dst \<leftarrow> arr_set dst i v;
        virtio_mmio_read_config_from env m offset k (Suc i) dst h
      })"

definition virtio_mmio_read_device_config ::
  "env \<Rightarrow> mmio_base option \<Rightarrow> u32 list cell \<Rightarrow> size_t \<Rightarrow> size_t \<Rightarrow> hist \<Rightarrow> (rc \<times> u32 list cell \<times> hist) option" where
  "virtio_mmio_read_device_config env dev dst len offset h =
     (case (dev, dst) of
        (Some d, Some ws) \<Rightarrow>
          if len mod 4 \<noteq> 0 \<or> offset mod 4 \<noteq> 0 then Some (EINVAL, dst, h)
          else (case vd_priv d of
             None \<Rightarrow> Some (EINVAL, dst, h)
           | Some m \<Rightarrow>
               let wordc = len div 4
               in do {
                 (ws, h) \<leftarrow> virtio_mmio_read_config_from env m offset (unat wordc) 0 ws h;
                 Some (EOK, Some ws, h)
               })
      | _ \<Rightarrow> Some (EINVAL, dst, h))"

definition virtio_mmio_virtq_callback ::
  "env \<Rightarrow> mmio_base option \<Rightarrow> 's option \<Rightarrow> 's callback option \<Rightarrow> hist \<Rightarrow> (rc \<times> 's option \<times> hist) option" where
  "virtio_mmio_virtq_callback env dev vq callback h =
     (case (dev, vq, callback) of
        (Some _, Some s, Some cb) \<Rightarrow>
          let (rc, status, h) = virtio_mmio_get_interrupt_status env dev (Some (ucast (env_uninit env h))) h
          in if rc \<noteq> EOK then Some (rc, vq, h)
          else do {
            status \<leftarrow> status;
            let (rc, h) = (if status AND VIRTIO_MMIO_INT_VIRTQ \<noteq> 0
                           then virtio_mmio_set_interrupt_ack env dev VIRTIO_MMIO_INT_VIRTQ h
                           else (EOK, h))
            in if rc \<noteq> EOK then Some (rc, vq, h)
            else do {
              (rc, s, h) \<leftarrow> repeat_callback cb s h;
              Some (rc, Some s, h)
            }
          }
      | _ \<Rightarrow> Some (EINVAL, vq, h))"

text \<open>
  The queue's addresses. \<open>assert\<close> ends the program when it fails. A null \<open>priv\<close> is not checked.
\<close>

definition virtio_mmio_set_queue_addr ::
  "env \<Rightarrow> mmio_base \<Rightarrow> virtq option \<Rightarrow> hist \<Rightarrow> (rc \<times> hist) option" where
  "virtio_mmio_set_queue_addr env d vq h =
     (let (rc, paddr) = virtq_desc_paddr vq (Some (env_uninit env h))
      in if rc \<noteq> EOK then Some (rc, h)
      else do {
        paddr \<leftarrow> paddr;
        m \<leftarrow> vd_priv d;
        (if vd_legacy d then
           let pfn = drop_bit 12 paddr
           in if drop_bit 32 pfn \<noteq> 0 then None
           else let h = virtio_mmio_write32 m VIRTIO_MMIO_QUEUE_PFN (ucast pfn) h in Some (EOK, h)
         else
           let h = virtio_mmio_write32 m VIRTIO_MMIO_QUEUE_DESC_LOW (ucast (paddr AND 0xFFFFFFFF)) h;
               h = virtio_mmio_write32 m VIRTIO_MMIO_QUEUE_DESC_HIGH (ucast (drop_bit 32 paddr)) h;
               (rc, paddr) = virtq_avail_paddr vq (Some paddr)
           in if rc \<noteq> EOK then Some (rc, h)
           else do {
             paddr \<leftarrow> paddr;
             let h = virtio_mmio_write32 m VIRTIO_MMIO_QUEUE_DRIVER_LOW (ucast (paddr AND 0xFFFFFFFF)) h;
                 h = virtio_mmio_write32 m VIRTIO_MMIO_QUEUE_DRIVER_HIGH (ucast (drop_bit 32 paddr)) h;
                 (rc, paddr) = virtq_used_paddr vq (Some paddr)
             in if rc \<noteq> EOK then Some (rc, h)
             else do {
               paddr \<leftarrow> paddr;
               let h = virtio_mmio_write32 m VIRTIO_MMIO_QUEUE_DEVICE_LOW (ucast (paddr AND 0xFFFFFFFF)) h;
                   h = virtio_mmio_write32 m VIRTIO_MMIO_QUEUE_DEVICE_HIGH (ucast (drop_bit 32 paddr)) h
               in Some (EOK, h)
             }
           })
      })"

definition virtio_mmio_ops :: "(virtio_mmio_device, 's) virtio_ops" where
  "virtio_mmio_ops = \<lparr>
     op_read_device_features = virtio_mmio_read_device_features,
     op_write_driver_features = virtio_mmio_write_driver_features,
     op_set_device_status = virtio_mmio_set_device_status,
     op_get_device_status = virtio_mmio_get_device_status,
     op_reset_device = virtio_mmio_reset_device,
     op_read_device_config = virtio_mmio_read_device_config,
     op_set_queue_addr = virtio_mmio_set_queue_addr,
     op_select_queue = virtio_mmio_select_queue,
     op_notify_queue = virtio_mmio_notify_queue,
     op_enable_queue = virtio_mmio_enable_queue,
     op_set_queue_reset = virtio_mmio_set_queue_reset,
     op_get_queue_reset = virtio_mmio_get_queue_reset,
     op_max_queue_size = virtio_mmio_max_queue_size,
     op_set_queue_size = virtio_mmio_set_queue_size,
     op_virtq_callback = virtio_mmio_virtq_callback \<rparr>"

section \<open>Initialisation\<close>

text \<open>
  The labels \<open>free_mdev\<close> and \<open>free_vdev\<close> of \<open>virtio_mmio_init\<close>. The device object is returned with
  its fields as they were left, also when \<open>virtio_destroy\<close> has freed it.
\<close>

definition mmio_free_vdev ::
  "env \<Rightarrow> rc \<Rightarrow> (virtio_mmio_device, 's) virtio_device \<Rightarrow> hist \<Rightarrow> rc \<times> (virtio_mmio_device, 's) virtio_device \<times> hist" where
  "mmio_free_vdev env rc dev h = (let (_, h) = virtio_destroy env (Some dev) h in (rc, dev, h))"

definition mmio_free_mdev ::
  "env \<Rightarrow> rc \<Rightarrow> ptr \<Rightarrow> (virtio_mmio_device, 's) virtio_device \<Rightarrow> hist \<Rightarrow> rc \<times> (virtio_mmio_device, 's) virtio_device \<times> hist" where
  "mmio_free_mdev env rc mdev dev h = (let h = free mdev h in mmio_free_vdev env rc dev h)"

definition virtio_mmio_init ::
  "env \<Rightarrow> (virtio_mmio_device, 's) virtio_device \<Rightarrow> u64 \<Rightarrow> u16 \<Rightarrow> int \<Rightarrow> hist \<Rightarrow>
   rc \<times> (virtio_mmio_device, 's) virtio_device \<times> hist" where
  "virtio_mmio_init env dev address type irq h =
     (let (r, h) = calloc env 1 ''struct virtio_mmio_device'' h
      in case r of
           Inl _ \<Rightarrow> mmio_free_vdev env ENOMEM dev h
         | Inr p \<Rightarrow>
      let (r, h) = mmap64 env (Some address) 0x200 h
      in case r of
           Inl e \<Rightarrow> mmio_free_mdev env e p dev h
         | Inr vaddr \<Rightarrow>
      let m = \<lparr> mmio_self = p, mmio_paddr = address, mmio_vaddr = vaddr,
                mmio_pagesize = ucast (env_pagesize env) \<rparr>;
          dev = dev\<lparr> vd_base := vd_base dev\<lparr> vd_irq := irq, vd_priv := Some m \<rparr> \<rparr>;
          (magic, h) = virtio_mmio_read32 env m VIRTIO_MMIO_MAGIC_VALUE h
      in if magic \<noteq> 0x74726976 then mmio_free_mdev env ENODEV p dev h
      else
      let (version, h) = virtio_mmio_read32 env m VIRTIO_MMIO_VERSION h;
          dev = dev\<lparr> vd_base := vd_base dev\<lparr> vd_legacy := (version = VIRTIO_MMIO_VERSION_LEGACY) \<rparr> \<rparr>;
          (device_id, h) = virtio_mmio_read32 env m VIRTIO_MMIO_DEVICE_ID h
      in if device_id \<noteq> ucast type then mmio_free_mdev env ENODEV p dev h
      else
      let h = (if vd_legacy (vd_base dev)
               then virtio_mmio_write32 m VIRTIO_MMIO_GUEST_PAGE_SIZE (ucast (mmio_pagesize m)) h else h)
      in (EOK, dev\<lparr> vd_ops := Some virtio_mmio_ops \<rparr>, h))"

section \<open>The transport interface\<close>

definition mmio_ready :: "mmio_base \<Rightarrow> bool" where
  "mmio_ready b \<longleftrightarrow> vd_priv b \<noteq> None"

definition mmio_reg :: "mmio_base \<Rightarrow> u32 \<Rightarrow> u64" where
  "mmio_reg b offset = mmio_vaddr (the (vd_priv b)) + ucast offset"

text \<open>A store and a load of a register, as events.\<close>

definition mmio_wr :: "mmio_base \<Rightarrow> u32 \<Rightarrow> u32 \<Rightarrow> event" where
  "mmio_wr b offset v = RegWrite (mmio_reg b offset) 4 (ucast v)"

definition mmio_val :: "env \<Rightarrow> mmio_base \<Rightarrow> u32 \<Rightarrow> hist \<Rightarrow> u64" where
  "mmio_val env b offset h = take_bit 32 (env_reg env h (mmio_reg b offset) 4)"

definition mmio_rd :: "env \<Rightarrow> mmio_base \<Rightarrow> u32 \<Rightarrow> hist \<Rightarrow> event" where
  "mmio_rd env b offset h = RegRead (mmio_reg b offset) 4 (mmio_val env b offset h)"

lemma mmio_events [simp]:
  "is_reg (mmio_wr b offset v)" "\<not> is_read (mmio_wr b offset v)" "is_read (mmio_rd env b offset h)"
  by (simp_all add: mmio_wr_def mmio_rd_def)

lemma virtio_mmio_write32_eq:
  "vd_priv b = Some m \<Longrightarrow> virtio_mmio_write32 m offset v h = mmio_wr b offset v # h"
  by (simp add: virtio_mmio_write32_def mmio_wr_def mmio_reg_def)

lemma virtio_mmio_read32_eq:
  "vd_priv b = Some m \<Longrightarrow>
   virtio_mmio_read32 env m offset h = (ucast (mmio_val env b offset h), mmio_rd env b offset h # h)"
  by (simp add: virtio_mmio_read32_def mmio_rd_def mmio_val_def mmio_reg_def)

lemma with_mdev_ready:
  "mmio_ready b \<Longrightarrow> with_mdev (Some b) (\<lambda>m. virtio_mmio_write32 m offset v) h = (EOK, mmio_wr b offset v # h)"
  by (auto simp: with_mdev_def mmio_ready_def virtio_mmio_write32_eq)

lemma with_mdev_out_ready:
  "mmio_ready b \<Longrightarrow> with_mdev_out (Some b) (Some old) f h =
     (EOK, Some (fst (f (the (vd_priv b)) h)), snd (f (the (vd_priv b)) h))"
  by (auto simp: with_mdev_out_def mmio_ready_def split_beta)

lemmas mmio_op_defs =
  virtio_mmio_get_device_status_def virtio_mmio_set_device_status_def virtio_mmio_reset_device_def
  virtio_mmio_select_queue_def virtio_mmio_notify_queue_def virtio_mmio_enable_queue_def
  virtio_mmio_set_queue_reset_def virtio_mmio_get_queue_reset_def virtio_mmio_max_queue_size_def
  virtio_mmio_set_queue_size_def virtio_mmio_get_interrupt_status_def virtio_mmio_set_interrupt_ack_def

definition mmio_rd_status :: "env \<Rightarrow> mmio_base \<Rightarrow> hist \<Rightarrow> u8 \<times> event" where
  "mmio_rd_status env b h =
     (ucast ((ucast (mmio_val env b VIRTIO_MMIO_STATUS h) :: u32) AND 0xFF), mmio_rd env b VIRTIO_MMIO_STATUS h)"

definition mmio_rd_reset :: "env \<Rightarrow> mmio_base \<Rightarrow> hist \<Rightarrow> u32 \<times> event" where
  "mmio_rd_reset env b h =
     (ucast (mmio_val env b VIRTIO_MMIO_QUEUE_RESET h), mmio_rd env b VIRTIO_MMIO_QUEUE_RESET h)"

definition mmio_rd_max :: "env \<Rightarrow> mmio_base \<Rightarrow> hist \<Rightarrow> u16 \<times> event" where
  "mmio_rd_max env b h =
     (ucast (ucast (mmio_val env b VIRTIO_MMIO_QUEUE_SIZE_MAX h) :: u32), mmio_rd env b VIRTIO_MMIO_QUEUE_SIZE_MAX h)"

interpretation mm: transport virtio_mmio_ops mmio_ready mmio_rd_status
    "\<lambda>b st. [mmio_wr b VIRTIO_MMIO_STATUS (ucast st)]"
    "\<lambda>b i. [mmio_wr b VIRTIO_MMIO_QUEUE_SEL (ucast i)]"
    "\<lambda>env b i h. [mmio_wr b VIRTIO_MMIO_QUEUE_NOTIFY (ucast i)]"
    "\<lambda>b en. [mmio_wr b VIRTIO_MMIO_QUEUE_READY (if en then 1 else 0)]"
    "\<lambda>b n. [mmio_wr b VIRTIO_MMIO_QUEUE_SIZE (ucast n)]"
    "\<lambda>b. [mmio_wr b VIRTIO_MMIO_QUEUE_RESET 1]"
    mmio_rd_reset mmio_rd_max
proof (unfold_locales, goal_cases)
  case (1 b env v0 h)
  then show ?case
    by (auto simp: virtio_mmio_ops_def mmio_op_defs with_mdev_out_ready mmio_ready_def
        virtio_mmio_read32_eq mmio_rd_status_def)
next
  case (9 b env v1 h)
  then show ?case
    by (auto simp: virtio_mmio_ops_def mmio_op_defs with_mdev_out_ready mmio_ready_def
        virtio_mmio_read32_eq mmio_rd_reset_def)
next
  case (10 b env v2 h)
  then show ?case
    by (auto simp: virtio_mmio_ops_def mmio_op_defs with_mdev_out_ready mmio_ready_def
        virtio_mmio_read32_eq mmio_rd_max_def)
qed (simp_all add: virtio_mmio_ops_def mmio_op_defs with_mdev_ready mmio_rd_status_def mmio_rd_reset_def mmio_rd_max_def)

section \<open>Properties of the device over this transport\<close>

lemma take_bit_32_ucast: "take_bit 32 (v::u64) = ucast (ucast v :: u32)"
  by (rule bit_word_eqI) (auto simp: bit_simps)

lemma ucast_take_bit_32 [simp]: "(ucast (take_bit 32 (v::u64)) :: u32) = ucast v"
  by (rule bit_word_eqI) (auto simp: bit_simps)

text \<open>A device as the initialiser leaves it, for the witnesses.\<close>

definition mmio_example :: "(virtio_mmio_device, unit) virtio_device" where
  "mmio_example = \<lparr> vd_base = \<lparr> vd_self = 0x3000, vd_legacy = False, vd_device_reset_timeout_ms = 500,
     vd_device_reset_poll_interval_ms = 10, vd_queue_reset_timeout_ms = 500,
     vd_queue_reset_poll_interval_ms = 10, vd_irq = 42,
     vd_priv = Some \<lparr> mmio_self = 0x4000, mmio_paddr = 0x20000000, mmio_vaddr = 0x100000, mmio_pagesize = 4096 \<rparr> \<rparr>,
     vd_ops = Some virtio_mmio_ops \<rparr>"

lemma mmio_example_sel [simp]:
  "vd_ops mmio_example = Some virtio_mmio_ops" "mmio_ready (vd_base mmio_example)"
  "vd_device_reset_poll_interval_ms (vd_base mmio_example) = 10"
  by (simp_all add: mmio_example_def mmio_ready_def)

text \<open>
  Every operation on a queue selects that queue and acts on it inside one critical section
  of the device lock, so operations on different queues cannot mix. Over MMIO, notifying, enabling
  and sizing queue \<open>i\<close> each store \<open>i\<close> to the queue selector, then one value to one register.
\<close>

theorem mmio_queue_operations:
  assumes "vd_ops dev = Some virtio_mmio_ops" and "mmio_ready (vd_base dev)"
    and "env_spin_lock env h (device_lock dev) = EOK"
  shows "\<exists>u1 u2 u3.
     virtio_notify_queue env (Some dev) i h = Some (EOK, SpinUnlock (device_lock dev) u1 #
       mmio_wr (vd_base dev) VIRTIO_MMIO_QUEUE_NOTIFY (ucast i) #
       mmio_wr (vd_base dev) VIRTIO_MMIO_QUEUE_SEL (ucast i) # SpinLock (device_lock dev) 0 # h) \<and>
     virtio_enable_queue env (Some dev) i en h = Some (EOK, SpinUnlock (device_lock dev) u2 #
       mmio_wr (vd_base dev) VIRTIO_MMIO_QUEUE_READY (if en then 1 else 0) #
       mmio_wr (vd_base dev) VIRTIO_MMIO_QUEUE_SEL (ucast i) # SpinLock (device_lock dev) 0 # h) \<and>
     virtio_set_queue_size env (Some dev) i n h = Some (EOK, SpinUnlock (device_lock dev) u3 #
       mmio_wr (vd_base dev) VIRTIO_MMIO_QUEUE_SIZE (ucast n) #
       mmio_wr (vd_base dev) VIRTIO_MMIO_QUEUE_SEL (ucast i) # SpinLock (device_lock dev) 0 # h)"
  using mm.notify_queue [OF assms, of i] mm.enable_queue [OF assms, of i en] mm.set_queue_size [OF assms, of i n]
  by (simp add: critical_def Let_def)

theorem mmio_queue_operations_witness:
  "\<exists>u1. virtio_notify_queue env0 (Some mmio_example) 3 [] = Some (EOK, SpinUnlock (device_lock mmio_example) u1 #
     mmio_wr (vd_base mmio_example) VIRTIO_MMIO_QUEUE_NOTIFY 3 #
     mmio_wr (vd_base mmio_example) VIRTIO_MMIO_QUEUE_SEL 3 # [SpinLock (device_lock mmio_example) 0])"
  using mmio_queue_operations [of mmio_example env0 "[]" 3 True 1] by auto

text \<open>
  C24: adding a status bit is one read-modify-write of the status register under the device lock:
  the value stored has every bit of the value read and every bit asked for, and no other. When
  the lock cannot be taken, its error is returned and the device is not touched.
\<close>

theorem mmio_add_device_status:
  assumes "vd_ops dev = Some virtio_mmio_ops" and "mmio_ready (vd_base dev)"
  shows "\<exists>rc h'. virtio_add_device_status env (Some dev) st h = Some (rc, h') \<and> quiet h h' \<and>
     (rc = EOK \<longrightarrow> (\<exists>v u. h' = SpinUnlock (device_lock dev) u #
        mmio_wr (vd_base dev) VIRTIO_MMIO_STATUS (ucast (ucast v OR st)) #
        RegRead (mmio_reg (vd_base dev) VIRTIO_MMIO_STATUS) 4 v # SpinLock (device_lock dev) 0 # h)) \<and>
     (rc \<noteq> EOK \<longrightarrow> rc = env_spin_lock env h (device_lock dev) \<and> h' = SpinLock (device_lock dev) rc # h)"
proof (cases "env_spin_lock env h (device_lock dev) = EOK")
  case True
  let ?h = "SpinLock (device_lock dev) 0 # h"
  let ?v = "mmio_val env (vd_base dev) VIRTIO_MMIO_STATUS ?h"
  have v: "ucast ((ucast ?v :: u32) AND 0xFF) = (ucast ?v :: u8)"
  proof (rule bit_word_eqI)
    fix n
    assume "n < LENGTH(8)"
    then have "n < 8" by simp
    moreover have mask: "(0xFF::u32) = mask 8" by (simp add: mask_eq_exp_minus_1)
    ultimately show "bit (ucast ((ucast ?v :: u32) AND 0xFF) :: u8) n = bit (ucast ?v :: u8) n"
      unfolding mask by (simp only: bit_simps) auto
  qed
  have run: "virtio_add_device_status env (Some dev) st h = Some (EOK, critical env (device_lock dev)
      (\<lambda>h. let (v, e) = mmio_rd_status env (vd_base dev) h
            in [mmio_wr (vd_base dev) VIRTIO_MMIO_STATUS (ucast (v OR st))] @ e # h) h)"
    by (rule mm.add_status [OF assms True])
  have "quiet h (critical env (device_lock dev) (\<lambda>h. let (v, e) = mmio_rd_status env (vd_base dev) h
            in [mmio_wr (vd_base dev) VIRTIO_MMIO_STATUS (ucast (v OR st))] @ e # h) h)"
    by (rule quiet_critical) (simp add: mmio_rd_status_def mmio_wr_def mmio_rd_def quiet_def)
  with run v show ?thesis
    by (auto simp: critical_def Let_def mmio_rd_status_def mmio_rd_def)
next
  case False
  then show ?thesis using mm.add_status_lock_error [OF False, of st] by simp
qed

theorem mmio_add_device_status_witness:
  "\<exists>rc h'. virtio_add_device_status env0 (Some mmio_example) 4 [] = Some (rc, h') \<and> quiet [] h'"
  using mmio_add_device_status [of mmio_example env0 4 "[]"] by auto

text \<open>
  C28: a device reset returns. With \<open>delay\<close> as documented and a poll interval that is not 0,
  \<open>virtio_reset_device\<close> stores status 0 and polls at most timeout / interval (rounded up) + 1 times;
  it answers \<open>EOK\<close> exactly when the last status it read was 0 and \<open>ETIMEDOUT\<close> otherwise, and takes
  no lock.
\<close>

theorem mmio_reset_device:
  assumes "vd_ops dev = Some virtio_mmio_ops" and "mmio_ready (vd_base dev)" and "delays_ok env"
    and "vd_device_reset_poll_interval_ms (vd_base dev) \<noteq> 0"
  shows "\<exists>rc es v. let h1 = mmio_wr (vd_base dev) VIRTIO_MMIO_STATUS 0 # h in
     virtio_reset_device env dev h = Some (rc, RegRead (mmio_reg (vd_base dev) VIRTIO_MMIO_STATUS) 4 v # es @ h1) \<and>
     rc = (if (ucast (ucast v AND (0xFF :: u32)) :: u8) = 0 then EOK else ETIMEDOUT) \<and> quiet h (es @ h1) \<and>
     reads es \<le> (unat (vd_device_reset_timeout_ms (vd_base dev)) +
                  (unat (vd_device_reset_poll_interval_ms (vd_base dev)) - 1))
                 div unat (vd_device_reset_poll_interval_ms (vd_base dev))"
proof -
  let ?h = "mmio_wr (vd_base dev) VIRTIO_MMIO_STATUS 0 # h"
  obtain rc es where es: "virtio_reset_device env dev h = Some (rc, es @ ?h)" "quiet h (es @ ?h)"
      "\<exists>es'. es = snd (mmio_rd_status env (vd_base dev) (es' @ ?h)) # es' \<and>
          rc = (if fst (mmio_rd_status env (vd_base dev) (es' @ ?h)) = 0 then EOK else ETIMEDOUT)"
      "reads es \<le> Suc ((unat (vd_device_reset_timeout_ms (vd_base dev)) +
                        (unat (vd_device_reset_poll_interval_ms (vd_base dev)) - 1))
                      div unat (vd_device_reset_poll_interval_ms (vd_base dev)))"
    using mm.reset_device [OF assms, of h] by auto
  then obtain es' where es': "es = snd (mmio_rd_status env (vd_base dev) (es' @ ?h)) # es'"
      "rc = (if fst (mmio_rd_status env (vd_base dev) (es' @ ?h)) = 0 then EOK else ETIMEDOUT)" by blast
  have "quiet h (es' @ ?h)"
    using es(2) es'(1) by (simp add: quiet_def mmio_rd_status_def mmio_rd_def)
  then show ?thesis
    using es(1,4) es'
    by (intro exI [of _ rc] exI [of _ es'] exI [of _ "mmio_val env (vd_base dev) VIRTIO_MMIO_STATUS (es' @ ?h)"])
      (simp add: mmio_rd_status_def mmio_rd_def)
qed

theorem mmio_reset_device_witness:
  "\<exists>rc h'. virtio_reset_device env0 mmio_example [] = Some (rc, h')"
  using mmio_reset_device [of mmio_example env0 "[]"] by (auto simp: Let_def)

text \<open>
  A queue reset may not wait at all. \<open>virtio_reset_queue\<close> tests a local variable before its
  first assignment. When that variable happens to hold 0, the function stores the request and
  returns \<open>EOK\<close> without reading the reset register once, whatever the state of the device.
\<close>

theorem mmio_reset_queue_stale:
  assumes "vd_ops dev = Some virtio_mmio_ops" and "mmio_ready (vd_base dev)"
    and "env_spin_lock env h (device_lock dev) = EOK" and "(ucast (env_uninit env h) :: u32) = 0"
  shows "\<exists>u. virtio_reset_queue env (Some dev) i h = Some (EOK, SpinUnlock (device_lock dev) u #
     mmio_wr (vd_base dev) VIRTIO_MMIO_QUEUE_RESET 1 #
     mmio_wr (vd_base dev) VIRTIO_MMIO_QUEUE_SEL (ucast i) # SpinLock (device_lock dev) 0 # h)"
  using mm.reset_queue_stale [OF assms, of i] by (simp add: critical_def Let_def)

theorem mmio_reset_queue_stale_witness:
  "\<exists>h'. virtio_reset_queue (env0\<lparr> env_reg := \<lambda>h a n. 1 \<rparr>) (Some mmio_example) 0 [] = Some (EOK, h') \<and> reads h' = 0"
  using mmio_reset_queue_stale [of mmio_example "env0\<lparr> env_reg := \<lambda>h a n. 1 \<rparr>" "[]" 0] by auto

text \<open>
  The modern queue address. The six stores of \<open>virtio_mmio_set_queue_addr\<close> give the device
  the three physical addresses of the queue, low half then high half; each pair joins to exactly
  the 64-bit address.
\<close>

theorem mmio_set_queue_addr_modern:
  assumes "mmio_ready b" and "\<not> vd_legacy b"
  shows "\<exists>dl dh al ah ul uh. virtio_mmio_set_queue_addr env b (Some q) h = Some (EOK,
     [mmio_wr b VIRTIO_MMIO_QUEUE_DEVICE_HIGH uh, mmio_wr b VIRTIO_MMIO_QUEUE_DEVICE_LOW ul,
      mmio_wr b VIRTIO_MMIO_QUEUE_DRIVER_HIGH ah, mmio_wr b VIRTIO_MMIO_QUEUE_DRIVER_LOW al,
      mmio_wr b VIRTIO_MMIO_QUEUE_DESC_HIGH dh, mmio_wr b VIRTIO_MMIO_QUEUE_DESC_LOW dl] @ h) \<and>
     push_bit 32 (ucast dh) OR ucast dl = vq_desc_paddr q \<and>
     push_bit 32 (ucast ah) OR ucast al = vq_avail_paddr q \<and>
     push_bit 32 (ucast uh) OR ucast ul = vq_used_paddr q"
proof -
  have join: "push_bit 32 (ucast (ucast (drop_bit 32 p) :: u32)) OR ucast (ucast (p AND 0xFFFFFFFF) :: u32) = p" for p :: u64
  proof (rule bit_word_eqI)
    fix n
    assume "n < LENGTH(64)"
    moreover have mask: "(0xFFFFFFFF :: u64) = mask 32" by (simp add: mask_eq_exp_minus_1)
    ultimately show "bit (push_bit 32 (ucast (ucast (drop_bit 32 p) :: u32)) OR
        ucast (ucast (p AND 0xFFFFFFFF) :: u32) :: u64) n = bit p n"
      unfolding mask by (simp only: bit_simps) auto
  qed
  obtain m where "vd_priv b = Some m" using assms(1) by (auto simp: mmio_ready_def)
  then show ?thesis
    using assms(2) join [of "vq_desc_paddr q"] join [of "vq_avail_paddr q"] join [of "vq_used_paddr q"]
    by (simp add: virtio_mmio_set_queue_addr_def virtq_desc_paddr_def virtq_avail_paddr_def
        virtq_used_paddr_def virtio_mmio_write32_eq Let_def) blast
qed

theorem mmio_set_queue_addr_modern_witness:
  "\<exists>h'. virtio_mmio_set_queue_addr env0 (vd_base mmio_example) (Some virtq_example) [] = Some (EOK, h')"
proof -
  have "\<not> vd_legacy (vd_base mmio_example)" by (simp add: mmio_example_def)
  from mmio_set_queue_addr_modern [OF mmio_example_sel(2) this] show ?thesis by blast
qed

text \<open>
  The legacy queue address. The device gets the page number of the descriptor table when it
  fits 32 bits; otherwise the assertion ends the program.
\<close>

theorem mmio_set_queue_addr_legacy:
  assumes "mmio_ready b" and "vd_legacy b"
  shows "virtio_mmio_set_queue_addr env b (Some q) h =
     (if vq_desc_paddr q < 2 ^ 44
      then Some (EOK, mmio_wr b VIRTIO_MMIO_QUEUE_PFN (ucast (drop_bit 12 (vq_desc_paddr q))) # h)
      else None)"
proof -
  have "drop_bit 32 (drop_bit 12 p) = 0 \<longleftrightarrow> p < 2 ^ 44" for p :: u64
  proof -
    have "unat (drop_bit 44 p) = unat p div 2 ^ 44"
      by (simp add: drop_bit_eq_div unat_div)
    then have "drop_bit 44 p = 0 \<longleftrightarrow> unat p < 2 ^ 44"
      by (simp add: word_unat_eq_iff div_eq_0_iff)
    moreover have "unat (2 ^ 44 :: u64) = 2 ^ 44" by simp
    ultimately show ?thesis by (simp add: word_less_nat_alt)
  qed
  moreover obtain m where "vd_priv b = Some m" using assms(1) by (auto simp: mmio_ready_def)
  ultimately show ?thesis
    using assms(2)
    by (simp add: virtio_mmio_set_queue_addr_def virtq_desc_paddr_def virtio_mmio_write32_eq Let_def)
qed

theorem mmio_set_queue_addr_legacy_witness:
  "virtio_mmio_set_queue_addr env0 ((vd_base mmio_example)\<lparr> vd_legacy := True \<rparr>) (Some virtq_example) [] =
     Some (EOK, [mmio_wr (vd_base mmio_example) VIRTIO_MMIO_QUEUE_PFN 0x50])"
  using mmio_set_queue_addr_legacy [of "(vd_base mmio_example)\<lparr> vd_legacy := True \<rparr>" env0 virtq_example "[]"]
  by (simp add: mmio_ready_def mmio_example_def virtq_example_def mmio_wr_def mmio_reg_def)

section \<open>Initialisation\<close>

lemma ucast_16_32_64: "(ucast (ucast (x::u16) :: u32) :: u64) = ucast x"
  by (simp add: word_unat_eq_iff)

text \<open>The extra store for a device of version \<open>ver\<close> at address \<open>a\<close>.\<close>

definition guest_page_write :: "u64 \<Rightarrow> u64 \<Rightarrow> size_t \<Rightarrow> hist" where
  "guest_page_write a ver pagesize =
     (if ver = 1 then [RegWrite (a + 0x28) 4 (ucast (ucast pagesize :: u16))] else [])"

lemma frees_virtio_destroy:
  assumes "\<And>h l. env_spin_destroy env h l = EOK"
  shows "virtio_destroy env (Some dev) h = (EOK, Free (vd_self (vd_base dev)) # SpinDestroy (device_lock dev) 0 # h)"
  using assms by (simp add: virtio_destroy_def)

lemma virtio_mmio_init_run:
  assumes "errnos_ok env" and "\<And>h l. env_spin_destroy env h l = EOK"
  shows "\<exists>rc dev' h'. virtio_mmio_init env dev address type irq h = (rc, dev', h') \<and>
     (rc = EOK \<longrightarrow> vd_ops dev' = Some virtio_mmio_ops \<and> mmio_ready (vd_base dev') \<and> vd_irq (vd_base dev') = irq \<and>
        frees h' = frees h \<and>
        (\<exists>p a ver. vd_legacy (vd_base dev') = (ver = 1) \<and>
           h' = guest_page_write a ver (env_pagesize env) @
                RegRead (a + 8) 4 (ucast type) # RegRead (a + 4) 4 ver # RegRead a 4 0x74726976 #
                Mmap (Some address) 0x200 (Inr a) # Calloc 1 ''struct virtio_mmio_device'' (Inr p) # h)) \<and>
     (rc \<noteq> EOK \<longrightarrow> vd_ops dev' = vd_ops dev \<and> (\<exists>ps. frees h' = vd_self (vd_base dev) # ps @ frees h \<and> length ps \<le> 1))"
proof (cases "env_calloc env h 1 ''struct virtio_mmio_device''")
  case (Inl e)
  then show ?thesis
    by (simp add: frees_virtio_destroy [OF assms(2)] virtio_mmio_init_def mmio_free_vdev_def)
next
  case p: (Inr p)
  let ?h1 = "Calloc 1 ''struct virtio_mmio_device'' (Inr p) # h"
  show ?thesis
  proof (cases "env_mmap env ?h1 (Some address) 0x200")
    case (Inl e)
    then have "e \<noteq> 0" using assms(1) by auto
    then show ?thesis
      using p Inl
      by (simp add: frees_virtio_destroy [OF assms(2)] virtio_mmio_init_def mmio_free_vdev_def mmio_free_mdev_def)
  next
    case a: (Inr a)
    let ?h2 = "Mmap (Some address) 0x200 (Inr a) # ?h1"
    let ?magic = "env_reg env ?h2 a 4"
    let ?h3 = "RegRead a 4 (take_bit 32 ?magic) # ?h2"
    let ?ver = "env_reg env ?h3 (a + 4) 4"
    let ?h4 = "RegRead (a + 4) 4 (take_bit 32 ?ver) # ?h3"
    let ?id = "env_reg env ?h4 (a + 8) 4"
    note defs = virtio_mmio_init_def mmio_free_vdev_def mmio_free_mdev_def virtio_mmio_read32_def
      VIRTIO_MMIO_MAGIC_VALUE_def VIRTIO_MMIO_VERSION_def VIRTIO_MMIO_DEVICE_ID_def
      VIRTIO_MMIO_VERSION_LEGACY_def VIRTIO_MMIO_GUEST_PAGE_SIZE_def virtio_mmio_write32_def
    have ver: "take_bit 32 ?ver = 1 \<longleftrightarrow> (ucast ?ver :: u32) = 1"
      unfolding take_bit_32_ucast by (metis ucast_take_bit_32 take_bit_32_ucast unsigned_1)
    consider (magic) "(ucast ?magic :: u32) \<noteq> 0x74726976"
      | (id) "(ucast ?magic :: u32) = 0x74726976" "(ucast ?id :: u32) \<noteq> ucast type"
      | (ok) "(ucast ?magic :: u32) = 0x74726976" "(ucast ?id :: u32) = ucast type" by blast
    then show ?thesis
    proof cases
      case magic
      then show ?thesis using p a by (simp add: frees_virtio_destroy [OF assms(2)] defs)
    next
      case id
      then show ?thesis using p a by (simp add: frees_virtio_destroy [OF assms(2)] defs)
    next
      case ok
      then have "take_bit 32 ?magic = 0x74726976" "take_bit 32 ?id = ucast type"
        by (simp_all only: take_bit_32_ucast) (simp_all add: ucast_16_32_64)
      moreover have "\<exists>dev'. virtio_mmio_init env dev address type irq h =
          (EOK, dev', guest_page_write a (take_bit 32 ?ver) (env_pagesize env) @
             RegRead (a + 8) 4 (take_bit 32 ?id) # ?h4) \<and>
          vd_ops dev' = Some virtio_mmio_ops \<and> mmio_ready (vd_base dev') \<and> vd_irq (vd_base dev') = irq \<and>
          vd_legacy (vd_base dev') = (take_bit 32 ?ver = 1)"
        using p a ok ver by (simp add: defs mmio_ready_def guest_page_write_def ucast_16_32_64)
      moreover have "frees (guest_page_write a v n @ es) = frees es" for v n es
        by (simp add: guest_page_write_def)
      ultimately show ?thesis by auto
    qed
  qed
qed

lemma virtio_mmio_init_keeps:
  "virtio_mmio_init env dev address type irq h = (rc, dev', h') \<Longrightarrow>
   vd_self (vd_base dev') = vd_self (vd_base dev) \<and>
   vd_device_reset_poll_interval_ms (vd_base dev') = vd_device_reset_poll_interval_ms (vd_base dev) \<and>
   vd_queue_reset_poll_interval_ms (vd_base dev') = vd_queue_reset_poll_interval_ms (vd_base dev)"
  by (auto simp: virtio_mmio_init_def mmio_free_vdev_def mmio_free_mdev_def virtio_destroy_def Let_def split_beta
      split: sum.splits if_splits)

text \<open>
  \<open>virtio_mmio_init\<close> accepts exactly a device with the right magic value and type. On success
  the trace is: allocate, map 512 bytes at the given address, read magic, version and device id,
  and, for a legacy device only, tell it the page size; the table of operations is filled and
  nothing is freed. On every failure the table is left as it was and the device object is
  destroyed and freed.
\<close>

theorem virtio_mmio_init_spec:
  assumes "errnos_ok env" and "\<And>h l. env_spin_destroy env h l = EOK"
  shows "\<exists>rc dev' h'. virtio_mmio_init env dev address type irq h = (rc, dev', h') \<and>
     (rc = EOK \<longrightarrow> vd_ops dev' = Some virtio_mmio_ops \<and> mmio_ready (vd_base dev') \<and> vd_irq (vd_base dev') = irq \<and>
        frees h' = frees h \<and>
        (\<exists>p a ver. vd_legacy (vd_base dev') = (ver = 1) \<and>
           h' = guest_page_write a ver (env_pagesize env) @
                RegRead (a + 8) 4 (ucast type) # RegRead (a + 4) 4 ver # RegRead a 4 0x74726976 #
                Mmap (Some address) 0x200 (Inr a) # Calloc 1 ''struct virtio_mmio_device'' (Inr p) # h)) \<and>
     (rc \<noteq> EOK \<longrightarrow> vd_ops dev' = vd_ops dev \<and> (\<exists>ps. frees h' = vd_self (vd_base dev) # ps @ frees h \<and> length ps \<le> 1))"
  by (rule virtio_mmio_init_run [OF assms])

text \<open>An environment with a modern GPIO device behind the mapping.\<close>

definition mmio_env :: env where
  "mmio_env = env0\<lparr> env_reg := \<lambda>h a n. if a AND 0xFFF = 0 then 0x74726976
     else if a AND 0xFFF = 4 then 2 else if a AND 0xFFF = 8 then 41 else 0 \<rparr>"

definition blank_device :: "(virtio_mmio_device, unit) virtio_device" where
  "blank_device = mmio_example\<lparr> vd_base := (vd_base mmio_example)\<lparr> vd_priv := None \<rparr>, vd_ops := None \<rparr>"

lemma mmio_env_ok [simp]: "errnos_ok mmio_env" "env_spin_destroy mmio_env h l = EOK"
  by (simp_all add: mmio_env_def errnos_ok_def)

theorem virtio_mmio_init_spec_witness:
  "\<exists>dev' h'. virtio_mmio_init mmio_env blank_device 0x20000000 41 7 [] = (EOK, dev', h') \<and>
     vd_ops dev' = Some virtio_mmio_ops \<and> vd_irq (vd_base dev') = 7 \<and> frees h' = []"
proof -
  obtain rc dev' h' where *: "virtio_mmio_init mmio_env blank_device 0x20000000 41 7 [] = (rc, dev', h')"
      "rc = EOK \<longrightarrow> vd_ops dev' = Some virtio_mmio_ops \<and> vd_irq (vd_base dev') = 7 \<and> frees h' = frees []"
    using virtio_mmio_init_spec [where dev = blank_device and address = "0x20000000" and type = 41 and irq = 7 and h = "[]",
        OF mmio_env_ok(1,2)] by blast
  moreover have "fst (virtio_mmio_init mmio_env blank_device 0x20000000 41 7 []) = EOK"
    by (simp add: virtio_mmio_init_def mmio_env_def virtio_mmio_read32_def VIRTIO_MMIO_MAGIC_VALUE_def
        VIRTIO_MMIO_VERSION_def VIRTIO_MMIO_DEVICE_ID_def VIRTIO_MMIO_VERSION_LEGACY_def Let_def
        take_bit_32_ucast)
  ultimately show ?thesis by auto
qed

text \<open>
  Initialisation leaks the mapping. Once the registers are mapped, a wrong magic value makes
  \<open>virtio_mmio_init\<close> return \<open>ENODEV\<close> with the 512-byte mapping still live.
\<close>

theorem virtio_mmio_init_leaks:
  assumes "env_calloc env h 1 ''struct virtio_mmio_device'' = Inr p"
    and "env_mmap env (Calloc 1 ''struct virtio_mmio_device'' (Inr p) # h) (Some address) 0x200 = Inr a"
    and "(ucast (env_reg env (Mmap (Some address) 0x200 (Inr a) #
           Calloc 1 ''struct virtio_mmio_device'' (Inr p) # h) a 4) :: u32) \<noteq> 0x74726976"
  shows "\<exists>dev' h'. virtio_mmio_init env dev address type irq h = (ENODEV, dev', h') \<and>
           live h' = add_mset (a, 0x200) (live h)"
  using assms
  by (simp add: virtio_mmio_init_def mmio_free_vdev_def mmio_free_mdev_def virtio_mmio_read32_def
      VIRTIO_MMIO_MAGIC_VALUE_def virtio_destroy_def Let_def)

theorem virtio_mmio_init_leaks_witness:
  "\<exists>dev' h'. virtio_mmio_init env0 blank_device 0x20000000 41 7 [] = (ENODEV, dev', h') \<and> live h' = {# (0x200000, 0x200) #}"
  using virtio_mmio_init_leaks [where env = env0 and h = "[]" and p = 4096 and address = "0x20000000"
      and a = "0x200000" and dev = blank_device and type = 41 and irq = 7] by simp

section \<open>The configuration space\<close>

lemma ucast_32_64_32: "(ucast (ucast (v::u32) :: u64) :: u32) = v"
  by (rule bit_word_eqI) (simp add: bit_simps)

lemma mmio_read_config_from:
  assumes "vd_priv b = Some m" and "i + k \<le> length dst"
  shows "\<exists>vs es. virtio_mmio_read_config_from env m offset k i dst h =
           Some (take i dst @ vs @ drop (i + k) dst, es @ h) \<and>
           length vs = k \<and>
           rev es = map2 (\<lambda>j v. RegRead (mmio_reg b (ucast (0x100 + offset + of_nat j * 4 :: u64))) 4 (ucast (v::u32))) [i..<i + k] vs"
  using assms(2)
proof (induction k arbitrary: i dst h)
  case 0
  then show ?case by simp
next
  case (Suc k)
  let ?off = "ucast (ucast VIRTIO_MMIO_CONFIG + offset + of_nat i * 4 :: u64) :: u32"
  let ?v = "ucast (mmio_val env b ?off h) :: u32" and ?e = "mmio_rd env b ?off h"
  obtain vs es where IH: "virtio_mmio_read_config_from env m offset k (Suc i) (dst[i := ?v]) (?e # h) =
        Some (take (Suc i) (dst[i := ?v]) @ vs @ drop (Suc i + k) (dst[i := ?v]), es @ ?e # h)"
      "length vs = k"
      "rev es = map2 (\<lambda>j v. RegRead (mmio_reg b (ucast (0x100 + offset + of_nat j * 4 :: u64))) 4 (ucast (v::u32)))
                  [Suc i..<Suc i + k] vs"
    using Suc.IH [of "Suc i" "dst[i := ?v]" "?e # h"] Suc.prems by auto
  have "virtio_mmio_read_config_from env m offset (Suc k) i dst h =
      Some (take i dst @ (?v # vs) @ drop (i + Suc k) dst, (es @ [?e]) @ h)"
    using Suc.prems IH(1) by (simp add: virtio_mmio_read32_eq [OF assms(1)] take_Suc_conv_app_nth)
  moreover have "rev (es @ [?e]) = map2 (\<lambda>j v. RegRead (mmio_reg b (ucast (0x100 + offset + of_nat j * 4 :: u64))) 4 (ucast (v::u32)))
                  [i..<i + Suc k] (?v # vs)"
    using IH(3) by (simp add: upt_conv_Cons mmio_rd_def mmio_val_def VIRTIO_MMIO_CONFIG_def take_bit_32_ucast ucast_32_64_32 del: upt_Suc)
  ultimately show ?case using IH(2) by (metis length_Cons)
qed

text \<open>
  Reading the configuration. For a length and an offset that are multiples of 4 and a buffer
  large enough, \<open>virtio_mmio_read_device_config\<close> reads the words at \<open>0x100 + offset\<close>, \<open>+ 4\<close>, ... in
  order, one 32-bit access each, and stores them to the first words of the buffer, leaving the
  rest; any other length or offset is refused without an access.
\<close>

theorem mmio_read_device_config_spec:
  assumes "mmio_ready b" and "unat len div 4 \<le> length dst"
  shows "if len mod 4 \<noteq> 0 \<or> offset mod 4 \<noteq> 0
     then virtio_mmio_read_device_config env (Some b) (Some dst) len offset h = Some (EINVAL, Some dst, h)
     else \<exists>vs es. virtio_mmio_read_device_config env (Some b) (Some dst) len offset h =
            Some (EOK, Some (vs @ drop (length vs) dst), es @ h) \<and> length vs = unat len div 4 \<and>
            rev es = map2 (\<lambda>j v. RegRead (mmio_reg b (ucast (0x100 + offset + of_nat j * 4 :: u64))) 4 (ucast (v::u32)))
                       [0..<unat len div 4] vs"
proof -
  obtain m where m: "vd_priv b = Some m" using assms(1) by (auto simp: mmio_ready_def)
  have words: "unat (len div 4) = unat len div 4" by (simp add: unat_div)
  obtain vs es where run: "virtio_mmio_read_config_from env m offset (unat len div 4) 0 dst h =
        Some (vs @ drop (unat len div 4) dst, es @ h)" "length vs = unat len div 4"
      "rev es = map2 (\<lambda>j v. RegRead (mmio_reg b (ucast (0x100 + offset + of_nat j * 4 :: u64))) 4 (ucast (v::u32)))
                 [0..<unat len div 4] vs"
    using mmio_read_config_from [OF m, of 0 "unat len div 4" dst env offset h] assms(2) by auto
  show ?thesis
  proof (cases "len mod 4 \<noteq> 0 \<or> offset mod 4 \<noteq> 0")
    case True
    then show ?thesis by (simp add: virtio_mmio_read_device_config_def)
  next
    case False
    then have "virtio_mmio_read_device_config env (Some b) (Some dst) len offset h =
        Some (EOK, Some (vs @ drop (length vs) dst), es @ h)"
      using run(1,2) m words by (simp add: virtio_mmio_read_device_config_def)
    with run(2,3) show ?thesis unfolding if_not_P [OF False] by blast
  qed
qed

theorem mmio_read_device_config_spec_witness:
  "\<exists>vs es. virtio_mmio_read_device_config env0 (Some (vd_base mmio_example)) (Some [1, 2, 3]) 8 0 [] =
     Some (EOK, Some (vs @ [3]), es) \<and> length vs = 2"
proof -
  have "unat (8::size_t) div 4 \<le> length [1, 2, 3::u32]" by simp
  from mmio_read_device_config_spec [OF mmio_example_sel(2) this, of 0 env0 "[]"]
  obtain vs es where "virtio_mmio_read_device_config env0 (Some (vd_base mmio_example)) (Some [1, 2, 3]) 8 0 [] =
      Some (EOK, Some (vs @ drop (length vs) [1, 2, 3]), es)" "length vs = 2"
    by (auto split: if_splits)
  then show ?thesis by auto
qed

end
