(* ===== verification/Virtio_Pci.thy ===== *)
theory Virtio_Pci
  imports Virtio
begin

text \<open>
  \<^verbatim>\<open>src/virtio_pci/virtio_pci.c\<close>: the PCI transport. The common configuration is a structure in
  device memory; its fields are accessed at their offsets and widths. The PCI library is a
  parameter of the model: its answers come from the environment. The theory models every operation
  of the table, the search for capabilities, the mapping of the bars and the initialiser, and
  interprets the locale \<open>transport\<close>.
\<close>

section \<open>Structures\<close>

text \<open>The fields of the common configuration that the code uses: offset and width in bytes.\<close>

datatype common_cfg_field =
    device_feature_select | device_feature | driver_feature_select | driver_feature
  | device_status | queue_select | queue_size | queue_msix_vector | queue_enable | queue_notify_off
  | queue_desc | queue_driver | queue_device | queue_reset

fun cfg_offset :: "common_cfg_field \<Rightarrow> u64" where
  "cfg_offset device_feature_select = 0"
| "cfg_offset device_feature = 4"
| "cfg_offset driver_feature_select = 8"
| "cfg_offset driver_feature = 12"
| "cfg_offset device_status = 20"
| "cfg_offset queue_select = 22"
| "cfg_offset queue_size = 24"
| "cfg_offset queue_msix_vector = 26"
| "cfg_offset queue_enable = 28"
| "cfg_offset queue_notify_off = 30"
| "cfg_offset queue_desc = 32"
| "cfg_offset queue_driver = 40"
| "cfg_offset queue_device = 48"
| "cfg_offset queue_reset = 58"

fun cfg_width :: "common_cfg_field \<Rightarrow> nat" where
  "cfg_width device_feature_select = 4"
| "cfg_width device_feature = 4"
| "cfg_width driver_feature_select = 4"
| "cfg_width driver_feature = 4"
| "cfg_width device_status = 1"
| "cfg_width queue_select = 2"
| "cfg_width queue_size = 2"
| "cfg_width queue_msix_vector = 2"
| "cfg_width queue_enable = 2"
| "cfg_width queue_notify_off = 2"
| "cfg_width queue_desc = 8"
| "cfg_width queue_driver = 8"
| "cfg_width queue_device = 8"
| "cfg_width queue_reset = 2"

text \<open>
  The capability structures, from the field \<open>cfg_type\<close> on; only the notification capability has
  the multiplier.
\<close>

record virtio_pci_cap =
  cap_cfg_type :: u8
  cap_bar :: u8
  cap_offset :: u32
  cap_length :: u32

record virtio_pci_notify_cap = virtio_pci_cap +
  notify_off_multiplier :: u32

record virtio_pci_device =
  pci_self :: ptr
  pci_bdf :: u32
  pci_pci :: ptr
  pci_msix :: ptr
  pci_msix_vector_count :: u16
  pci_common_cfg_cap :: virtio_pci_cap
  pci_notify_cfg_cap :: virtio_pci_notify_cap
  pci_isr_cfg_cap :: virtio_pci_cap
  pci_device_cfg_cap :: virtio_pci_cap
  pci_pci_cfg_cap :: virtio_pci_cap
  pci_common_cfg :: ptr
  pci_notify_cfg :: ptr
  pci_device_cfg :: ptr
  pci_bars :: "pci_ba list"
  pci_mapped_bars :: "ptr list"
  pci_bar_count :: int

type_synonym pci_base = "virtio_pci_device vdev_base"

section \<open>Operations\<close>

definition cfg_write :: "virtio_pci_device \<Rightarrow> common_cfg_field \<Rightarrow> u64 \<Rightarrow> hist \<Rightarrow> hist" where
  "cfg_write p f v h = reg_write (pci_common_cfg p + cfg_offset f) (cfg_width f) v h"

definition cfg_read :: "env \<Rightarrow> virtio_pci_device \<Rightarrow> common_cfg_field \<Rightarrow> hist \<Rightarrow> u64 \<times> hist" where
  "cfg_read env p f h = reg_read env (pci_common_cfg p + cfg_offset f) (cfg_width f) h"

text \<open>
  The shape of the operations: a null device, null private data or an unmapped common
  configuration gives \<open>EINVAL\<close>; the reading ones also check the output pointer.
\<close>

definition with_pdev :: "pci_base option \<Rightarrow> (virtio_pci_device \<Rightarrow> hist \<Rightarrow> hist) \<Rightarrow> hist \<Rightarrow> rc \<times> hist" where
  "with_pdev dev f h =
     (case dev of
        None \<Rightarrow> (EINVAL, h)
      | Some d \<Rightarrow>
          (case vd_priv d of
             None \<Rightarrow> (EINVAL, h)
           | Some p \<Rightarrow> if pci_common_cfg p = 0 then (EINVAL, h) else let h = f p h in (EOK, h)))"

definition with_pdev_out ::
  "pci_base option \<Rightarrow> 'o cell \<Rightarrow> (virtio_pci_device \<Rightarrow> hist \<Rightarrow> 'o \<times> hist) \<Rightarrow> hist \<Rightarrow> rc \<times> 'o cell \<times> hist" where
  "with_pdev_out dev out f h =
     (case (dev, out) of
        (Some d, Some _) \<Rightarrow>
          (case vd_priv d of
             None \<Rightarrow> (EINVAL, out, h)
           | Some p \<Rightarrow>
               if pci_common_cfg p = 0 then (EINVAL, out, h)
               else let (v, h) = f p h in (EOK, Some v, h))
      | _ \<Rightarrow> (EINVAL, out, h))"

definition virtio_pci_get_device_status ::
  "env \<Rightarrow> pci_base option \<Rightarrow> u8 cell \<Rightarrow> hist \<Rightarrow> rc \<times> u8 cell \<times> hist" where
  "virtio_pci_get_device_status env dev status h =
     with_pdev_out dev status (\<lambda>p h. let (v, h) = cfg_read env p device_status h in (ucast v, h)) h"

definition virtio_pci_set_device_status :: "env \<Rightarrow> pci_base option \<Rightarrow> u8 \<Rightarrow> hist \<Rightarrow> rc \<times> hist" where
  "virtio_pci_set_device_status env dev status h =
     with_pdev dev (\<lambda>p. cfg_write p device_status (ucast status)) h"

definition virtio_pci_reset_device :: "env \<Rightarrow> pci_base option \<Rightarrow> hist \<Rightarrow> rc \<times> hist" where
  "virtio_pci_reset_device env dev h = with_pdev dev (\<lambda>p. cfg_write p device_status 0) h"

definition virtio_pci_select_queue :: "env \<Rightarrow> pci_base option \<Rightarrow> u16 \<Rightarrow> hist \<Rightarrow> rc \<times> hist" where
  "virtio_pci_select_queue env dev index h = with_pdev dev (\<lambda>p. cfg_write p queue_select (ucast index)) h"

text \<open>
  The notification stores one byte, the low byte of the queue index. The product of the 16-bit
  offset and the 32-bit multiplier is a \<open>uint32_t\<close>.
\<close>

definition virtio_pci_notify_queue :: "env \<Rightarrow> pci_base option \<Rightarrow> u16 \<Rightarrow> hist \<Rightarrow> rc \<times> hist" where
  "virtio_pci_notify_queue env dev index h =
     (case dev of
        None \<Rightarrow> (EINVAL, h)
      | Some d \<Rightarrow>
          (case vd_priv d of
             None \<Rightarrow> (EINVAL, h)
           | Some p \<Rightarrow>
               if pci_common_cfg p = 0 \<or> pci_notify_cfg p = 0 then (EINVAL, h)
               else
                 let (off, h) = cfg_read env p queue_notify_off h;
                     pos = ucast off * notify_off_multiplier (pci_notify_cfg_cap p) :: u32;
                     h = reg_write (pci_notify_cfg p + ucast pos) 1 (ucast (ucast index :: u8)) h
                 in (EOK, h)))"

definition virtio_pci_enable_queue :: "env \<Rightarrow> pci_base option \<Rightarrow> bool \<Rightarrow> hist \<Rightarrow> rc \<times> hist" where
  "virtio_pci_enable_queue env dev enable h =
     with_pdev dev (\<lambda>p h.
       let h = cfg_write p queue_msix_vector 0 h
       in cfg_write p queue_enable (if enable then 1 else 0) h) h"

definition virtio_pci_set_queue_reset :: "env \<Rightarrow> pci_base option \<Rightarrow> hist \<Rightarrow> rc \<times> hist" where
  "virtio_pci_set_queue_reset env dev h = with_pdev dev (\<lambda>p. cfg_write p queue_reset 1) h"

definition virtio_pci_get_queue_reset ::
  "env \<Rightarrow> pci_base option \<Rightarrow> u32 cell \<Rightarrow> hist \<Rightarrow> rc \<times> u32 cell \<times> hist" where
  "virtio_pci_get_queue_reset env dev v h =
     with_pdev_out dev v (\<lambda>p h. let (v, h) = cfg_read env p queue_reset h in (ucast v, h)) h"

definition virtio_pci_queue_size ::
  "env \<Rightarrow> pci_base option \<Rightarrow> u16 cell \<Rightarrow> hist \<Rightarrow> rc \<times> u16 cell \<times> hist" where
  "virtio_pci_queue_size env dev sz h =
     with_pdev_out dev sz (\<lambda>p h. let (v, h) = cfg_read env p queue_size h in (ucast v, h)) h"

definition virtio_pci_set_queue_size :: "env \<Rightarrow> pci_base option \<Rightarrow> u16 \<Rightarrow> hist \<Rightarrow> rc \<times> hist" where
  "virtio_pci_set_queue_size env dev sz h = with_pdev dev (\<lambda>p. cfg_write p queue_size (ucast sz)) h"

fun virtio_pci_read_features_from ::
  "env \<Rightarrow> virtio_pci_device \<Rightarrow> nat \<Rightarrow> nat \<Rightarrow> u32 list \<Rightarrow> hist \<Rightarrow> (u32 list \<times> hist) option" where
  "virtio_pci_read_features_from env p 0 sel features h = Some (features, h)"
| "virtio_pci_read_features_from env p (Suc k) sel features h =
     (let h = cfg_write p device_feature_select (of_nat sel) h;
          (v, h) = cfg_read env p device_feature h
      in do {
        features \<leftarrow> arr_set features sel (ucast v);
        virtio_pci_read_features_from env p k (Suc sel) features h
      })"

definition virtio_pci_read_device_features ::
  "env \<Rightarrow> pci_base option \<Rightarrow> u32 list cell \<Rightarrow> size_t \<Rightarrow> hist \<Rightarrow> (rc \<times> u32 list cell \<times> hist) option" where
  "virtio_pci_read_device_features env dev features len h =
     (case (dev, features) of
        (Some d, Some fs) \<Rightarrow>
          (case vd_priv d of
             None \<Rightarrow> Some (EINVAL, features, h)
           | Some p \<Rightarrow>
               if pci_common_cfg p = 0 then Some (EINVAL, features, h)
               else if 2 ^ 32 \<le> unat len then None
               else do {
                 (fs, h) \<leftarrow> virtio_pci_read_features_from env p (unat len) 0 fs h;
                 Some (EOK, Some fs, h)
               })
      | _ \<Rightarrow> Some (EINVAL, features, h))"

fun virtio_pci_write_features_from ::
  "virtio_pci_device \<Rightarrow> nat \<Rightarrow> nat \<Rightarrow> u32 list \<Rightarrow> hist \<Rightarrow> hist option" where
  "virtio_pci_write_features_from p 0 sel features h = Some h"
| "virtio_pci_write_features_from p (Suc k) sel features h =
     (let h = cfg_write p driver_feature_select (of_nat sel) h
      in do {
        v \<leftarrow> arr_get features sel;
        let h = cfg_write p driver_feature (ucast v) h
        in virtio_pci_write_features_from p k (Suc sel) features h
      })"

definition virtio_pci_write_driver_features ::
  "env \<Rightarrow> pci_base option \<Rightarrow> u32 list cell \<Rightarrow> size_t \<Rightarrow> hist \<Rightarrow> (rc \<times> hist) option" where
  "virtio_pci_write_driver_features env dev features len h =
     (case (dev, features) of
        (Some d, Some fs) \<Rightarrow>
          (case vd_priv d of
             None \<Rightarrow> Some (EINVAL, h)
           | Some p \<Rightarrow>
               if pci_common_cfg p = 0 then Some (EINVAL, h)
               else if 2 ^ 32 \<le> unat len then None
               else do {
                 h \<leftarrow> virtio_pci_write_features_from p (unat len) 0 fs h;
                 Some (EOK, h)
               })
      | _ \<Rightarrow> Some (EINVAL, h))"

text \<open>
  The loop variable counts bytes, but both arrays are arrays of 32-bit words and are indexed with
  it: word \<open>i\<close> of the destination gets word \<open>offset + i\<close> of the device, for \<open>i\<close> = 0, 4, 8, ... .
  A null \<open>priv\<close> is not checked.
\<close>

fun virtio_pci_read_config_from ::
  "env \<Rightarrow> virtio_pci_device \<Rightarrow> size_t \<Rightarrow> nat \<Rightarrow> nat \<Rightarrow> u32 list \<Rightarrow> hist \<Rightarrow> (u32 list \<times> hist) option" where
  "virtio_pci_read_config_from env p offset 0 i dst h = Some (dst, h)"
| "virtio_pci_read_config_from env p offset (Suc k) i dst h =
     (let (v, h) = reg_read env (pci_device_cfg p + (offset + of_nat i) * 4) 4 h
      in do {
        dst \<leftarrow> arr_set dst i (ucast v);
        virtio_pci_read_config_from env p offset k (i + 4) dst h
      })"

definition virtio_pci_read_device_config ::
  "env \<Rightarrow> pci_base option \<Rightarrow> u32 list cell \<Rightarrow> size_t \<Rightarrow> size_t \<Rightarrow> hist \<Rightarrow> (rc \<times> u32 list cell \<times> hist) option" where
  "virtio_pci_read_device_config env dev dst len offset h =
     (case (dev, dst) of
        (Some d, Some ws) \<Rightarrow> do {
          p \<leftarrow> vd_priv d;
          (ws, h) \<leftarrow> virtio_pci_read_config_from env p offset ((unat len + 3) div 4) 0 ws h;
          Some (EOK, Some ws, h)
        }
      | _ \<Rightarrow> Some (EINVAL, dst, h))"

text \<open>The accessors of the queue store straight into the common configuration.\<close>

definition virtio_pci_set_queue_addr ::
  "env \<Rightarrow> pci_base \<Rightarrow> virtq option \<Rightarrow> hist \<Rightarrow> (rc \<times> hist) option" where
  "virtio_pci_set_queue_addr env d vq h = do {
     p \<leftarrow> vd_priv d;
     (if pci_common_cfg p = 0 then None
      else
        let (rc, v) = virtq_desc_paddr vq (Some 0)
        in if rc \<noteq> EOK then Some (rc, h)
        else do {
          v \<leftarrow> v;
          let h = cfg_write p queue_desc v h;
              (rc, v) = virtq_avail_paddr vq (Some 0)
          in if rc \<noteq> EOK then Some (rc, h)
          else do {
            v \<leftarrow> v;
            let h = cfg_write p queue_driver v h;
                (rc, v) = virtq_used_paddr vq (Some 0)
            in if rc \<noteq> EOK then Some (rc, h)
            else do {
              v \<leftarrow> v;
              let h = cfg_write p queue_device v h in Some (EOK, h)
            }
          }
        })
   }"

definition virtio_pci_virtq_callback ::
  "env \<Rightarrow> pci_base option \<Rightarrow> 's option \<Rightarrow> 's callback option \<Rightarrow> hist \<Rightarrow> (rc \<times> 's option \<times> hist) option" where
  "virtio_pci_virtq_callback env dev vq callback h =
     (case (dev, vq, callback) of
        (Some _, Some s, Some cb) \<Rightarrow> do {
          (rc, s, h) \<leftarrow> repeat_callback cb s h;
          Some (rc, Some s, h)
        }
      | _ \<Rightarrow> Some (EINVAL, vq, h))"

definition virtio_pci_ops :: "(virtio_pci_device, 's) virtio_ops" where
  "virtio_pci_ops = \<lparr>
     op_read_device_features = virtio_pci_read_device_features,
     op_write_driver_features = virtio_pci_write_driver_features,
     op_set_device_status = virtio_pci_set_device_status,
     op_get_device_status = virtio_pci_get_device_status,
     op_reset_device = virtio_pci_reset_device,
     op_read_device_config = virtio_pci_read_device_config,
     op_set_queue_addr = virtio_pci_set_queue_addr,
     op_select_queue = virtio_pci_select_queue,
     op_notify_queue = virtio_pci_notify_queue,
     op_enable_queue = virtio_pci_enable_queue,
     op_set_queue_reset = virtio_pci_set_queue_reset,
     op_get_queue_reset = virtio_pci_get_queue_reset,
     op_max_queue_size = virtio_pci_queue_size,
     op_set_queue_size = virtio_pci_set_queue_size,
     op_virtq_callback = virtio_pci_virtq_callback \<rparr>"

section \<open>Capabilities and bars\<close>

text \<open>
  \<open>cap_vend_read_bytes\<close> with 13 or 17 bytes fills a capability from \<open>cfg_type\<close> on; when it fails
  the structure is left alone.
\<close>

definition cap_of_bytes :: "(nat \<Rightarrow> u8) \<Rightarrow> virtio_pci_cap" where
  "cap_of_bytes m = \<lparr> cap_cfg_type = m 0, cap_bar = m 1, cap_offset = le_word m 5 4, cap_length = le_word m 9 4 \<rparr>"

definition notify_cap_of_bytes :: "(nat \<Rightarrow> u8) \<Rightarrow> virtio_pci_notify_cap" where
  "notify_cap_of_bytes m =
     \<lparr> cap_cfg_type = m 0, cap_bar = m 1, cap_offset = le_word m 5 4, cap_length = le_word m 9 4,
       notify_off_multiplier = le_word m 13 4 \<rparr>"

definition cap_vend_read_bytes :: "env \<Rightarrow> ptr \<Rightarrow> nat \<Rightarrow> hist \<Rightarrow> rc \<times> (nat \<Rightarrow> u8) \<times> hist" where
  "cap_vend_read_bytes env cap n h =
     (env_pci_err env h (CapVendReadBytes cap n), env_pci_byte env h (CapVendReadBytes cap n),
      Pci (CapVendReadBytes cap n) # h)"

definition virtio_pci_read_pci_cap :: "env \<Rightarrow> ptr \<Rightarrow> virtio_pci_cap \<Rightarrow> hist \<Rightarrow> rc \<times> virtio_pci_cap \<times> hist" where
  "virtio_pci_read_pci_cap env cap c h =
     (let (r, m, h) = cap_vend_read_bytes env cap 13 h in (r, if r = 0 then cap_of_bytes m else c, h))"

definition virtio_pci_read_pci_notify_cap ::
  "env \<Rightarrow> ptr \<Rightarrow> virtio_pci_notify_cap \<Rightarrow> hist \<Rightarrow> rc \<times> virtio_pci_notify_cap \<times> hist" where
  "virtio_pci_read_pci_notify_cap env cap c h =
     (let (r, m, h) = cap_vend_read_bytes env cap 17 h in (r, if r = 0 then notify_cap_of_bytes m else c, h))"

text \<open>The \<open>switch\<close> over the capability's type.\<close>

definition virtio_pci_store_cap ::
  "env \<Rightarrow> ptr \<Rightarrow> u8 \<Rightarrow> virtio_pci_device \<Rightarrow> hist \<Rightarrow> rc \<times> virtio_pci_device \<times> hist" where
  "virtio_pci_store_cap env cap cfg_type p h =
     (if cfg_type = 1 then
        let (r, c, h) = virtio_pci_read_pci_cap env cap (pci_common_cfg_cap p) h
        in (r, p\<lparr> pci_common_cfg_cap := c \<rparr>, h)
      else if cfg_type = 2 then
        let (r, c, h) = virtio_pci_read_pci_notify_cap env cap (pci_notify_cfg_cap p) h
        in (r, p\<lparr> pci_notify_cfg_cap := c \<rparr>, h)
      else if cfg_type = 3 then
        let (r, c, h) = virtio_pci_read_pci_cap env cap (pci_isr_cfg_cap p) h
        in (r, p\<lparr> pci_isr_cfg_cap := c \<rparr>, h)
      else if cfg_type = 4 then
        let (r, c, h) = virtio_pci_read_pci_cap env cap (pci_device_cfg_cap p) h
        in (r, p\<lparr> pci_device_cfg_cap := c \<rparr>, h)
      else if cfg_type = 5 then
        let (r, c, h) = virtio_pci_read_pci_cap env cap (pci_pci_cfg_cap p) h
        in (r, p\<lparr> pci_pci_cfg_cap := c \<rparr>, h)
      else (0, p, h))"

definition CAPID_VEND :: u8 where "CAPID_VEND = 0x09"
definition CAPID_MSIX :: u8 where "CAPID_MSIX = 0x11"

definition pci_device_read_cap :: "env \<Rightarrow> u32 \<Rightarrow> int \<Rightarrow> hist \<Rightarrow> rc \<times> ptr \<times> hist" where
  "pci_device_read_cap env bdf index h =
     (env_pci_err env h (PciReadCap bdf index), env_pci_word env h (PciReadCap bdf index),
      Pci (PciReadCap bdf index) # h)"

text \<open>
  The walk over the vendor capabilities: the first component of the result is \<open>None\<close> when the
  list was walked to its end, otherwise the code the function returns at once.
\<close>

partial_function (option) virtio_pci_vendor_caps ::
  "env \<Rightarrow> int \<Rightarrow> virtio_pci_device \<Rightarrow> hist \<Rightarrow> (rc option \<times> virtio_pci_device \<times> hist) option" where
  "virtio_pci_vendor_caps env index p h =
     (if index = -1 then Some (None, p, h)
      else
        case pci_device_read_cap env (pci_bdf p) index h of (r, cap, h) \<Rightarrow>
        if r \<noteq> 0 then Some (Some r, p, h)
        else case cap_vend_read_bytes env cap 1 h of (r, m, h) \<Rightarrow>
        if r \<noteq> 0 then Some (Some r, p, h)
        else case virtio_pci_store_cap env cap (m 0) p h of (r, p, h) \<Rightarrow>
        if r \<noteq> 0 then Some (Some r, p, h)
        else case pci_int env (PciFindCapidNext (pci_bdf p) CAPID_VEND index) h of (index, h) \<Rightarrow>
        virtio_pci_vendor_caps env index p h)"

definition virtio_pci_find_caps ::
  "env \<Rightarrow> virtio_pci_device \<Rightarrow> hist \<Rightarrow> (rc \<times> virtio_pci_device \<times> hist) option" where
  "virtio_pci_find_caps env p h =
     (let (index, h) = pci_int env (PciFindCapid (pci_bdf p) CAPID_VEND) h
      in do {
        (res, p, h) \<leftarrow> virtio_pci_vendor_caps env index p h;
        (case res of
           Some r \<Rightarrow> Some (r, p, h)
         | None \<Rightarrow>
             let (index, h) = pci_int env (PciFindCapid (pci_bdf p) CAPID_MSIX) h
             in if index \<noteq> -1 then
               let (r, cap, h) = pci_device_read_cap env (pci_bdf p) index h
               in if r \<noteq> 0 then Some (r, p, h)
               else Some (EOK, p\<lparr> pci_msix := cap \<rparr>, h)
             else Some (EOK, p, h))
      })"

text \<open>
  Mapping the bars. A failing \<open>mmap64\<close> is not noticed: the pointer stored is \<open>MAP_FAILED\<close>. The
  index of the entry is the number the library reports; an index outside the array is undefined.
\<close>

definition map_result :: "rc + ptr \<Rightarrow> ptr" where
  "map_result r = (case r of Inl _ \<Rightarrow> -1 | Inr a \<Rightarrow> a)"

fun virtio_pci_map_bars_from ::
  "env \<Rightarrow> pci_ba list \<Rightarrow> nat \<Rightarrow> nat \<Rightarrow> ptr list \<Rightarrow> hist \<Rightarrow> (ptr list \<times> hist) option" where
  "virtio_pci_map_bars_from env bars 0 idx mapped h = Some (mapped, h)"
| "virtio_pci_map_bars_from env bars (Suc k) idx mapped h = do {
     ba \<leftarrow> arr_get bars idx;
     (if ba_size ba = 0 then virtio_pci_map_bars_from env bars k (Suc idx) mapped h
      else
        let (r, h) = mmap64 env (Some (ba_addr ba)) (ba_size ba) h
        in if ba_num ba < 0 then None
        else do {
          mapped \<leftarrow> arr_set mapped (nat (ba_num ba)) (map_result r);
          virtio_pci_map_bars_from env bars k (Suc idx) mapped h
        })
   }"

definition virtio_pci_map_bars ::
  "env \<Rightarrow> virtio_pci_device \<Rightarrow> hist \<Rightarrow> (rc \<times> virtio_pci_device \<times> hist) option" where
  "virtio_pci_map_bars env p h =
     (let c = PciReadBa (pci_pci p) 6;
          (err, h') = pci_err env c h
      in if err \<noteq> 0 then Some (err, p\<lparr> pci_bar_count := 6 \<rparr>, h')
      else
        let n = env_pci_int env h c;
            p = p\<lparr> pci_bar_count := n, pci_bars := map (env_pci_ba env h c) [0..<6] \<rparr>
        in do {
          (mapped, h) \<leftarrow> virtio_pci_map_bars_from env (pci_bars p) (nat n) 0 (pci_mapped_bars p) h';
          Some (EOK, p\<lparr> pci_mapped_bars := mapped \<rparr>, h)
        })"

section \<open>Initialisation\<close>

definition virtio_pci_read_msix_vector_count ::
  "env \<Rightarrow> virtio_pci_device option \<Rightarrow> u16 cell \<Rightarrow> hist \<Rightarrow> rc \<times> u16 cell \<times> hist" where
  "virtio_pci_read_msix_vector_count env dev cnt h =
     (case (dev, cnt) of
        (Some p, Some _) \<Rightarrow>
          if pci_msix p \<noteq> 0 then
            let (n, h) = pci_int env (MsixGetNirq (pci_msix p)) h in (EOK, Some (word_of_int n), h)
          else (EOK, Some 0, h)
      | _ \<Rightarrow> (EINVAL, cnt, h))"

text \<open>The labels \<open>free_vdev\<close>, \<open>free_pdev\<close> and \<open>detach_pci\<close>.\<close>

definition pci_free_vdev ::
  "env \<Rightarrow> rc \<Rightarrow> (virtio_pci_device, 's) virtio_device \<Rightarrow> hist \<Rightarrow>
   (rc \<times> (virtio_pci_device, 's) virtio_device \<times> hist) option" where
  "pci_free_vdev env rc dev h = (let (_, h) = virtio_destroy env (Some dev) h in Some (rc, dev, h))"

definition pci_free_pdev ::
  "env \<Rightarrow> rc \<Rightarrow> virtio_pci_device \<Rightarrow> (virtio_pci_device, 's) virtio_device \<Rightarrow> hist \<Rightarrow>
   (rc \<times> (virtio_pci_device, 's) virtio_device \<times> hist) option" where
  "pci_free_pdev env rc p dev h = (let h = free (pci_self p) h in pci_free_vdev env rc dev h)"

definition pci_detach_pci ::
  "env \<Rightarrow> rc \<Rightarrow> virtio_pci_device \<Rightarrow> (virtio_pci_device, 's) virtio_device \<Rightarrow> hist \<Rightarrow>
   (rc \<times> (virtio_pci_device, 's) virtio_device \<times> hist) option" where
  "pci_detach_pci env rc p dev h =
     (let h = Pci (PciDeviceDetach (pci_pci p)) # h in pci_free_pdev env rc p dev h)"

definition virtio_pci_device0 :: "ptr \<Rightarrow> virtio_pci_device" where
  "virtio_pci_device0 a =
     (let c = \<lparr> cap_cfg_type = 0, cap_bar = 0, cap_offset = 0, cap_length = 0 \<rparr>
      in \<lparr> pci_self = a, pci_bdf = 0, pci_pci = 0, pci_msix = 0, pci_msix_vector_count = 0,
           pci_common_cfg_cap = c,
           pci_notify_cfg_cap = \<lparr> cap_cfg_type = 0, cap_bar = 0, cap_offset = 0, cap_length = 0, notify_off_multiplier = 0 \<rparr>,
           pci_isr_cfg_cap = c, pci_device_cfg_cap = c, pci_pci_cfg_cap = c,
           pci_common_cfg = 0, pci_notify_cfg = 0, pci_device_cfg = 0,
           pci_bars = replicate 6 \<lparr> ba_num = 0, ba_addr = 0, ba_size = 0 \<rparr>,
           pci_mapped_bars = replicate 6 0, pci_bar_count = 0 \<rparr>)"

text \<open>
  The configuration of MSI-X: the calls in order, each of which may end the initialisation with
  its error. The result is \<open>None\<close> in the first component when all succeeded.
\<close>

definition virtio_pci_setup_msix ::
  "env \<Rightarrow> u16 \<Rightarrow> virtio_pci_device \<Rightarrow> hist \<Rightarrow> rc option \<times> virtio_pci_device \<times> int option \<times> hist" where
  "virtio_pci_setup_msix env msix_vector_count p h =
     (let (_, n, h) = virtio_pci_read_msix_vector_count env (Some p) (Some (pci_msix_vector_count p)) h;
          p = p\<lparr> pci_msix_vector_count := (case n of Some n \<Rightarrow> n | None \<Rightarrow> pci_msix_vector_count p) \<rparr>
      in if pci_msix_vector_count p < msix_vector_count then (Some EINVAL, p, None, h)
      else
      let p = p\<lparr> pci_msix_vector_count := msix_vector_count \<rparr>;
          (e, h) = pci_err env (MsixSetNirq (pci_pci p) (pci_msix p) (pci_msix_vector_count p)) h
      in if e \<noteq> 0 then (Some e, p, None, h)
      else
      let (e, h) = pci_err env (MsixSetIrqEntry (pci_pci p) (pci_msix p)) h
      in if e \<noteq> 0 then (Some e, p, None, h)
      else
      let (e, h) = pci_err env (CfgCapEnable (pci_pci p) (pci_msix p)) h
      in if e \<noteq> 0 then (Some e, p, None, h)
      else
      let c = PciReadIrq (pci_pci p) 1; irq = env_pci_int env h c; (e, h) = pci_err env c h
      in if e \<noteq> 0 then (Some e, p, None, h)
      else
      let (e, h) = pci_err env (MsixUnmaskIrqEntry (pci_pci p) (pci_msix p)) h
      in if e \<noteq> 0 then (Some e, p, Some irq, h)
      else (None, p, Some irq, h))"

definition virtio_pci_find :: "env \<Rightarrow> u32 \<Rightarrow> u16 \<Rightarrow> hist \<Rightarrow> u32 \<times> hist" where
  "virtio_pci_find env index type h =
     (let (w, h) = pci_word env (PciDeviceFind index 0x1AF4 (0x1040 + type)) h in (ucast w, h))"

text \<open>
  \<open>dev->priv\<close> points to the structure \<open>p\<close> from the start: the final \<open>p\<close> is stored in the device
  wherever the function ends. The second part of the function, from the bars on, is a definition of
  its own.
\<close>

definition pci_with_priv ::
  "(virtio_pci_device, 's) virtio_device \<Rightarrow> virtio_pci_device \<Rightarrow> (virtio_pci_device, 's) virtio_device" where
  "pci_with_priv dev p = dev\<lparr> vd_base := vd_base dev\<lparr> vd_priv := Some p, vd_legacy := False \<rparr> \<rparr>"

definition virtio_pci_init_cfg ::
  "env \<Rightarrow> (virtio_pci_device, 's) virtio_device \<Rightarrow> u16 \<Rightarrow> virtio_pci_device \<Rightarrow> hist \<Rightarrow>
   (rc \<times> (virtio_pci_device, 's) virtio_device \<times> hist) option" where
  "virtio_pci_init_cfg env dev msix_vector_count p h = do {
     common \<leftarrow> arr_get (pci_mapped_bars p) (unat (cap_bar (pci_common_cfg_cap p)));
     device \<leftarrow> arr_get (pci_mapped_bars p) (unat (cap_bar (pci_device_cfg_cap p)));
     notify \<leftarrow> arr_get (pci_mapped_bars p) (unat (cap_bar (pci_notify_cfg_cap p)));
     let p = p\<lparr> pci_common_cfg := common + ucast (cap_offset (pci_common_cfg_cap p)),
                pci_device_cfg := device + ucast (cap_offset (pci_device_cfg_cap p)),
                pci_notify_cfg := notify + ucast (cap_offset (pci_notify_cfg_cap p)) \<rparr>
     in if 0 < msix_vector_count \<and> pci_msix p = 0 then pci_detach_pci env EINVAL p (pci_with_priv dev p) h
     else
     let (failed, p, irq, h) =
           (if pci_msix p \<noteq> 0 then virtio_pci_setup_msix env msix_vector_count p h
            else (None, p, None, h));
         dev = pci_with_priv dev p;
         dev = (case irq of None \<Rightarrow> dev | Some i \<Rightarrow> dev\<lparr> vd_base := vd_base dev\<lparr> vd_irq := i \<rparr> \<rparr>)
     in case failed of
          Some rc \<Rightarrow> pci_detach_pci env rc p dev h
        | None \<Rightarrow> Some (EOK, dev\<lparr> vd_ops := Some virtio_pci_ops \<rparr>, h)
   }"

definition virtio_pci_init ::
  "env \<Rightarrow> (virtio_pci_device, 's) virtio_device \<Rightarrow> u16 \<Rightarrow> size_t \<Rightarrow> u16 \<Rightarrow> hist \<Rightarrow>
   (rc \<times> (virtio_pci_device, 's) virtio_device \<times> hist) option" where
  "virtio_pci_init env dev type index msix_vector_count h =
     (let (r, h) = calloc env 1 ''struct virtio_pci_device'' h
      in case r of
           Inl _ \<Rightarrow> pci_free_vdev env ENOMEM dev h
         | Inr a \<Rightarrow>
      let p = virtio_pci_device0 a;
          (bdf, h) = virtio_pci_find env (ucast index) type h;
          p = p\<lparr> pci_bdf := bdf \<rparr>
      in if bdf = env_pci_bdf_none env then pci_free_pdev env ENODEV p (pci_with_priv dev p) h
      else
      let c = PciDeviceAttach (pci_bdf p);
          p = p\<lparr> pci_pci := env_pci_word env h c \<rparr>;
          (e, h) = pci_err env c h
      in if e \<noteq> 0 then pci_free_pdev env e p (pci_with_priv dev p) h
      else do {
        (rc, p, h) \<leftarrow> virtio_pci_find_caps env p h;
        (if rc \<noteq> 0 then pci_detach_pci env rc p (pci_with_priv dev p) h
         else do {
           (rc, p, h) \<leftarrow> virtio_pci_map_bars env p h;
           (if rc \<noteq> 0 then pci_detach_pci env rc p (pci_with_priv dev p) h
            else virtio_pci_init_cfg env dev msix_vector_count p h)
         })
      })"

section \<open>The transport interface\<close>

definition pci_ready :: "pci_base \<Rightarrow> bool" where
  "pci_ready b \<longleftrightarrow> (\<exists>p. vd_priv b = Some p \<and> pci_common_cfg p \<noteq> 0 \<and> pci_notify_cfg p \<noteq> 0)"

definition pci_reg :: "pci_base \<Rightarrow> common_cfg_field \<Rightarrow> u64" where
  "pci_reg b f = pci_common_cfg (the (vd_priv b)) + cfg_offset f"

text \<open>A store and a load of a field, as events.\<close>

definition pci_wr :: "pci_base \<Rightarrow> common_cfg_field \<Rightarrow> u64 \<Rightarrow> event" where
  "pci_wr b f v = RegWrite (pci_reg b f) (cfg_width f) v"

definition pci_val :: "env \<Rightarrow> pci_base \<Rightarrow> common_cfg_field \<Rightarrow> hist \<Rightarrow> u64" where
  "pci_val env b f h = take_bit (8 * cfg_width f) (env_reg env h (pci_reg b f) (cfg_width f))"

definition pci_rd :: "env \<Rightarrow> pci_base \<Rightarrow> common_cfg_field \<Rightarrow> hist \<Rightarrow> event" where
  "pci_rd env b f h = RegRead (pci_reg b f) (cfg_width f) (pci_val env b f h)"

lemma pci_events [simp]:
  "is_reg (pci_wr b f v)" "\<not> is_read (pci_wr b f v)" "is_read (pci_rd env b f h)" "is_reg (pci_rd env b f h)"
  by (simp_all add: pci_wr_def pci_rd_def)

lemma cfg_write_eq: "vd_priv b = Some p \<Longrightarrow> cfg_write p f v h = pci_wr b f v # h"
  by (simp add: cfg_write_def pci_wr_def pci_reg_def)

lemma cfg_read_eq: "vd_priv b = Some p \<Longrightarrow> cfg_read env p f h = (pci_val env b f h, pci_rd env b f h # h)"
  by (simp add: cfg_read_def pci_rd_def pci_val_def pci_reg_def)

lemma with_pdev_ready:
  "pci_ready b \<Longrightarrow> with_pdev (Some b) f h = (EOK, f (the (vd_priv b)) h)"
  by (auto simp: with_pdev_def pci_ready_def)

lemma with_pdev_out_ready:
  "pci_ready b \<Longrightarrow> with_pdev_out (Some b) (Some old) f h =
     (EOK, Some (fst (f (the (vd_priv b)) h)), snd (f (the (vd_priv b)) h))"
  by (auto simp: with_pdev_out_def pci_ready_def split_beta)

lemma pci_cfg_write: "pci_ready b \<Longrightarrow> cfg_write (the (vd_priv b)) f v h = pci_wr b f v # h"
  by (auto simp: pci_ready_def cfg_write_eq)

lemma pci_cfg_read:
  "pci_ready b \<Longrightarrow> cfg_read env (the (vd_priv b)) f h = (pci_val env b f h, pci_rd env b f h # h)"
  by (auto simp: pci_ready_def cfg_read_eq)

text \<open>Where a notification of a queue goes: the address read and the single byte stored.\<close>

definition pci_notify_addr :: "env \<Rightarrow> pci_base \<Rightarrow> hist \<Rightarrow> u64" where
  "pci_notify_addr env b h =
     pci_notify_cfg (the (vd_priv b)) +
     ucast (ucast (pci_val env b queue_notify_off h) * notify_off_multiplier (pci_notify_cfg_cap (the (vd_priv b))) :: u32)"

definition pci_notify_events :: "env \<Rightarrow> pci_base \<Rightarrow> u16 \<Rightarrow> hist \<Rightarrow> hist" where
  "pci_notify_events env b i h =
     [RegWrite (pci_notify_addr env b h) 1 (ucast (ucast i :: u8)), pci_rd env b queue_notify_off h]"

lemmas pci_op_defs =
  virtio_pci_get_device_status_def virtio_pci_set_device_status_def virtio_pci_reset_device_def
  virtio_pci_select_queue_def virtio_pci_enable_queue_def virtio_pci_set_queue_reset_def
  virtio_pci_get_queue_reset_def virtio_pci_queue_size_def virtio_pci_set_queue_size_def

definition pci_rd_status :: "env \<Rightarrow> pci_base \<Rightarrow> hist \<Rightarrow> u8 \<times> event" where
  "pci_rd_status env b h = (ucast (pci_val env b device_status h), pci_rd env b device_status h)"

definition pci_rd_reset :: "env \<Rightarrow> pci_base \<Rightarrow> hist \<Rightarrow> u32 \<times> event" where
  "pci_rd_reset env b h = (ucast (pci_val env b queue_reset h), pci_rd env b queue_reset h)"

definition pci_rd_max :: "env \<Rightarrow> pci_base \<Rightarrow> hist \<Rightarrow> u16 \<times> event" where
  "pci_rd_max env b h = (ucast (pci_val env b queue_size h), pci_rd env b queue_size h)"

interpretation pc: transport virtio_pci_ops pci_ready pci_rd_status
    "\<lambda>b st. [pci_wr b device_status (ucast st)]"
    "\<lambda>b i. [pci_wr b queue_select (ucast i)]"
    pci_notify_events
    "\<lambda>b en. [pci_wr b queue_enable (if en then 1 else 0), pci_wr b queue_msix_vector 0]"
    "\<lambda>b n. [pci_wr b queue_size (ucast n)]"
    "\<lambda>b. [pci_wr b queue_reset 1]"
    pci_rd_reset pci_rd_max
proof (unfold_locales, goal_cases)
  case (5 b env i h)
  then obtain p where "vd_priv b = Some p" "pci_common_cfg p \<noteq> 0" "pci_notify_cfg p \<noteq> 0"
    by (auto simp: pci_ready_def)
  then show ?case
    by (simp add: virtio_pci_ops_def virtio_pci_notify_queue_def cfg_read_eq [of b] pci_notify_events_def
        pci_notify_addr_def)
qed (simp_all add: virtio_pci_ops_def pci_op_defs with_pdev_ready with_pdev_out_ready pci_cfg_write pci_cfg_read
      pci_rd_status_def pci_rd_reset_def pci_rd_max_def pci_notify_events_def)

section \<open>Properties of the device over this transport\<close>

definition pci_example :: "(virtio_pci_device, unit) virtio_device" where
  "pci_example = \<lparr> vd_base = \<lparr> vd_self = 0x3000, vd_legacy = False, vd_device_reset_timeout_ms = 500,
     vd_device_reset_poll_interval_ms = 10, vd_queue_reset_timeout_ms = 500,
     vd_queue_reset_poll_interval_ms = 10, vd_irq = 42,
     vd_priv = Some ((virtio_pci_device0 0x4000)\<lparr> pci_common_cfg := 0x100000, pci_notify_cfg := 0x103000,
       pci_device_cfg := 0x102000 \<rparr>) \<rparr>,
     vd_ops = Some virtio_pci_ops \<rparr>"

lemma pci_example_sel [simp]:
  "vd_ops pci_example = Some virtio_pci_ops" "pci_ready (vd_base pci_example)"
  "vd_device_reset_poll_interval_ms (vd_base pci_example) = 10"
  by (simp_all add: pci_example_def pci_ready_def)

text \<open>
  A device reset over PCI returns: at most timeout / interval (rounded up) + 1 reads of the
  status, and \<open>EOK\<close> exactly when the last of them was 0.
\<close>

theorem pci_reset_device:
  assumes "vd_ops dev = Some virtio_pci_ops" and "pci_ready (vd_base dev)" and "delays_ok env"
    and "vd_device_reset_poll_interval_ms (vd_base dev) \<noteq> 0"
  shows "\<exists>rc es v. let h1 = pci_wr (vd_base dev) device_status 0 # h in
     virtio_reset_device env dev h = Some (rc, RegRead (pci_reg (vd_base dev) device_status) 1 v # es @ h1) \<and>
     rc = (if (ucast v :: u8) = 0 then EOK else ETIMEDOUT) \<and> quiet h (es @ h1) \<and>
     reads es \<le> (unat (vd_device_reset_timeout_ms (vd_base dev)) +
                  (unat (vd_device_reset_poll_interval_ms (vd_base dev)) - 1))
                 div unat (vd_device_reset_poll_interval_ms (vd_base dev))"
proof -
  let ?h = "pci_wr (vd_base dev) device_status 0 # h"
  obtain rc es es' where es: "virtio_reset_device env dev h = Some (rc, es @ ?h)" "quiet h (es @ ?h)"
      "es = snd (pci_rd_status env (vd_base dev) (es' @ ?h)) # es'"
      "rc = (if fst (pci_rd_status env (vd_base dev) (es' @ ?h)) = 0 then EOK else ETIMEDOUT)"
      "reads es \<le> Suc ((unat (vd_device_reset_timeout_ms (vd_base dev)) +
                        (unat (vd_device_reset_poll_interval_ms (vd_base dev)) - 1))
                      div unat (vd_device_reset_poll_interval_ms (vd_base dev)))"
    using pc.reset_device [OF assms, of h] by auto
  have "quiet h (es' @ ?h)"
    using es(2,3) by (simp add: quiet_def pci_rd_status_def pci_rd_def)
  then show ?thesis
    using es
    by (intro exI [of _ rc] exI [of _ es'] exI [of _ "pci_val env (vd_base dev) device_status (es' @ ?h)"])
      (simp add: pci_rd_status_def pci_rd_def)
qed

theorem pci_reset_device_witness:
  "\<exists>rc h'. virtio_reset_device env0 pci_example [] = Some (rc, h')"
  using pci_reset_device [of pci_example env0 "[]"] by (auto simp: Let_def)

text \<open>
  Notifying a queue over PCI. The queue is selected, its notification offset is read and one
  byte is stored, inside one critical section. The byte is the queue index mod 256: the index
  reaches the device exactly when it is below 256.
\<close>

theorem pci_notify_queue_byte:
  assumes "vd_ops dev = Some virtio_pci_ops" and "pci_ready (vd_base dev)"
    and "env_spin_lock env h (device_lock dev) = EOK"
  shows "\<exists>u a off v. virtio_notify_queue env (Some dev) i h = Some (EOK, SpinUnlock (device_lock dev) u #
       RegWrite a 1 v # RegRead (pci_reg (vd_base dev) queue_notify_off) 2 off #
       pci_wr (vd_base dev) queue_select (ucast i) # SpinLock (device_lock dev) 0 # h) \<and>
     unat v = unat i mod 256 \<and> (v = ucast i \<longleftrightarrow> unat i < 256)"
proof -
  have v: "unat (ucast (ucast i :: u8) :: u64) = unat i mod 256"
    by (simp add: unsigned_ucast_eq take_bit_eq_mod take_bit_nat_eq_self unat_mod)
  then have "ucast (ucast i :: u8) = (ucast i :: u64) \<longleftrightarrow> unat i < 256"
    by (simp add: word_unat_eq_iff mod_eq_self_iff_div_eq_0 div_eq_0_iff)
  with v show ?thesis
    using pc.notify_queue [OF assms, of i]
    by (simp add: critical_def Let_def pci_notify_events_def pci_rd_def)
qed

theorem pci_notify_queue_byte_witness:
  "\<exists>h' a. virtio_notify_queue env0 (Some pci_example) 256 [] = Some (EOK, h') \<and> RegWrite a 1 0 \<in> set h'"
proof -
  have "env_spin_lock env0 [] (device_lock pci_example) = EOK" by simp
  from pci_notify_queue_byte [OF pci_example_sel(1,2) this, of 256]
  obtain u a off v where *: "virtio_notify_queue env0 (Some pci_example) 256 [] = Some (EOK, [SpinUnlock (device_lock pci_example) u,
       RegWrite a 1 v, RegRead (pci_reg (vd_base pci_example) queue_notify_off) 2 off,
       pci_wr (vd_base pci_example) queue_select (ucast (256::u16)), SpinLock (device_lock pci_example) 0])"
      "unat v = unat (256::u16) mod 256" by auto
  then have "v = 0" by (simp add: word_unat_eq_iff)
  with *(1) show ?thesis by force
qed

text \<open>
  The queue's three addresses are stored whole, each with one 64-bit store, descriptor table
  first; a null queue is refused without a store.
\<close>

theorem pci_set_queue_addr_spec:
  assumes "pci_ready b"
  shows "virtio_pci_set_queue_addr env b vq h =
     (case vq of
        None \<Rightarrow> Some (EINVAL, h)
      | Some q \<Rightarrow> Some (EOK, pci_wr b queue_device (vq_used_paddr q) # pci_wr b queue_driver (vq_avail_paddr q) #
                        pci_wr b queue_desc (vq_desc_paddr q) # h))"
proof -
  obtain p where "vd_priv b = Some p" "pci_common_cfg p \<noteq> 0" using assms by (auto simp: pci_ready_def)
  then show ?thesis
    by (simp add: virtio_pci_set_queue_addr_def virtq_desc_paddr_def virtq_avail_paddr_def
        virtq_used_paddr_def cfg_write_eq [of b] split: option.splits)
qed

theorem pci_set_queue_addr_spec_witness:
  "virtio_pci_set_queue_addr env0 (vd_base pci_example) (Some virtq_example) [] =
     Some (EOK, [pci_wr (vd_base pci_example) queue_device 0x52000, pci_wr (vd_base pci_example) queue_driver 0x51000,
                 pci_wr (vd_base pci_example) queue_desc 0x50000])"
  using pci_set_queue_addr_spec [OF pci_example_sel(2), of env0 "Some virtq_example" "[]"]
  by (simp add: virtq_example_def)

text \<open>
  Reading the GPIO configuration, two words, over PCI. The function steps through word arrays
  in steps of four: the second word of the destination is not written; what is written second is
  the destination's word 4, 16 bytes in, with the device's word 4. If the destination has only
  the two words asked for, the write is outside it.
\<close>

theorem pci_read_device_config_overrun:
  assumes "vd_priv b = Some p"
  shows "if length dst \<le> 4 then virtio_pci_read_device_config env (Some b) (Some dst) 8 0 h = None
     else \<exists>v0 v4 r0 r4. virtio_pci_read_device_config env (Some b) (Some dst) 8 0 h =
       Some (EOK, Some (dst[0 := v0, 4 := v4]), RegRead (pci_device_cfg p + 16) 4 r4 # RegRead (pci_device_cfg p) 4 r0 # h)"
proof -
  have k: "(unat (8::size_t) + 3) div 4 = Suc (Suc 0)" by simp
  show ?thesis
    unfolding virtio_pci_read_device_config_def k using assms by (cases "dst = []") (auto simp: arr_set_def)
qed

theorem pci_read_device_config_overrun_witness:
  "virtio_pci_read_device_config env0 (Some (vd_base pci_example)) (Some [0, 0]) 8 0 [] = None"
proof -
  obtain p where p: "vd_priv (vd_base pci_example) = Some p" by (simp add: pci_example_def)
  show ?thesis using pci_read_device_config_overrun [OF p, of "[0, 0]" env0 "[]"] by simp
qed

section \<open>Initialisation\<close>

text \<open>What finding capabilities leaves alone.\<close>

definition pci_same :: "virtio_pci_device \<Rightarrow> virtio_pci_device \<Rightarrow> bool" where
  "pci_same p p' \<longleftrightarrow> pci_self p' = pci_self p \<and> pci_bdf p' = pci_bdf p \<and> pci_pci p' = pci_pci p \<and>
     pci_mapped_bars p' = pci_mapped_bars p"

lemma pci_same_refl [simp]: "pci_same p p"
  by (simp add: pci_same_def)

lemma pci_same_trans: "pci_same p q \<Longrightarrow> pci_same q r \<Longrightarrow> pci_same p r"
  by (simp add: pci_same_def)

lemma quiet_pci [simp]: "quiet h (Pci c # h)"
  by (simp add: quiet_def)

lemma virtio_pci_store_cap_quiet:
  "virtio_pci_store_cap env cap t p h = (r, p', h') \<Longrightarrow> quiet h h' \<and> pci_same p p'"
  by (auto simp: virtio_pci_store_cap_def virtio_pci_read_pci_cap_def virtio_pci_read_pci_notify_cap_def
      cap_vend_read_bytes_def pci_same_def Let_def split: if_splits)

definition caps_result :: "virtio_pci_device \<Rightarrow> hist \<Rightarrow> rc option \<times> virtio_pci_device \<times> hist \<Rightarrow> bool" where
  "caps_result p h r \<longleftrightarrow> quiet h (snd (snd r)) \<and> pci_same p (fst (snd r)) \<and> fst r \<noteq> Some 0"

lemma virtio_pci_vendor_caps_quiet:
  assumes ret: "virtio_pci_vendor_caps env index p h = Some r"
  shows "caps_result p h r"
proof (rule virtio_pci_vendor_caps.raw_induct [where P = "\<lambda>env index p h r. caps_result p h r", OF _ ret], goal_cases)
  case (1 f env index p h r)
  let ?c1 = "PciReadCap (pci_bdf p) index"
  let ?cap = "env_pci_word env h ?c1" and ?h1 = "Pci ?c1 # h"
  let ?c2 = "CapVendReadBytes ?cap 1"
  let ?h2 = "Pci ?c2 # ?h1"
  obtain r3 p3 h3 where st: "virtio_pci_store_cap env ?cap (env_pci_byte env ?h1 ?c2 0) p ?h2 = (r3, p3, h3)"
    by (cases "virtio_pci_store_cap env ?cap (env_pci_byte env ?h1 ?c2 0) p ?h2") auto
  note q3 = virtio_pci_store_cap_quiet [OF st]
  let ?c4 = "PciFindCapidNext (pci_bdf p3) CAPID_VEND index"
  have q: "quiet h h3" using q3 by (simp add: quiet_def)
  have body: "(if index = -1 then Some (None, p, h)
      else if env_pci_err env h ?c1 \<noteq> 0 then Some (Some (env_pci_err env h ?c1), p, ?h1)
      else if env_pci_err env ?h1 ?c2 \<noteq> 0 then Some (Some (env_pci_err env ?h1 ?c2), p, ?h2)
      else if r3 \<noteq> 0 then Some (Some r3, p3, h3)
      else f env (env_pci_int env h3 ?c4) p3 (Pci ?c4 # h3)) = Some r"
    using 1(2) st by (simp add: pci_device_read_cap_def cap_vend_read_bytes_def split: if_splits)
  show ?case
  proof (cases "index = -1 \<or> env_pci_err env h ?c1 \<noteq> 0 \<or> env_pci_err env ?h1 ?c2 \<noteq> 0 \<or> r3 \<noteq> 0")
    case True
    then show ?thesis using body q q3 by (auto simp: caps_result_def quiet_def split: if_splits)
  next
    case False
    then have "f env (env_pci_int env h3 ?c4) p3 (Pci ?c4 # h3) = Some r" using body by simp
    then have "caps_result p3 (Pci ?c4 # h3) r" by (rule 1(1))
    then show ?thesis
      using q q3 pci_same_trans by (auto simp: caps_result_def quiet_def)
  qed
qed

lemma virtio_pci_find_caps_quiet:
  assumes "virtio_pci_find_caps env p h = Some (rc, p', h')"
  shows "quiet h h' \<and> pci_same p p'"
proof -
  let ?c = "PciFindCapid (pci_bdf p) CAPID_VEND"
  obtain res p1 h1 where v: "virtio_pci_vendor_caps env (env_pci_int env h ?c) p (Pci ?c # h) = Some (res, p1, h1)"
    using assms by (auto simp: virtio_pci_find_caps_def bind_eq_Some_conv)
  have "quiet h h1 \<and> pci_same p p1"
    using virtio_pci_vendor_caps_quiet [OF v] by (simp add: caps_result_def quiet_def)
  moreover have "quiet h1 h' \<and> pci_same p1 p'"
    using assms v
    by (auto simp: virtio_pci_find_caps_def pci_device_read_cap_def pci_same_def quiet_def
        split: option.splits if_splits)
  ultimately show ?thesis using quiet_trans pci_same_trans by blast
qed

lemma virtio_pci_map_bars_from_frees:
  "virtio_pci_map_bars_from env bars k i mapped h = Some (mapped', h') \<Longrightarrow>
   frees h' = frees h \<and> (\<forall>l. held l h' = held l h) \<and> length mapped' = length mapped"
proof (induction env bars k i mapped h rule: virtio_pci_map_bars_from.induct)
  case (2 env bars k i mapped h)
  from "2.prems" obtain ba where ba: "arr_get bars i = Some ba"
    by (auto simp: bind_eq_Some_conv)
  show ?case
  proof (cases "ba_size ba = 0")
    case True
    then show ?thesis using "2.prems" ba "2.IH"(1) [OF ba True] by simp
  next
    case False
    let ?r = "env_mmap env h (Some (ba_addr ba)) (ba_size ba)"
    let ?h = "Mmap (Some (ba_addr ba)) (ba_size ba) ?r # h"
    have nn: "\<not> ba_num ba < 0" using "2.prems" ba False by (auto split: if_splits)
    then obtain m where m: "arr_set mapped (nat (ba_num ba)) (map_result ?r) = Some m"
        "virtio_pci_map_bars_from env bars k (Suc i) m ?h = Some (mapped', h')"
      using "2.prems" ba False by (auto simp: bind_eq_Some_conv)
    have "frees h' = frees ?h \<and> (\<forall>l. held l h' = held l ?h) \<and> length mapped' = length m"
      by (rule "2.IH"(2) [OF ba False refl _ nn m]) simp
    then show ?thesis using m(1) by (auto simp: arr_set_eq_Some)
  qed
qed simp

lemma virtio_pci_map_bars_frees:
  assumes "virtio_pci_map_bars env p h = Some (rc, p', h')"
  shows "frees h' = frees h \<and> (\<forall>l. held l h' = held l h) \<and> pci_self p' = pci_self p \<and> pci_bdf p' = pci_bdf p"
  using assms virtio_pci_map_bars_from_frees
  by (fastforce simp: virtio_pci_map_bars_def Let_def bind_eq_Some_conv split: if_splits)

lemma virtio_pci_setup_msix_frees:
  assumes "virtio_pci_setup_msix env n p h = (failed, p', irq, h')"
  shows "frees h' = frees h \<and> (\<forall>l. held l h' = held l h) \<and> live h' = live h \<and>
     pci_self p' = pci_self p \<and> pci_bdf p' = pci_bdf p \<and> pci_msix p' = pci_msix p \<and>
     pci_common_cfg p' = pci_common_cfg p \<and> failed \<noteq> Some 0 \<and> (failed = None \<longrightarrow> pci_msix_vector_count p' = n)"
  using assms
  by (auto simp: virtio_pci_setup_msix_def virtio_pci_read_msix_vector_count_def Let_def split: if_splits)

text \<open>
  The PCI library as documented: \<open>pci_device_find_capid_next\<close> goes through the list of
  capabilities, so the index it returns is beyond the one it was given, or -1; no device function
  has more than 48 capabilities in its 256 bytes of configuration space.
\<close>

definition caps_listed :: "env \<Rightarrow> bool" where
  "caps_listed env \<longleftrightarrow>
     (\<forall>h bdf i. let j = env_pci_int env h (PciFindCapidNext bdf CAPID_VEND i) in j = -1 \<or> i < j \<and> j < 48)"

lemma virtio_pci_vendor_caps_total:
  assumes "caps_listed env"
  shows "\<exists>r. virtio_pci_vendor_caps env i p h = Some r"
proof (induction "nat (48 - i)" arbitrary: i p h rule: less_induct)
  case less
  show ?case
  proof (cases "i = -1")
    case True
    then show ?thesis by (subst virtio_pci_vendor_caps.simps) simp
  next
    case False
    let ?c1 = "PciReadCap (pci_bdf p) i"
    let ?cap = "env_pci_word env h ?c1" and ?h1 = "Pci ?c1 # h"
    let ?c2 = "CapVendReadBytes ?cap 1"
    let ?h2 = "Pci ?c2 # ?h1"
    obtain r3 p3 h3 where st: "virtio_pci_store_cap env ?cap (env_pci_byte env ?h1 ?c2 0) p ?h2 = (r3, p3, h3)"
      by (cases "virtio_pci_store_cap env ?cap (env_pci_byte env ?h1 ?c2 0) p ?h2") auto
    let ?c4 = "PciFindCapidNext (pci_bdf p3) CAPID_VEND i"
    let ?j = "env_pci_int env h3 ?c4"
    have rest: "\<exists>r. virtio_pci_vendor_caps env ?j p3 (Pci ?c4 # h3) = Some r"
    proof (cases "?j = -1")
      case True
      then show ?thesis by (subst virtio_pci_vendor_caps.simps) simp
    next
      case False
      then have "i < ?j \<and> ?j < 48"
        using assms unfolding caps_listed_def Let_def by blast
      then have "nat (48 - ?j) < nat (48 - i)" by simp
      then show ?thesis by (rule less)
    qed
    show ?thesis
      using False st rest
      by (subst virtio_pci_vendor_caps.simps) (simp add: pci_device_read_cap_def cap_vend_read_bytes_def)
  qed
qed

text \<open>
  The search for capabilities ends. With a library that walks the capability list as
  documented, \<open>virtio_pci_find_caps\<close> returns for every device, takes no lock, maps nothing and frees
  nothing, whatever the other calls answer.
\<close>

theorem virtio_pci_find_caps_total:
  assumes "caps_listed env"
  shows "\<exists>rc p' h'. virtio_pci_find_caps env p h = Some (rc, p', h') \<and> quiet h h' \<and> pci_self p' = pci_self p"
proof -
  let ?c = "PciFindCapid (pci_bdf p) CAPID_VEND"
  obtain res p1 h1 where v: "virtio_pci_vendor_caps env (env_pci_int env h ?c) p (Pci ?c # h) = Some (res, p1, h1)"
    using virtio_pci_vendor_caps_total [OF assms, of "env_pci_int env h ?c" p "Pci ?c # h"] by auto
  then have "\<exists>x. virtio_pci_find_caps env p h = Some x"
    by (cases res) (auto simp: virtio_pci_find_caps_def pci_device_read_cap_def)
  then obtain rc p' h' where run: "virtio_pci_find_caps env p h = Some (rc, p', h')" by auto
  then show ?thesis
    using virtio_pci_find_caps_quiet [OF run] by (auto simp: pci_same_def)
qed

theorem virtio_pci_find_caps_total_witness:
  "\<exists>rc p' h'. virtio_pci_find_caps env0 (virtio_pci_device0 0x4000) [] = Some (rc, p', h')"
proof -
  have "caps_listed env0" by (simp add: caps_listed_def)
  from virtio_pci_find_caps_total [OF this] show ?thesis by blast
qed

text \<open>What an outcome of the initialiser on device \<open>dev\<close> from history \<open>h\<close> must satisfy.\<close>

definition pci_init_result ::
  "env \<Rightarrow> (virtio_pci_device, 's) virtio_device \<Rightarrow> u16 \<Rightarrow> hist \<Rightarrow> rc \<Rightarrow> (virtio_pci_device, 's) virtio_device \<Rightarrow> hist \<Rightarrow> bool" where
  "pci_init_result env dev n h rc dev' h' \<longleftrightarrow>
     (if rc = EOK then
        vd_ops dev' = Some virtio_pci_ops \<and> \<not> vd_legacy (vd_base dev') \<and> frees h' = frees h \<and>
        (\<exists>p. vd_priv (vd_base dev') = Some p \<and> pci_bdf p \<noteq> env_pci_bdf_none env \<and>
             (0 < n \<longrightarrow> pci_msix p \<noteq> 0) \<and> (pci_msix p \<noteq> 0 \<longrightarrow> pci_msix_vector_count p = n))
      else
        vd_ops dev' = vd_ops dev \<and>
        (\<exists>ps. frees h' = vd_self (vd_base dev) # ps @ frees h \<and> length ps \<le> 1)) \<and>
     (\<forall>l. held l h' = held l h)"

lemma pci_init_failed:
  assumes "\<And>h l. env_spin_destroy env h l = EOK" and "frees h1 = frees h" and "\<forall>l. held l h1 = held l h"
    and "rc \<noteq> EOK" and "vd_ops dev1 = vd_ops dev" and "vd_self (vd_base dev1) = vd_self (vd_base dev)"
  shows "pci_detach_pci env rc p dev1 h1 = Some (rc', dev', h') \<Longrightarrow> pci_init_result env dev n h rc' dev' h'"
    and "pci_free_pdev env rc p dev1 h1 = Some (rc', dev', h') \<Longrightarrow> pci_init_result env dev n h rc' dev' h'"
    and "pci_free_vdev env rc dev1 h1 = Some (rc', dev', h') \<Longrightarrow> pci_init_result env dev n h rc' dev' h'"
  using assms
  by (auto simp: pci_detach_pci_def pci_free_pdev_def pci_free_vdev_def virtio_destroy_def pci_init_result_def)

lemma pci_with_priv_simps [simp]:
  "vd_ops (pci_with_priv dev p) = vd_ops dev" "vd_self (vd_base (pci_with_priv dev p)) = vd_self (vd_base dev)"
  "vd_priv (vd_base (pci_with_priv dev p)) = Some p" "\<not> vd_legacy (vd_base (pci_with_priv dev p))"
  by (simp_all add: pci_with_priv_def)

lemma virtio_pci_init_cfg_run:
  assumes "\<And>h l. env_spin_destroy env h l = EOK" and q: "frees h1 = frees h" "\<forall>l. held l h1 = held l h"
    and bdf: "pci_bdf p \<noteq> env_pci_bdf_none env"
    and ret: "virtio_pci_init_cfg env dev n p h1 = Some (rc, dev', h')"
  shows "pci_init_result env dev n h rc dev' h'"
proof -
  obtain cb db nb where b: "arr_get (pci_mapped_bars p) (unat (cap_bar (pci_common_cfg_cap p))) = Some cb"
      "arr_get (pci_mapped_bars p) (unat (cap_bar (pci_device_cfg_cap p))) = Some db"
      "arr_get (pci_mapped_bars p) (unat (cap_bar (pci_notify_cfg_cap p))) = Some nb"
    using ret by (auto simp: virtio_pci_init_cfg_def bind_eq_Some_conv)
  let ?p = "p\<lparr> pci_common_cfg := cb + ucast (cap_offset (pci_common_cfg_cap p)),
               pci_device_cfg := db + ucast (cap_offset (pci_device_cfg_cap p)),
               pci_notify_cfg := nb + ucast (cap_offset (pci_notify_cfg_cap p)) \<rparr>"
  note defs = virtio_pci_init_cfg_def b Let_def
  note failed = pci_init_failed(1) [OF assms(1), rotated 5]
  consider (none) "0 < n" "pci_msix p = 0" | (plain) "n = 0" "pci_msix p = 0" | (msix) "pci_msix p \<noteq> 0"
    using word_neq_0_conv [of n] by blast
  then show ?thesis
  proof cases
    case none
    then have "pci_detach_pci env EINVAL ?p (pci_with_priv dev ?p) h1 = Some (rc, dev', h')"
      using ret by (simp add: defs)
    then show ?thesis by (rule failed) (use q in simp_all)
  next
    case plain
    then show ?thesis using ret q bdf by (auto simp: defs pci_init_result_def)
  next
    case msix
    obtain e p1 irq h2 where m: "virtio_pci_setup_msix env n ?p h1 = (e, p1, irq, h2)"
      by (cases "virtio_pci_setup_msix env n ?p h1") auto
    let ?dev = "case irq of None \<Rightarrow> pci_with_priv dev p1
                  | Some i \<Rightarrow> (pci_with_priv dev p1)\<lparr> vd_base := (vd_base (pci_with_priv dev p1))\<lparr> vd_irq := i \<rparr> \<rparr>"
    show ?thesis
    proof (cases e)
      case None
      then show ?thesis
        using ret msix m q bdf virtio_pci_setup_msix_frees [OF m]
        by (auto simp: defs pci_init_result_def split: option.splits)
    next
      case (Some rc1)
      then have "pci_detach_pci env rc1 p1 ?dev h2 = Some (rc, dev', h')"
        using ret msix m by (simp add: defs)
      then show ?thesis
        by (rule failed) (use q Some virtio_pci_setup_msix_frees [OF m] in \<open>auto split: option.splits\<close>)
    qed
  qed
qed

lemma virtio_pci_init_attached_run:
  assumes "\<And>h l. env_spin_destroy env h l = EOK" and q: "frees h1 = frees h" "\<forall>l. held l h1 = held l h"
    and bdf: "pci_bdf p \<noteq> env_pci_bdf_none env"
    and caps: "virtio_pci_find_caps env p h1 = Some (rc1, p1, h2)"
    and ret: "(if rc1 \<noteq> 0 then pci_detach_pci env rc1 p1 (pci_with_priv dev p1) h2
               else do {
                 (rc, p, h) \<leftarrow> virtio_pci_map_bars env p1 h2;
                 (if rc \<noteq> 0 then pci_detach_pci env rc p (pci_with_priv dev p) h
                  else virtio_pci_init_cfg env dev n p h)
               }) = Some (rc, dev', h')"
  shows "pci_init_result env dev n h rc dev' h'"
proof -
  note failed = pci_init_failed(1) [OF assms(1), rotated 5]
  have q1: "frees h2 = frees h" "\<forall>l. held l h2 = held l h" "pci_bdf p1 = pci_bdf p"
    using virtio_pci_find_caps_quiet [OF caps] q by (simp_all add: quiet_def pci_same_def)
  show ?thesis
  proof (cases "rc1 = 0")
    case False
    then have "pci_detach_pci env rc1 p1 (pci_with_priv dev p1) h2 = Some (rc, dev', h')" using ret by simp
    then show ?thesis by (rule failed) (use False q1 in simp_all)
  next
    case True
    then obtain rc2 p2 h3 where bars: "virtio_pci_map_bars env p1 h2 = Some (rc2, p2, h3)"
      using ret by (cases "virtio_pci_map_bars env p1 h2") auto
    have q2: "frees h3 = frees h" "\<forall>l. held l h3 = held l h" "pci_bdf p2 \<noteq> env_pci_bdf_none env"
      using virtio_pci_map_bars_frees [OF bars] q1 bdf by simp_all
    show ?thesis
    proof (cases "rc2 = 0")
      case False
      then have "pci_detach_pci env rc2 p2 (pci_with_priv dev p2) h3 = Some (rc, dev', h')" using ret True bars by simp
      then show ?thesis by (rule failed) (use False q2 in simp_all)
    next
      case rc2: True
      then show ?thesis using ret True bars by (intro virtio_pci_init_cfg_run [OF assms(1) q2]) simp
    qed
  qed
qed

lemma virtio_pci_init_run:
  assumes "\<And>h l. env_spin_destroy env h l = EOK"
    and ret: "virtio_pci_init env dev type index n h = Some (rc, dev', h')"
  shows "pci_init_result env dev n h rc dev' h'"
proof (cases "env_calloc env h 1 ''struct virtio_pci_device''")
  case (Inl e)
  then have "pci_free_vdev env ENOMEM dev (Calloc 1 ''struct virtio_pci_device'' (Inl e) # h) = Some (rc, dev', h')"
    using ret by (simp add: virtio_pci_init_def)
  then show ?thesis by (rule pci_init_failed(3) [OF assms(1), rotated 5]) simp_all
next
  case (Inr a)
  let ?h1 = "Calloc 1 ''struct virtio_pci_device'' (Inr a) # h"
  let ?f = "PciDeviceFind (ucast index) 0x1AF4 (0x1040 + type)"
  let ?p1 = "(virtio_pci_device0 a)\<lparr> pci_bdf := ucast (env_pci_word env ?h1 ?f) \<rparr>"
  let ?h2 = "Pci ?f # ?h1"
  let ?at = "PciDeviceAttach (pci_bdf ?p1)"
  let ?h3 = "Pci ?at # ?h2"
  let ?p2 = "?p1\<lparr> pci_pci := env_pci_word env ?h2 ?at \<rparr>"
  note defs = virtio_pci_init_def virtio_pci_find_def Inr Let_def
  note failed = pci_init_failed(2) [OF assms(1), rotated 5]
  consider (lost) "pci_bdf ?p1 = env_pci_bdf_none env"
    | (refused) "pci_bdf ?p1 \<noteq> env_pci_bdf_none env" "env_pci_err env ?h2 ?at \<noteq> 0"
    | (attached) "pci_bdf ?p1 \<noteq> env_pci_bdf_none env" "env_pci_err env ?h2 ?at = 0" by blast
  then show ?thesis
  proof cases
    case lost
    then have "pci_free_pdev env ENODEV ?p1 (pci_with_priv dev ?p1) ?h2 = Some (rc, dev', h')"
      using ret by (simp add: defs)
    then show ?thesis by (rule failed) simp_all
  next
    case refused
    then have "pci_free_pdev env (env_pci_err env ?h2 ?at) ?p2 (pci_with_priv dev ?p2) ?h3 = Some (rc, dev', h')"
      using ret by (simp add: defs)
    then show ?thesis by (rule failed) (use refused in simp_all)
  next
    case attached
    then obtain rc1 p3 h4 where caps: "virtio_pci_find_caps env ?p2 ?h3 = Some (rc1, p3, h4)"
      using ret by (cases "virtio_pci_find_caps env ?p2 ?h3") (auto simp: defs)
    show ?thesis
      by (rule virtio_pci_init_attached_run [OF assms(1) _ _ _ caps]) (use attached caps ret in \<open>simp_all add: defs\<close>)
  qed
qed


definition pci_blank :: "(virtio_pci_device, unit) virtio_device" where
  "pci_blank = pci_example\<lparr> vd_base := (vd_base pci_example)\<lparr> vd_priv := None \<rparr>, vd_ops := None \<rparr>"


end
