(* ===== verification/Gpio.thy ===== *)
theory Gpio
  imports Virtio_Mmio Virtio_Pci
begin

text \<open>
  \<^verbatim>\<open>src/gpio/gpio.c\<close>: the GPIO driver. A request is a chain of two descriptors, the request
  buffer and the response buffer, with a context object as the cookie of the first. A client
  function prepares a context on its stack, submits the request and waits on the context's
  semaphore; the interrupt thread collects the chains that the device has answered, copies status
  and value to the context and posts the semaphore.

  The theory models the functions; \<^verbatim>\<open>Gpio_System\<close> puts clients, device and interrupt thread
  together.
\<close>

section \<open>Constants and structures\<close>

definition VIRTIO_DT_GPIO :: u16 where "VIRTIO_DT_GPIO = 41"

definition VIRTIO_GPIO_STATUS_OK :: u8 where "VIRTIO_GPIO_STATUS_OK = 0x0"
definition VIRTIO_GPIO_STATUS_ERR :: u8 where "VIRTIO_GPIO_STATUS_ERR = 0x1"

definition VIRTIO_GPIO_MSG_GET_LINE_NAMES :: u16 where "VIRTIO_GPIO_MSG_GET_LINE_NAMES = 0x0001"
definition VIRTIO_GPIO_MSG_GET_DIRECTION :: u16 where "VIRTIO_GPIO_MSG_GET_DIRECTION = 0x0002"
definition VIRTIO_GPIO_MSG_SET_DIRECTION :: u16 where "VIRTIO_GPIO_MSG_SET_DIRECTION = 0x0003"
definition VIRTIO_GPIO_MSG_GET_VALUE :: u16 where "VIRTIO_GPIO_MSG_GET_VALUE = 0x0004"
definition VIRTIO_GPIO_MSG_SET_VALUE :: u16 where "VIRTIO_GPIO_MSG_SET_VALUE = 0x0005"

definition VIRTIO_GPIO_DIRECTION_NONE :: u8 where "VIRTIO_GPIO_DIRECTION_NONE = 0x00"
definition VIRTIO_GPIO_DIRECTION_OUT :: u8 where "VIRTIO_GPIO_DIRECTION_OUT = 0x01"
definition VIRTIO_GPIO_DIRECTION_IN :: u8 where "VIRTIO_GPIO_DIRECTION_IN = 0x02"

record virtio_gpio_config =
  cfg_ngpio :: u16
  cfg_padding :: u16
  cfg_gpio_names_size :: u32

text \<open>The one function whose address the code stores in a context.\<close>

datatype gpio_callback = Virtio_gpio_callback

record virtio_gpio_context_header =
  ctx_callback :: "gpio_callback option"
  ctx_sem :: nat
  ctx_status :: u8

text \<open>
  The two kinds of context object: header and value byte, or header, size and the flexible
  array. The code casts between them; an access to an object of the other kind has no outcome.
\<close>

datatype gpio_context =
    Context virtio_gpio_context_header u8
  | Context_n virtio_gpio_context_header u32 "u8 list"

fun ctx_header :: "gpio_context \<Rightarrow> virtio_gpio_context_header" where
  "ctx_header (Context hdr v) = hdr"
| "ctx_header (Context_n hdr n vs) = hdr"

fun map_header :: "(virtio_gpio_context_header \<Rightarrow> virtio_gpio_context_header) \<Rightarrow> gpio_context \<Rightarrow> gpio_context" where
  "map_header f (Context hdr v) = Context (f hdr) v"
| "map_header f (Context_n hdr n vs) = Context_n (f hdr) n vs"

text \<open>
  What the threads of the driver share: the queue \<open>requestq\<close>, the memory of the mapped buffers, by
  the address of the mapping and the offset in it, and the context objects that exist, by address.
\<close>

record gpio_state =
  gs_vq :: "virtq option"
  gs_mem :: "ptr \<Rightarrow> nat \<Rightarrow> u8"
  gs_ctx :: "ptr \<Rightarrow> gpio_context option"

record 'p virtio_gpio_device =
  gd_self :: ptr
  gd_dev :: "('p, gpio_state) virtio_device"
  gd_idx :: size_t
  gd_config :: virtio_gpio_config
  gd_priv :: u64

section \<open>Buffer memory\<close>

text \<open>
  The first \<open>n\<close> bytes of a mapping at \<open>a\<close> may be accessed as long as the mapping is live. An access
  outside of a live mapping has no outcome.
\<close>

definition mapped :: "hist \<Rightarrow> ptr \<Rightarrow> nat \<Rightarrow> bool" where
  "mapped h a n \<longleftrightarrow> (\<exists>m \<in># live h. fst m = a \<and> n \<le> unat (snd m))"

definition load_bytes :: "gpio_state \<Rightarrow> hist \<Rightarrow> ptr \<Rightarrow> nat \<Rightarrow> nat \<Rightarrow> u8 list option" where
  "load_bytes s h a off n =
     (if mapped h a (off + n) then Some (map (gs_mem s a) [off..<off + n]) else None)"

definition store_bytes :: "gpio_state \<Rightarrow> hist \<Rightarrow> ptr \<Rightarrow> nat \<Rightarrow> u8 list \<Rightarrow> gpio_state option" where
  "store_bytes s h a off bs =
     (if mapped h a (off + length bs) then
        Some (s\<lparr> gs_mem := (gs_mem s)(a :=
          (\<lambda>k. if off \<le> k \<and> k < off + length bs then bs ! (k - off) else gs_mem s a k)) \<rparr>)
      else None)"

definition le32 :: "u32 \<Rightarrow> u8 list" where
  "le32 x = le16 (ucast x) @ le16 (ucast (drop_bit 16 x))"

definition of_le32 :: "u8 list \<Rightarrow> u32" where
  "of_le32 bs = ucast (of_le16 (take 2 bs)) OR push_bit 16 (ucast (of_le16 (drop 2 bs)))"

section \<open>Contexts\<close>

definition virtio_gpio_context_init :: "env \<Rightarrow> ptr \<Rightarrow> gpio_state \<Rightarrow> hist \<Rightarrow> (rc \<times> gpio_state \<times> hist) option" where
  "virtio_gpio_context_init env context s h = do {
     ctx \<leftarrow> gs_ctx s context;
     let ctx = map_header (\<lambda>x. x\<lparr> ctx_callback := Some Virtio_gpio_callback, ctx_status := 0 \<rparr>) ctx;
         (rc, h) = sem_init env context h;
         ctx = (if rc = 0 then map_header (\<lambda>x. x\<lparr> ctx_sem := 0 \<rparr>) ctx else ctx)
     in Some (rc, s\<lparr> gs_ctx := (gs_ctx s)(context \<mapsto> ctx) \<rparr>, h)
   }"

definition virtio_gpio_context_deinit :: "env \<Rightarrow> ptr \<Rightarrow> hist \<Rightarrow> rc \<times> hist" where
  "virtio_gpio_context_deinit env context h = sem_destroy env context h"

text \<open>
  The calling thread blocks in \<open>sem_wait\<close> while the others run: \<open>others\<close> is what they do until the
  call returns, no outcome if it never does. A return of 0 takes one post; while there is none the
  call does not return 0.
\<close>

type_synonym 's others = "'s \<Rightarrow> hist \<Rightarrow> ('s \<times> hist) option"

definition sem_wait_others ::
  "env \<Rightarrow> gpio_state others \<Rightarrow> ptr \<Rightarrow> gpio_state \<Rightarrow> hist \<Rightarrow> (rc \<times> gpio_state \<times> hist) option" where
  "sem_wait_others env others context s h = do {
     (s, h) \<leftarrow> others s h;
     ctx \<leftarrow> gs_ctx s context;
     let (rc, h) = sem_wait env context h
     in if rc \<noteq> 0 then Some (rc, s, h)
     else if ctx_sem (ctx_header ctx) = 0 then None
     else Some (rc, s\<lparr> gs_ctx := (gs_ctx s)(context \<mapsto> map_header (\<lambda>x. x\<lparr> ctx_sem := ctx_sem x - 1 \<rparr>) ctx) \<rparr>, h)
   }"

partial_function (option) virtio_gpio_context_wait ::
  "env \<Rightarrow> gpio_state others \<Rightarrow> ptr \<Rightarrow> gpio_state \<Rightarrow> hist \<Rightarrow> (rc \<times> gpio_state \<times> hist) option" where
  "virtio_gpio_context_wait env others context s h =
     Option.bind (sem_wait_others env others context s h) (\<lambda>r.
       if fst r = EINTR then virtio_gpio_context_wait env others context (fst (snd r)) (snd (snd r))
       else Some r)"

text \<open>The completion of a request: status and value go from the response to the context.\<close>

definition virtio_gpio_callback :: "ptr \<Rightarrow> ptr \<Rightarrow> ptr \<Rightarrow> gpio_state \<Rightarrow> hist \<Rightarrow> (gpio_state \<times> hist) option" where
  "virtio_gpio_callback request response context s h = do {
     status \<leftarrow> load_bytes s h response 0 1;
     ctx \<leftarrow> gs_ctx s context;
     let ctx = map_header (\<lambda>x. x\<lparr> ctx_status := status ! 0 \<rparr>) ctx;
     type \<leftarrow> load_bytes s h request 0 2;
     ctx \<leftarrow>
       (if of_le16 type = VIRTIO_GPIO_MSG_GET_LINE_NAMES then
          (case ctx of
             Context_n hdr n vs \<Rightarrow>
               if length vs < unat n then None
               else do {
                 bs \<leftarrow> load_bytes s h response 1 (unat n);
                 Some (Context_n hdr n (bs @ drop (unat n) vs))
               }
           | Context _ _ \<Rightarrow> None)
        else
          (case ctx of
             Context hdr v \<Rightarrow> do { bs \<leftarrow> load_bytes s h response 1 1; Some (Context hdr (bs ! 0)) }
           | Context_n _ _ _ \<Rightarrow> None));
     let ctx = map_header (\<lambda>x. x\<lparr> ctx_sem := ctx_sem x + 1 \<rparr>) ctx;
     Some (s\<lparr> gs_ctx := (gs_ctx s)(context \<mapsto> ctx) \<rparr>, SemPost context # h)
   }"

definition virtio_gpio_response_size :: "'p virtio_gpio_device \<Rightarrow> u16 \<Rightarrow> size_t" where
  "virtio_gpio_response_size dev type =
     (if type = VIRTIO_GPIO_MSG_GET_LINE_NAMES then 1 + ucast (cfg_gpio_names_size (gd_config dev)) else 2)"

section \<open>The interrupt callback\<close>

text \<open>
  The body of the loop. A failing \<open>virtq_get_desc_vaddr\<close> or \<open>virtq_get_desc_context\<close> would leave its
  pointer indeterminate, or the one of the chain before, which is freed; the code uses it
  unchecked, which has no outcome.
\<close>

definition pointer_of :: "rc \<times> u64 cell \<Rightarrow> ptr option" where
  "pointer_of r = (if fst r = EOK then snd r else None)"

definition virtq_callback_body :: "env \<Rightarrow> u16 list \<Rightarrow> gpio_state \<Rightarrow> hist \<Rightarrow> (gpio_state \<times> hist) option" where
  "virtq_callback_body env idxs s h = do {
     i \<leftarrow> arr_get idxs 0;
     j \<leftarrow> arr_get idxs 1;
     r \<leftarrow> virtq_get_desc_vaddr (gs_vq s) i (Some (env_uninit env h));
     request \<leftarrow> pointer_of r;
     r \<leftarrow> virtq_get_desc_vaddr (gs_vq s) j (Some (env_uninit env h));
     response \<leftarrow> pointer_of r;
     r \<leftarrow> virtq_get_desc_context (gs_vq s) i (Some (env_uninit env h));
     context \<leftarrow> pointer_of r;
     ctx \<leftarrow> gs_ctx s context;
     (s, h) \<leftarrow>
       (case ctx_callback (ctx_header ctx) of
          None \<Rightarrow> None
        | Some Virtio_gpio_callback \<Rightarrow> virtio_gpio_callback request response context s h);
     q \<leftarrow> gs_vq s;
     (_, q, h) \<leftarrow> virtq_free_desc env q i h;
     (_, q, h) \<leftarrow> virtq_free_desc env q j h;
     Some (s\<lparr> gs_vq := Some q \<rparr>, h)
   }"

definition virtq_callback_get ::
  "env \<Rightarrow> u16 list \<Rightarrow> gpio_state \<Rightarrow> hist \<Rightarrow> (rc \<times> u16 list \<times> gpio_state \<times> hist) option" where
  "virtq_callback_get env idxs s h = do {
     (rc, vq, _, idxs, h) \<leftarrow> virtq_get_desc_chain env (gs_vq s) (Some 2) (Some idxs) h;
     idxs \<leftarrow> idxs;
     Some (rc, idxs, s\<lparr> gs_vq := vq \<rparr>, h)
   }"

partial_function (option) virtq_callback_loop ::
  "env \<Rightarrow> rc \<Rightarrow> u16 list \<Rightarrow> gpio_state \<Rightarrow> hist \<Rightarrow> (rc \<times> gpio_state \<times> hist) option" where
  "virtq_callback_loop env rc idxs s h =
     (if rc \<noteq> 0 then Some (rc, s, h)
      else
        Option.bind (virtq_callback_body env idxs s h) (\<lambda>r.
          Option.bind (virtq_callback_get env idxs (fst r) (snd r)) (\<lambda>r.
            virtq_callback_loop env (fst r) (fst (snd r)) (fst (snd (snd r))) (snd (snd (snd r))))))"

definition virtq_callback :: "env \<Rightarrow> gpio_state callback" where
  "virtq_callback env s h = do {
     (rc, idxs, s, h) \<leftarrow> virtq_callback_get env (replicate 2 (ucast (env_uninit env h))) s h;
     virtq_callback_loop env rc idxs s h
   }"

section \<open>Sending a request\<close>

text \<open>The labels of \<open>virtio_gpio_request\<close>; \<open>free_desc1\<close> falls through to \<open>free_desc0\<close>.\<close>

definition gpio_free_desc0 ::
  "env \<Rightarrow> rc \<Rightarrow> u16 \<Rightarrow> gpio_state \<Rightarrow> hist \<Rightarrow> (rc \<times> gpio_state \<times> hist) option" where
  "gpio_free_desc0 env rc i s h = do {
     q \<leftarrow> gs_vq s;
     (_, q, h) \<leftarrow> virtq_free_desc env q i h;
     Some (rc, s\<lparr> gs_vq := Some q \<rparr>, h)
   }"

definition gpio_free_desc1 ::
  "env \<Rightarrow> rc \<Rightarrow> u16 \<Rightarrow> u16 \<Rightarrow> gpio_state \<Rightarrow> hist \<Rightarrow> (rc \<times> gpio_state \<times> hist) option" where
  "gpio_free_desc1 env rc i j s h = do {
     q \<leftarrow> gs_vq s;
     (_, q, h) \<leftarrow> virtq_free_desc env q j h;
     gpio_free_desc0 env rc i (s\<lparr> gs_vq := Some q \<rparr>) h
   }"

text \<open>The three stores to the request; \<open>value\<close> is widened from 16 to 32 bits.\<close>

definition store_request ::
  "gpio_state \<Rightarrow> hist \<Rightarrow> ptr \<Rightarrow> u16 \<Rightarrow> u16 \<Rightarrow> u16 \<Rightarrow> gpio_state option" where
  "store_request s h request type gpio value = do {
     s \<leftarrow> store_bytes s h request 0 (le16 type);
     s \<leftarrow> store_bytes s h request 2 (le16 gpio);
     store_bytes s h request 4 (le32 (ucast value))
   }"

definition virtio_gpio_request ::
  "env \<Rightarrow> 'p virtio_gpio_device \<Rightarrow> u16 \<Rightarrow> u16 \<Rightarrow> u16 \<Rightarrow> ptr \<Rightarrow> gpio_state \<Rightarrow> hist \<Rightarrow>
   (rc \<times> gpio_state \<times> hist) option" where
  "virtio_gpio_request env dev type gpio value context s h = do {
     (rc, vq, i, h) \<leftarrow> virtq_alloc_desc env (gs_vq s) 8 False (Some (ucast (env_uninit env h))) h;
     i \<leftarrow> i;
     let s = s\<lparr> gs_vq := vq \<rparr>;
     (if rc \<noteq> EOK then Some (rc, s, h)
      else do {
        (rc, vq, j, h) \<leftarrow>
          virtq_alloc_desc env (gs_vq s) (ucast (virtio_gpio_response_size dev type)) True
            (Some (ucast (env_uninit env h))) h;
        j \<leftarrow> j;
        let s = s\<lparr> gs_vq := vq \<rparr>;
        (if rc \<noteq> EOK then gpio_free_desc0 env rc i s h
         else do {
           (rc, request) \<leftarrow> virtq_get_desc_vaddr (gs_vq s) i (Some (env_uninit env h));
           (if rc \<noteq> EOK then gpio_free_desc1 env rc i j s h
            else do {
              request \<leftarrow> request;
              s \<leftarrow> store_request s h request type gpio value;
              (_, vq) \<leftarrow> virtq_set_desc_context (gs_vq s) i context;
              q \<leftarrow> vq;
              (_, q, h) \<leftarrow> virtq_put_desc_chain env q 2 [i, j] h;
              (_, h) \<leftarrow> virtio_notify_queue env (Some (gd_dev dev)) 0 h;
              Some (0, s\<lparr> gs_vq := Some q \<rparr>, h)
            })
         })
      })
   }"

section \<open>The functions of the driver's interface\<close>

definition virtio_gpio_get_chip_index ::
  "'p virtio_gpio_device option \<Rightarrow> size_t cell \<Rightarrow> rc \<times> size_t cell" where
  "virtio_gpio_get_chip_index dev index =
     (case (dev, index) of (Some d, Some _) \<Rightarrow> (EOK, Some (gd_idx d)) | _ \<Rightarrow> (EINVAL, index))"

definition virtio_gpio_num_gpios :: "'p virtio_gpio_device option \<Rightarrow> u16 cell \<Rightarrow> rc \<times> u16 cell" where
  "virtio_gpio_num_gpios dev ngpio =
     (case (dev, ngpio) of (Some d, Some _) \<Rightarrow> (0, Some (cfg_ngpio (gd_config d))) | _ \<Rightarrow> (EINVAL, ngpio))"

definition virtio_gpio_names_size :: "'p virtio_gpio_device option \<Rightarrow> u32 cell \<Rightarrow> rc \<times> u32 cell" where
  "virtio_gpio_names_size dev sz =
     (case (dev, sz) of (Some d, Some _) \<Rightarrow> (0, Some (cfg_gpio_names_size (gd_config d))) | _ \<Rightarrow> (EINVAL, sz))"

text \<open>
  The body the four value and direction functions share. Their local \<open>context\<close> lives on the
  stack: at an address \<open>c\<close>, with indeterminate content, from the entry of the function to its
  return. The two halves are what happens before and after the wait.
\<close>

definition gpio_enter :: "env \<Rightarrow> ptr \<Rightarrow> gpio_state \<Rightarrow> hist \<Rightarrow> gpio_state" where
  "gpio_enter env c s h =
     s\<lparr> gs_ctx := (gs_ctx s)(c \<mapsto>
       Context \<lparr> ctx_callback = None, ctx_sem = 0, ctx_status = ucast (env_uninit env h) \<rparr> (ucast (env_uninit env h))) \<rparr>"

definition gpio_leave :: "ptr \<Rightarrow> gpio_state \<Rightarrow> gpio_state" where
  "gpio_leave c s = s\<lparr> gs_ctx := (gs_ctx s)(c := None) \<rparr>"

definition gpio_deinit :: "env \<Rightarrow> rc \<Rightarrow> ptr \<Rightarrow> gpio_state \<Rightarrow> hist \<Rightarrow> rc \<times> gpio_state \<times> hist" where
  "gpio_deinit env rc c s h =
     (let (_, h) = virtio_gpio_context_deinit env c h in (rc, gpio_leave c s, h))"

text \<open>The first component of the result: whether the function goes on to wait.\<close>

definition gpio_begin ::
  "env \<Rightarrow> 'p virtio_gpio_device \<Rightarrow> u16 \<Rightarrow> u16 \<Rightarrow> u16 \<Rightarrow> ptr \<Rightarrow> gpio_state \<Rightarrow> hist \<Rightarrow>
   (bool \<times> rc \<times> gpio_state \<times> hist) option" where
  "gpio_begin env dev type gpio value c s h = do {
     (rc, s, h) \<leftarrow> virtio_gpio_context_init env c (gpio_enter env c s h) h;
     (if rc \<noteq> EOK then Some (False, rc, gpio_leave c s, h)
      else do {
        (rc, s, h) \<leftarrow> virtio_gpio_request env dev type gpio value c s h;
        (if rc \<noteq> EOK then Some (False, gpio_deinit env rc c s h)
         else Some (True, rc, s, h))
      })
   }"

text \<open>\<open>out\<close> is the output pointer: \<open>None\<close> where the function has none, \<open>Some None\<close> for a null pointer.\<close>

definition gpio_end ::
  "env \<Rightarrow> rc \<Rightarrow> ptr \<Rightarrow> u8 cell option \<Rightarrow> gpio_state \<Rightarrow> hist \<Rightarrow> (rc \<times> u8 cell option \<times> gpio_state \<times> hist) option" where
  "gpio_end env rc c out s h =
     (if rc \<noteq> EOK then let (rc, s, h) = gpio_deinit env rc c s h in Some (rc, out, s, h)
      else do {
        ctx \<leftarrow> gs_ctx s c;
        out \<leftarrow>
          (case (out, ctx) of
             (None, _) \<Rightarrow> Some None
           | (Some None, _) \<Rightarrow> None
           | (Some (Some _), Context _ v) \<Rightarrow> Some (Some (Some v))
           | (Some (Some _), Context_n _ _ _) \<Rightarrow> None);
        let (rc, s, h) =
          gpio_deinit env (if ctx_status (ctx_header ctx) = VIRTIO_GPIO_STATUS_OK then EOK else EIO) c s h
        in Some (rc, out, s, h)
      })"

definition gpio_call ::
  "env \<Rightarrow> gpio_state others \<Rightarrow> 'p virtio_gpio_device \<Rightarrow> u16 \<Rightarrow> u16 \<Rightarrow> u16 \<Rightarrow> u8 cell option \<Rightarrow> ptr \<Rightarrow>
   gpio_state \<Rightarrow> hist \<Rightarrow> (rc \<times> u8 cell option \<times> gpio_state \<times> hist) option" where
  "gpio_call env others dev type gpio value out c s h = do {
     (go_on, rc, s, h) \<leftarrow> gpio_begin env dev type gpio value c s h;
     (if \<not> go_on then Some (rc, out, s, h)
      else do {
        (rc, s, h) \<leftarrow> virtio_gpio_context_wait env others c s h;
        gpio_end env rc c out s h
      })
   }"

definition virtio_gpio_set_value ::
  "env \<Rightarrow> gpio_state others \<Rightarrow> 'p virtio_gpio_device \<Rightarrow> u16 \<Rightarrow> u8 \<Rightarrow> ptr \<Rightarrow>
   gpio_state \<Rightarrow> hist \<Rightarrow> (rc \<times> gpio_state \<times> hist) option" where
  "virtio_gpio_set_value env others dev gpio value c s h = do {
     (rc, _, s, h) \<leftarrow> gpio_call env others dev VIRTIO_GPIO_MSG_SET_VALUE gpio (ucast value) None c s h;
     Some (rc, s, h)
   }"

definition virtio_gpio_get_value ::
  "env \<Rightarrow> gpio_state others \<Rightarrow> 'p virtio_gpio_device \<Rightarrow> u16 \<Rightarrow> u8 cell \<Rightarrow> ptr \<Rightarrow>
   gpio_state \<Rightarrow> hist \<Rightarrow> (rc \<times> u8 cell \<times> gpio_state \<times> hist) option" where
  "virtio_gpio_get_value env others dev gpio value c s h = do {
     (rc, out, s, h) \<leftarrow> gpio_call env others dev VIRTIO_GPIO_MSG_GET_VALUE gpio 0 (Some value) c s h;
     value \<leftarrow> out;
     Some (rc, value, s, h)
   }"

definition virtio_gpio_get_direction ::
  "env \<Rightarrow> gpio_state others \<Rightarrow> 'p virtio_gpio_device \<Rightarrow> u16 \<Rightarrow> u8 cell \<Rightarrow> ptr \<Rightarrow>
   gpio_state \<Rightarrow> hist \<Rightarrow> (rc \<times> u8 cell \<times> gpio_state \<times> hist) option" where
  "virtio_gpio_get_direction env others dev gpio direction c s h = do {
     (rc, out, s, h) \<leftarrow> gpio_call env others dev VIRTIO_GPIO_MSG_GET_DIRECTION gpio 0 (Some direction) c s h;
     direction \<leftarrow> out;
     Some (rc, direction, s, h)
   }"

definition virtio_gpio_set_direction ::
  "env \<Rightarrow> gpio_state others \<Rightarrow> 'p virtio_gpio_device \<Rightarrow> u16 \<Rightarrow> u8 \<Rightarrow> ptr \<Rightarrow>
   gpio_state \<Rightarrow> hist \<Rightarrow> (rc \<times> gpio_state \<times> hist) option" where
  "virtio_gpio_set_direction env others dev gpio direction c s h = do {
     (rc, _, s, h) \<leftarrow> gpio_call env others dev VIRTIO_GPIO_MSG_SET_DIRECTION gpio (ucast direction) None c s h;
     Some (rc, s, h)
   }"

section \<open>Memory lemmas\<close>

lemma mapped_in: "(a, len) \<in># live h \<Longrightarrow> n \<le> unat len \<Longrightarrow> mapped h a n"
  by (force simp: mapped_def)

lemma length_le32 [simp]: "length (le32 x) = 4"
  by (simp add: le32_def)

lemma of_le32_le32 [simp]: "of_le32 (le32 x) = x"
proof -
  have "ucast (ucast x :: u16) OR push_bit 16 (ucast (ucast (drop_bit 16 x) :: u16)) = x"
    by (rule bit_word_eqI) (auto simp: bit_simps less_diff_conv2)
  then show ?thesis by (simp add: le32_def of_le32_def)
qed

text \<open>The eight bytes of a request.\<close>

definition request_bytes :: "u16 \<Rightarrow> u16 \<Rightarrow> u16 \<Rightarrow> u8 list" where
  "request_bytes type gpio value = le16 type @ le16 gpio @ le32 (ucast value)"

lemma length_request_bytes [simp]: "length (request_bytes type gpio value) = 8"
  by (simp add: request_bytes_def)

lemma store_request_run:
  assumes "mapped h a 8"
  shows "\<exists>f. store_request s h a type gpio value = Some (s\<lparr> gs_mem := (gs_mem s)(a := f) \<rparr>) \<and>
           map f [0..<8] = request_bytes type gpio value"
proof -
  have m: "mapped h a 2" "mapped h a (Suc (Suc 0))" "mapped h a 4" using assms by (auto simp: mapped_def)
  have "\<exists>f. store_request s h a type gpio value = Some (s\<lparr> gs_mem := (gs_mem s)(a := f) \<rparr>) \<and>
      (\<forall>k < 8. f k = request_bytes type gpio value ! k)"
    using assms m
    by (auto simp: store_request_def store_bytes_def request_bytes_def nth_append intro!: exI)
  then obtain f where f: "store_request s h a type gpio value = Some (s\<lparr> gs_mem := (gs_mem s)(a := f) \<rparr>)"
      "\<forall>k < 8. f k = request_bytes type gpio value ! k" by blast
  have "map f [0..<8] = request_bytes type gpio value"
    by (rule nth_equalityI) (use f(2) in simp_all)
  with f(1) show ?thesis by blast
qed

section \<open>What sending a request does\<close>

text \<open>The transport's notification returns and leaves locks and memory as they were.\<close>

definition notifies :: "env \<Rightarrow> ('p, 's) virtio_device \<Rightarrow> bool" where
  "notifies env dev \<longleftrightarrow>
     (\<forall>h. \<exists>rc h'. virtio_notify_queue env (Some dev) 0 h = Some (rc, h') \<and> quiet h h')"

abbreviation vaddr_of :: "virtq \<Rightarrow> u16 \<Rightarrow> ptr" where
  "vaddr_of q i \<equiv> extras_vaddr (vq_extras q ! unat i)"

abbreviation context_of :: "virtq \<Rightarrow> u16 \<Rightarrow> ptr" where
  "context_of q i \<equiv> extras_context (vq_extras q ! unat i)"

abbreviation bases :: "hist \<Rightarrow> ptr set" where
  "bases h \<equiv> fst ` set_mset (live h)"

text \<open>
  The effect of a sent request: descriptors \<open>i\<close> and \<open>j\<close>, free before, are a chain of an 8-byte and a
  2-byte buffer in new mappings, the first holds \<open>bytes\<close>, its cookie is \<open>c\<close>, and \<open>i\<close> is the new head
  in the available ring. Everything else is as before.
\<close>

definition request_sent ::
  "virtq \<Rightarrow> (ptr \<Rightarrow> nat \<Rightarrow> u8) \<Rightarrow> hist \<Rightarrow> virtq \<Rightarrow> (ptr \<Rightarrow> nat \<Rightarrow> u8) \<Rightarrow> hist \<Rightarrow> u16 \<Rightarrow> u16 \<Rightarrow> ptr \<Rightarrow> u8 list \<Rightarrow> bool" where
  "request_sent q m h q' m' h' i j c bytes \<longleftrightarrow>
     i \<noteq> j \<and> i \<notin> allocated q \<and> j \<notin> allocated q \<and> i < vq_num q \<and> j < vq_num q \<and>
     allocated q' = insert i (insert j (allocated q)) \<and>
     (\<forall>k. k \<noteq> i \<and> k \<noteq> j \<longrightarrow>
        vq_desc q' ! unat k = vq_desc q ! unat k \<and> vq_extras q' ! unat k = vq_extras q ! unat k) \<and>
     chain (vq_desc q') [i, j] \<and> desc_len (vq_desc q' ! unat i) = 8 \<and> desc_len (vq_desc q' ! unat j) = 2 \<and>
     context_of q' i = c \<and>
     vaddr_of q' i \<notin> bases h \<and> vaddr_of q' j \<notin> bases h \<and> vaddr_of q' i \<noteq> vaddr_of q' j \<and>
     live h' = add_mset (vaddr_of q' i, 8) (add_mset (vaddr_of q' j, 2) (live h)) \<and>
     map (m' (vaddr_of q' i)) [0..<8] = bytes \<and> (\<forall>a. a \<noteq> vaddr_of q' i \<longrightarrow> m' a = m a) \<and>
     vq_self q' = vq_self q \<and> vq_num q' = vq_num q \<and>
     vq_avail_ring q' = (vq_avail_ring q)[unat (vq_avail_idx q) mod unat (vq_num q) := i] \<and>
     vq_avail_idx q' = vq_avail_idx q + 1 \<and> vq_used_ring q' = vq_used_ring q \<and>
     vq_used_idx q' = vq_used_idx q \<and> vq_last_seen_used q' = vq_last_seen_used q"

text \<open>A request that failed: the queue is as before, up to the order of the free list and cleared entries.\<close>

definition request_undone :: "virtq \<Rightarrow> hist \<Rightarrow> virtq \<Rightarrow> hist \<Rightarrow> bool" where
  "request_undone q h q' h' \<longleftrightarrow>
     live h' = live h \<and> allocated q' = allocated q \<and> same_rings q q' \<and>
     (\<forall>k \<in> allocated q. vq_desc q' ! unat k = vq_desc q ! unat k \<and> vq_extras q' ! unat k = vq_extras q ! unat k)"

lemma virtq_set_desc_context_run:
  assumes "virtq_inv q" and "c \<noteq> 0" and "i < vq_num q"
  shows "virtq_set_desc_context (Some q) i c =
     Some (EOK, Some (q\<lparr> vq_extras := (vq_extras q)[unat i := (vq_extras q ! unat i)\<lparr> extras_context := c \<rparr>] \<rparr>))"
  using assms virtq_inv_in_range [OF assms(1,3)] by (simp add: virtq_set_desc_context_def)

lemma virtq_get_desc_vaddr_run:
  "virtq_inv q \<Longrightarrow> i < vq_num q \<Longrightarrow> virtq_get_desc_vaddr (Some q) i (Some x) = Some (EOK, Some (vaddr_of q i))"
  using virtq_inv_in_range [of q i] by (simp add: virtq_get_desc_vaddr_def)

lemma virtq_get_desc_context_run:
  "virtq_inv q \<Longrightarrow> i < vq_num q \<Longrightarrow> virtq_get_desc_context (Some q) i (Some x) = Some (EOK, Some (context_of q i))"
  using virtq_inv_in_range [of q i] by (simp add: virtq_get_desc_context_def)

lemma mmap_freshD:
  "mmap_fresh env \<Longrightarrow> \<exists>h1. live h1 = live h \<and> env_mmap env h1 None n = Inr a \<Longrightarrow> a \<notin> bases h"
  unfolding mmap_fresh_def by metis

text \<open>The part of the function from the two allocations on.\<close>

definition request_tail ::
  "env \<Rightarrow> 'p virtio_gpio_device \<Rightarrow> ptr \<Rightarrow> u64 \<Rightarrow> gpio_state \<Rightarrow> virtq \<Rightarrow> u16 \<Rightarrow> u16 \<Rightarrow> u16 \<Rightarrow> u16 \<Rightarrow> u16 \<Rightarrow>
   hist \<Rightarrow> (rc \<times> gpio_state \<times> hist) option" where
  "request_tail env dev c x s q i j type gpio value h = do {
     (rc, request) \<leftarrow> virtq_get_desc_vaddr (Some q) i (Some x);
     (if rc \<noteq> EOK then gpio_free_desc1 env rc i j (s\<lparr> gs_vq := Some q \<rparr>) h
      else do {
        request \<leftarrow> request;
        s \<leftarrow> store_request (s\<lparr> gs_vq := Some q \<rparr>) h request type gpio value;
        (_, vq) \<leftarrow> virtq_set_desc_context (gs_vq s) i c;
        q \<leftarrow> vq;
        (_, q, h) \<leftarrow> virtq_put_desc_chain env q 2 [i, j] h;
        (_, h) \<leftarrow> virtio_notify_queue env (Some (gd_dev dev)) 0 h;
        Some (0, s\<lparr> gs_vq := Some q \<rparr>, h)
      })
   }"

text \<open>The queue after the notification.\<close>

abbreviation sent_post :: "virtq \<Rightarrow> ptr \<Rightarrow> virtq_desc list \<Rightarrow> u16 \<Rightarrow> virtq" where
  "sent_post q c ds i \<equiv>
     virtq_put_post (q\<lparr> vq_extras := (vq_extras q)[unat i := (vq_extras q ! unat i)\<lparr> extras_context := c \<rparr>] \<rparr>) ds i"

text \<open>From the two allocations to the notification.\<close>

lemma virtio_gpio_request_tail:
  assumes inv: "virtq_inv q" and env: "locks_ok env" "notifies env (gd_dev dev)"
    and i: "i < vq_num q" "j < vq_num q" "i \<noteq> j" "c \<noteq> 0"
    and j: "\<not> has_next (vq_desc q ! unat j)" and m: "mapped h (vaddr_of q i) 8"
  shows "\<exists>f ds h'.
      request_tail env dev c x s q i j type gpio value h =
      Some (EOK, s\<lparr> gs_vq := Some (sent_post q c ds i),
               gs_mem := (gs_mem s)(vaddr_of q i := f) \<rparr>, h') \<and>
      map f [0..<8] = request_bytes type gpio value \<and> chain ds [i, j] \<and> length ds = length (vq_desc q) \<and>
      (\<forall>k. k \<noteq> i \<and> k \<noteq> j \<longrightarrow> ds ! unat k = vq_desc q ! unat k) \<and>
      (\<forall>k::u16. desc_len (ds ! unat k) = desc_len (vq_desc q ! unat k)) \<and> quiet h h'"
proof -
  let ?q = "q\<lparr> vq_extras := (vq_extras q)[unat i := (vq_extras q ! unat i)\<lparr> extras_context := c \<rparr>] \<rparr>"
  obtain f where f: "store_request (s\<lparr> gs_vq := Some q \<rparr>) h (vaddr_of q i) type gpio value =
        Some (s\<lparr> gs_vq := Some q, gs_mem := (gs_mem s)(vaddr_of q i := f) \<rparr>)"
      "map f [0..<8] = request_bytes type gpio value"
    using store_request_run [OF m, of "s\<lparr> gs_vq := Some q \<rparr>" type gpio "value"] by auto
  have inv': "virtq_inv ?q" using inv by (rule virtq_inv_extras) simp
  obtain rc ds h1 where put: "virtq_put_desc_chain env ?q 2 [i, j] h = Some (rc, virtq_put_post ?q ds i, h1)"
      "chain ds [i, j]" "length ds = length (vq_desc q)"
      "\<forall>k. k \<noteq> i \<and> k \<noteq> j \<longrightarrow> ds ! unat k = vq_desc q ! unat k"
      "\<forall>k::u16. desc_len (ds ! unat k) = desc_len (vq_desc q ! unat k)" "quiet h h1"
    using virtq_put_desc_chain_run [OF inv', where cnt = 2 and idx = "[i, j]" and env = env and h = h] i j env(1)
    by (auto simp del: chain.simps)
  obtain rc' h' where n: "virtio_notify_queue env (Some (gd_dev dev)) 0 h1 = Some (rc', h')" "quiet h1 h'"
    using env(2) unfolding notifies_def by blast
  have "quiet h h'" using put(6) n(2) by (rule quiet_trans)
  moreover have "s\<lparr> gs_vq := Some q, gs_mem := m, gs_vq := Some q' \<rparr> = s\<lparr> gs_vq := Some q', gs_mem := m \<rparr>" for q' m
    by simp
  ultimately show ?thesis
    using f put n virtq_get_desc_vaddr_run [OF inv i(1)] virtq_set_desc_context_run [OF inv i(4,1)]
    by (intro exI [of _ f] exI [of _ ds] exI [of _ h']) (simp add: request_tail_def del: chain.simps)
qed

lemma same_rings_refl [simp]: "same_rings q q"
  by (simp add: same_rings_def)

lemma same_rings_trans: "same_rings q q1 \<Longrightarrow> same_rings q1 q2 \<Longrightarrow> same_rings q q2"
  by (simp add: same_rings_def)

lemma same_rings_free [simp]: "same_rings q (virtq_free_post q f i)"
  by (simp add: same_rings_def)

text \<open>A failing second allocation gives the first descriptor back.\<close>

lemma gpio_free_desc0_run:
  assumes inv: "virtq_inv q1" and env: "locks_ok env" "unmaps_ok env"
    and i: "i \<in> allocated q1" "(vaddr_of q1 i, ucast (desc_len (vq_desc q1 ! unat i))) \<in># live h"
  shows "\<exists>f h'. gpio_free_desc0 env rc i (s\<lparr> gs_vq := Some q1 \<rparr>) h =
      Some (rc, s\<lparr> gs_vq := Some (virtq_free_post q1 f i) \<rparr>, h') \<and>
      virtq_inv (virtq_free_post q1 f i) \<and> allocated (virtq_free_post q1 f i) = allocated q1 - {i} \<and>
      live h' = live h - {#(vaddr_of q1 i, ucast (desc_len (vq_desc q1 ! unat i)))#} \<and>
      (\<forall>l. held l h' = held l h) \<and> frees h' = frees h"
proof -
  have "env_munmap env h (vaddr_of q1 i) (ucast (desc_len (vq_desc q1 ! unat i))) = 0"
    using env(2) i(2) by (simp add: unmaps_ok_def)
  from virtq_free_desc_run [OF inv env(1) i(1) this] show ?thesis
    by (auto simp: gpio_free_desc0_def)
qed

text \<open>An allocation, with the freshness of the new mapping.\<close>

definition alloc_result ::
  "virtq \<Rightarrow> u32 \<Rightarrow> bool \<Rightarrow> hist \<Rightarrow> rc \<Rightarrow> virtq \<Rightarrow> u16 \<Rightarrow> hist \<Rightarrow> bool" where
  "alloc_result q len wr h rc q' i h' \<longleftrightarrow>
     virtq_inv q' \<and> same_rings q q' \<and> (\<forall>l. held l h' = held l h) \<and> frees h' = frees h \<and>
     (if rc = EOK then
        i < vq_num q \<and> i \<notin> allocated q \<and> allocated q' = insert i (allocated q) \<and>
        desc_len (vq_desc q' ! unat i) = len \<and>
        desc_flags (vq_desc q' ! unat i) = (if wr then VIRTQ_DESC_F_WRITE else 0) \<and>
        vaddr_of q' i \<notin> bases h \<and> live h' = add_mset (vaddr_of q' i, ucast len) (live h) \<and>
        (\<forall>k. k \<noteq> i \<longrightarrow> vq_desc q' ! unat k = vq_desc q ! unat k \<and> vq_extras q' ! unat k = vq_extras q ! unat k)
      else
        allocated q' = allocated q \<and> vq_desc q' = vq_desc q \<and> vq_extras q' = vq_extras q \<and> live h' = live h)"

lemma virtq_alloc_desc_fresh:
  assumes "virtq_inv q" and "locks_ok env" and "errnos_ok env" and "unmaps_ok env" and "mmap_fresh env"
  shows "\<exists>rc q' i h'. virtq_alloc_desc env (Some q) len wr (Some i0) h = Some (rc, Some q', Some i, h') \<and>
           alloc_result q len wr h rc q' i h'"
proof -
  obtain rc q' i h' where r: "virtq_alloc_desc env (Some q) len wr (Some i0) h = Some (rc, Some q', Some i, h')"
      "virtq_inv q'" "same_rings q q'" "\<forall>l. held l h' = held l h" "frees h' = frees h"
    and ok: "rc = EOK \<longrightarrow>
         (\<exists>h1. live h1 = live h \<and> env_mmap env h1 None (ucast len) = Inr (vaddr_of q' i)) \<and>
         i < vq_num q \<and> i \<notin> allocated q \<and> allocated q' = insert i (allocated q) \<and>
         desc_len (vq_desc q' ! unat i) = len \<and>
         desc_flags (vq_desc q' ! unat i) = (if wr then VIRTQ_DESC_F_WRITE else 0) \<and>
         (\<forall>j. j \<noteq> i \<longrightarrow> vq_desc q' ! unat j = vq_desc q ! unat j \<and> vq_extras q' ! unat j = vq_extras q ! unat j) \<and>
         live h' = add_mset (vaddr_of q' i, ucast len) (live h)"
    and no: "rc \<noteq> EOK \<longrightarrow>
         allocated q' = allocated q \<and> vq_desc q' = vq_desc q \<and> vq_extras q' = vq_extras q \<and> live h' = live h"
    using virtq_alloc_desc_run [OF assms(1-4), of len wr i0 h] by blast
  have "alloc_result q len wr h rc q' i h'"
  proof (cases "rc = EOK")
    case True
    then have "vaddr_of q' i \<notin> bases h" using mmap_freshD [OF assms(5)] ok by blast
    then show ?thesis using True r ok by (simp add: alloc_result_def)
  next
    case False
    then show ?thesis using r no by (simp add: alloc_result_def)
  qed
  then show ?thesis using r(1) by blast
qed

text \<open>An allocation that worked: what the proofs of the request use of \<open>alloc_result\<close>.\<close>

lemma alloc_result_frame:
  "alloc_result q len wr h rc q' i h' \<Longrightarrow>
   virtq_inv q' \<and> same_rings q q' \<and> vq_num q' = vq_num q \<and> (\<forall>l. held l h' = held l h) \<and> frees h' = frees h"
  by (simp add: alloc_result_def same_rings_def)

lemma alloc_result_ok:
  "alloc_result q len wr h EOK q' i h' \<Longrightarrow>
   i < vq_num q \<and> i \<notin> allocated q \<and> allocated q' = insert i (allocated q) \<and>
   desc_len (vq_desc q' ! unat i) = len \<and> desc_flags (vq_desc q' ! unat i) = (if wr then VIRTQ_DESC_F_WRITE else 0) \<and>
   vaddr_of q' i \<notin> bases h \<and> live h' = add_mset (vaddr_of q' i, ucast len) (live h) \<and>
   (\<forall>k. k \<noteq> i \<longrightarrow> vq_desc q' ! unat k = vq_desc q ! unat k \<and> vq_extras q' ! unat k = vq_extras q ! unat k)"
  by (simp add: alloc_result_def)

lemma alloc_result_failed:
  "alloc_result q len wr h rc q' i h' \<Longrightarrow> rc \<noteq> EOK \<Longrightarrow>
   allocated q' = allocated q \<and> vq_desc q' = vq_desc q \<and> vq_extras q' = vq_extras q \<and> live h' = live h"
  by (simp add: alloc_result_def)

text \<open>The second allocation failed: the first descriptor is given back, and all is as before.\<close>

lemma request_unwound:
  assumes env: "locks_ok env" "unmaps_ok env"
    and a: "alloc_result q 8 False h EOK q1 i h1" and b: "alloc_result q1 2 True h1 rc q2 j h2" "rc \<noteq> EOK"
  shows "\<exists>q' h'. gpio_free_desc0 env rc i (s\<lparr> gs_vq := Some q2 \<rparr>) h2 = Some (rc, s\<lparr> gs_vq := Some q' \<rparr>, h') \<and>
      virtq_inv q' \<and> request_undone q h q' h' \<and> (\<forall>l. held l h' = held l h) \<and> frees h' = frees h"
proof -
  note fa = alloc_result_frame [OF a] alloc_result_ok [OF a]
  note fb = alloc_result_frame [OF b(1)] alloc_result_failed [OF b]
  have "i \<in> allocated q2" and "(vaddr_of q2 i, ucast (desc_len (vq_desc q2 ! unat i))) \<in># live h2"
    using fa fb by simp_all
  then obtain f h3 where u: "gpio_free_desc0 env rc i (s\<lparr> gs_vq := Some q2 \<rparr>) h2 =
        Some (rc, s\<lparr> gs_vq := Some (virtq_free_post q2 f i) \<rparr>, h3)"
      "virtq_inv (virtq_free_post q2 f i)" "allocated (virtq_free_post q2 f i) = allocated q2 - {i}"
      "live h3 = live h2 - {#(vaddr_of q2 i, ucast (desc_len (vq_desc q2 ! unat i)))#}"
      "\<forall>l. held l h3 = held l h2" "frees h3 = frees h2"
    using gpio_free_desc0_run [of q2 env i h2 rc s] env fb(1) by auto
  have "k \<noteq> i" if "k \<in> allocated q" for k using that fa by blast
  moreover have "same_rings q (virtq_free_post q2 f i)"
    using fa(1) fb(1) by (blast intro: same_rings_trans same_rings_free)
  ultimately have "request_undone q h (virtq_free_post q2 f i) h3"
    using fa fb u(3,4) by (simp add: request_undone_def virtq_free_post_other)
  then show ?thesis using u(1,2,5,6) fa(1) fb(1) by auto
qed

lemma sent_post_simps:
  assumes "virtq_inv q" and "i < vq_num q"
  shows "vq_extras (sent_post q c ds i) ! unat k =
           (if k = i then (vq_extras q ! unat i)\<lparr> extras_context := c \<rparr> else vq_extras q ! unat (k::u16))"
    and "allocated (sent_post q c ds i) = allocated q"
    and "length ds = length (vq_desc q) \<Longrightarrow> virtq_inv (sent_post q c ds i)"
proof -
  show "vq_extras (sent_post q c ds i) ! unat k =
           (if k = i then (vq_extras q ! unat i)\<lparr> extras_context := c \<rparr> else vq_extras q ! unat (k::u16))"
    using virtq_inv_in_range [OF assms] by (simp add: virtq_put_post_def nth_list_update unat_inject)
  show "allocated (sent_post q c ds i) = allocated q"
    by (simp add: allocated_def virtq_put_post_def free_list_def)
  show "length ds = length (vq_desc q) \<Longrightarrow> virtq_inv (sent_post q c ds i)"
    by (intro virtq_put_post_inv virtq_inv_extras assms(1)) simp_all
qed

lemma request_sent_post:
  assumes a: "alloc_result q 8 False h EOK q1 i h1" and b: "alloc_result q1 2 True h1 EOK q2 j h2"
    and f: "map f [0..<8] = bytes" and ds: "chain ds [i, j]" "length ds = length (vq_desc q2)"
      "\<forall>k. k \<noteq> i \<and> k \<noteq> j \<longrightarrow> ds ! unat k = vq_desc q2 ! unat k"
      "\<forall>k::u16. desc_len (ds ! unat k) = desc_len (vq_desc q2 ! unat k)" and h: "quiet h2 h3"
  shows "request_sent q m h (sent_post q2 c ds i) (m(vaddr_of q2 i := f)) h3 i j c bytes"
proof -
  note fa = alloc_result_frame [OF a] alloc_result_ok [OF a]
  note fb = alloc_result_frame [OF b] alloc_result_ok [OF b]
  have ij: "i < vq_num q2" "i \<noteq> j" using fa fb by auto
  then have vi: "vaddr_of q2 i = vaddr_of q1 i" "vq_desc q2 ! unat i = vq_desc q1 ! unat i"
    using fb by simp_all
  show ?thesis
    using fa fb f ds h ij vi sent_post_simps(1,2) [of q2 i c ds]
    by (auto simp: request_sent_def same_rings_def virtq_put_post_def quiet_def simp del: chain.simps)
qed

lemma request_published:
  assumes env: "locks_ok env" "notifies env (gd_dev dev)" and c: "c \<noteq> 0"
    and a: "alloc_result q 8 False h EOK q1 i h1" and b: "alloc_result q1 2 True h1 EOK q2 j h2"
  shows "\<exists>f ds h'.
      request_tail env dev c x s q2 i j type gpio value h2 =
        Some (EOK, s\<lparr> gs_vq := Some (sent_post q2 c ds i), gs_mem := (gs_mem s)(vaddr_of q2 i := f) \<rparr>, h') \<and>
      virtq_inv (sent_post q2 c ds i) \<and>
      request_sent q (gs_mem s) h (sent_post q2 c ds i) ((gs_mem s)(vaddr_of q2 i := f)) h' i j c
        (request_bytes type gpio value) \<and>
      (\<forall>l. held l h' = held l h) \<and> frees h' = frees h"
proof -
  note fa = alloc_result_frame [OF a] alloc_result_ok [OF a]
  note fb = alloc_result_frame [OF b] alloc_result_ok [OF b]
  have inv2: "virtq_inv q2" and ij: "i < vq_num q2" "j < vq_num q2" "i \<noteq> j" using fa fb by auto
  have nn: "\<not> has_next (vq_desc q2 ! unat j)"
    using fb by (simp add: has_next_def VIRTQ_DESC_F_WRITE_def VIRTQ_DESC_F_NEXT_def)
  have m: "mapped h2 (vaddr_of q2 i) 8"
    by (rule mapped_in [where len = 8]) (use fa fb ij(3) in simp_all)
  obtain f ds h3 where t: "request_tail env dev c x s q2 i j type gpio value h2 =
        Some (EOK, s\<lparr> gs_vq := Some (sent_post q2 c ds i), gs_mem := (gs_mem s)(vaddr_of q2 i := f) \<rparr>, h3)"
      "map f [0..<8] = request_bytes type gpio value" "chain ds [i, j]" "length ds = length (vq_desc q2)"
      "\<forall>k. k \<noteq> i \<and> k \<noteq> j \<longrightarrow> ds ! unat k = vq_desc q2 ! unat k"
      "\<forall>k::u16. desc_len (ds ! unat k) = desc_len (vq_desc q2 ! unat k)" "quiet h2 h3"
    using virtio_gpio_request_tail [OF inv2 env ij c nn m, of x s type gpio "value"] by blast
  show ?thesis
    using t(1,7) request_sent_post [OF a b t(2-7)] sent_post_simps(3) [OF inv2 ij(1) t(4)] fa(1) fb(1)
    by (intro exI [of _ f] exI [of _ ds] exI [of _ h3]) (auto simp: quiet_def)
qed

lemma virtio_gpio_request_run:
  assumes inv: "gs_vq s = Some q" "virtq_inv q"
    and env: "locks_ok env" "errnos_ok env" "unmaps_ok env" "mmap_fresh env" "notifies env (gd_dev dev)"
    and c: "c \<noteq> 0" and ty: "type \<noteq> VIRTIO_GPIO_MSG_GET_LINE_NAMES"
  shows "\<exists>rc s' q' h'. virtio_gpio_request env dev type gpio value c s h = Some (rc, s', h') \<and>
      gs_vq s' = Some q' \<and> virtq_inv q' \<and> gs_ctx s' = gs_ctx s \<and>
      (\<forall>l. held l h' = held l h) \<and> frees h' = frees h \<and>
      (rc \<noteq> EOK \<longrightarrow> gs_mem s' = gs_mem s \<and> request_undone q h q' h') \<and>
      (rc = EOK \<longrightarrow> (\<exists>i j. request_sent q (gs_mem s) h q' (gs_mem s') h' i j c (request_bytes type gpio value)))"
proof -
  let ?x = "\<lambda>h. Some (ucast (env_uninit env h))"
  obtain rc1 q1 i h1 where a: "virtq_alloc_desc env (Some q) 8 False (?x h) h = Some (rc1, Some q1, Some i, h1)"
      and ra: "alloc_result q 8 False h rc1 q1 i h1"
    using virtq_alloc_desc_fresh [OF inv(2) env(1-4)] by blast
  note fa = alloc_result_frame [OF ra]
  then obtain rc2 q2 j h2 where b: "virtq_alloc_desc env (Some q1) 2 True (?x h1) h1 = Some (rc2, Some q2, Some j, h2)"
      and rb: "alloc_result q1 2 True h1 rc2 q2 j h2"
    using virtq_alloc_desc_fresh [OF _ env(1-4), of q1] by blast
  have sz: "ucast (virtio_gpio_response_size dev type) = (2::u32)"
    using ty by (simp add: virtio_gpio_response_size_def)
  consider (first) "rc1 \<noteq> EOK" | (second) "rc1 = EOK" "rc2 \<noteq> EOK" | (sent) "rc1 = EOK" "rc2 = EOK" by blast
  then show ?thesis
  proof cases
    case first
    then have "virtio_gpio_request env dev type gpio value c s h = Some (rc1, s\<lparr> gs_vq := Some q1 \<rparr>, h1)"
      using a inv(1) by (simp add: virtio_gpio_request_def)
    then show ?thesis using fa alloc_result_failed [OF ra first] first by (auto simp: request_undone_def)
  next
    case second
    obtain q' h' where u: "gpio_free_desc0 env rc2 i (s\<lparr> gs_vq := Some q2 \<rparr>) h2 = Some (rc2, s\<lparr> gs_vq := Some q' \<rparr>, h')"
        "virtq_inv q'" "request_undone q h q' h'" "\<forall>l. held l h' = held l h" "frees h' = frees h"
      using request_unwound [OF env(1,3) ra [unfolded second(1)] rb second(2)] by blast
    then have "virtio_gpio_request env dev type gpio value c s h = Some (rc2, s\<lparr> gs_vq := Some q' \<rparr>, h')"
      using a inv(1) b second sz by (simp add: virtio_gpio_request_def)
    then show ?thesis using u second by auto
  next
    case sent
    from request_published [OF env(1,5) c ra [unfolded sent] rb [unfolded sent],
        of "env_uninit env h2" s type gpio "value"] a inv(1) b sent sz
    obtain f ds h' where t: "virtio_gpio_request env dev type gpio value c s h =
          Some (EOK, s\<lparr> gs_vq := Some (sent_post q2 c ds i), gs_mem := (gs_mem s)(vaddr_of q2 i := f) \<rparr>, h')"
        "virtq_inv (sent_post q2 c ds i)"
        "request_sent q (gs_mem s) h (sent_post q2 c ds i) ((gs_mem s)(vaddr_of q2 i := f)) h' i j c
           (request_bytes type gpio value)" "\<forall>l. held l h' = held l h" "frees h' = frees h"
      by (auto simp: virtio_gpio_request_def request_tail_def simp del: chain.simps)
    then show ?thesis by auto
  qed
qed

section \<open>What collecting an answered request does\<close>

lemma load_bytes_run: "mapped h a (off + n) \<Longrightarrow> load_bytes s h a off n = Some (map (gs_mem s a) [off..<off + n])"
  by (simp add: load_bytes_def)

text \<open>The context after the completion: status and value are the two bytes of the response.\<close>

definition completed :: "(nat \<Rightarrow> u8) \<Rightarrow> virtio_gpio_context_header \<Rightarrow> gpio_context" where
  "completed response hdr =
     Context (hdr\<lparr> ctx_status := response 0, ctx_sem := ctx_sem hdr + 1 \<rparr>) (response 1)"

lemma virtio_gpio_callback_run:
  assumes "mapped h request 8" and "mapped h response 2" and "gs_ctx s c = Some (Context hdr v)"
    and "of_le16 (map (gs_mem s request) [0..<2]) \<noteq> VIRTIO_GPIO_MSG_GET_LINE_NAMES"
  shows "virtio_gpio_callback request response c s h =
           Some (s\<lparr> gs_ctx := (gs_ctx s)(c \<mapsto> completed (gs_mem s response) hdr) \<rparr>, SemPost c # h)"
proof -
  have "mapped h request (0 + 2)" "mapped h response (0 + 1)" "mapped h response (1 + 1)"
    using assms(1,2) by (auto simp: mapped_def)
  note l = this [THEN load_bytes_run, of s]
  show ?thesis
    using assms(3,4) l by (simp add: virtio_gpio_callback_def completed_def Let_def upt_rec)
qed

lemma virtq_callback_body_run:
  assumes inv: "gs_vq s = Some q" "virtq_inv q" and env: "locks_ok env" "unmaps_ok env"
    and i: "i \<in> allocated q" "j \<in> allocated q" "i \<noteq> j"
    and len: "desc_len (vq_desc q ! unat i) = 8" "desc_len (vq_desc q ! unat j) = 2"
    and lv: "(vaddr_of q i, 8) \<in># live h" "(vaddr_of q j, 2) \<in># live h" "vaddr_of q i \<noteq> vaddr_of q j"
    and ctx: "gs_ctx s (context_of q i) = Some (Context hdr v)" "ctx_callback hdr = Some Virtio_gpio_callback"
    and ty: "of_le16 (map (gs_mem s (vaddr_of q i)) [0..<2]) \<noteq> VIRTIO_GPIO_MSG_GET_LINE_NAMES"
  shows "\<exists>f g h'. let q' = virtq_free_post (virtq_free_post q f i) g j in
      virtq_callback_body env [i, j] s h =
        Some (s\<lparr> gs_ctx := (gs_ctx s)(context_of q i \<mapsto> completed (gs_mem s (vaddr_of q j)) hdr), gs_vq := Some q' \<rparr>, h') \<and>
      virtq_inv q' \<and> allocated q' = allocated q - {i, j} \<and>
      live h' = live h - {#(vaddr_of q i, 8), (vaddr_of q j, 2)#} \<and>
      (\<forall>l. held l h' = held l h) \<and> frees h' = frees h"
proof -
  let ?c = "context_of q i" and ?a = "vaddr_of q i" and ?b = "vaddr_of q j"
  let ?h1 = "SemPost ?c # h"
  have rng: "i < vq_num q" "j < vq_num q" using i(1,2) by (simp_all add: allocated_def)
  have m: "mapped h ?a 8" "mapped h ?b 2"
    using mapped_in [OF lv(1)] mapped_in [OF lv(2)] by simp_all
  note cb = virtio_gpio_callback_run [OF m ctx(1) ty]
  have "env_munmap env ?h1 ?a (ucast (desc_len (vq_desc q ! unat i))) = 0"
    using env(2) lv(1) len(1) by (simp add: unmaps_ok_def)
  from virtq_free_desc_run [OF inv(2) env(1) i(1) this] len(1)
  obtain f h2 where f: "virtq_free_desc env q i ?h1 = Some (EOK, virtq_free_post q f i, h2)"
      "virtq_inv (virtq_free_post q f i)" "\<forall>l. held l h2 = held l h" "frees h2 = frees h"
      "allocated (virtq_free_post q f i) = allocated q - {i}" "live h2 = live h - {#(?a, 8)#}"
    by auto
  let ?q1 = "virtq_free_post q f i"
  have j: "vaddr_of ?q1 j = ?b" "vq_desc ?q1 ! unat j = vq_desc q ! unat j"
    using i(3) by (simp_all add: virtq_free_post_other)
  have "env_munmap env h2 (vaddr_of ?q1 j) (ucast (desc_len (vq_desc ?q1 ! unat j))) = 0"
    using env(2) lv(2,3) len(2) f(6) j by (simp add: unmaps_ok_def in_diff_count)
  moreover have "j \<in> allocated ?q1" using i(2,3) f(5) by simp
  ultimately obtain g h3 where g: "virtq_free_desc env ?q1 j h2 = Some (EOK, virtq_free_post ?q1 g j, h3)"
      "virtq_inv (virtq_free_post ?q1 g j)" "\<forall>l. held l h3 = held l h2" "frees h3 = frees h2"
      "allocated (virtq_free_post ?q1 g j) = allocated ?q1 - {j}" "live h3 = live h2 - {#(?b, 2)#}"
    using virtq_free_desc_run [OF f(2) env(1), of j h2] j len(2) by auto
  have "virtq_callback_body env [i, j] s h =
      Some (s\<lparr> gs_ctx := (gs_ctx s)(?c \<mapsto> completed (gs_mem s ?b) hdr), gs_vq := Some (virtq_free_post ?q1 g j) \<rparr>, h3)"
    using inv(1) rng ctx cb f(1) g(1) virtq_get_desc_vaddr_run [OF inv(2)] virtq_get_desc_context_run [OF inv(2)]
    by (simp add: virtq_callback_body_def pointer_of_def)
  moreover have "allocated (virtq_free_post ?q1 g j) = allocated q - {i, j}"
    using f(5) g(5) by auto
  ultimately show ?thesis
    using f g
    by - (rule exI [of _ f], rule exI [of _ g], rule exI [of _ h3], simp add: Let_def add_mset_commute)
qed

section \<open>Both transports notify\<close>

context transport
begin

lemma notifies_ok:
  assumes "vd_ops dev = Some ops" and "ready (vd_base dev)" and "locks_ok env"
  shows "notifies env dev"
proof -
  have "quiet h (wr_notify env (vd_base dev) 0 h' @ wr_select (vd_base dev) 0 @ h)" for h h'
    using quiet_reg_list [OF regs(2)] quiet_reg_list [OF regs(3)] by (rule quiet_trans)
  then have "quiet h (critical env (device_lock dev)
      (\<lambda>h. let h = wr_select (vd_base dev) 0 @ h in wr_notify env (vd_base dev) 0 h @ h) h)" for h
    by (intro quiet_critical) (simp add: Let_def)
  then show ?thesis
    using notify_queue [OF assms(1,2), of env _ 0] assms(3) by (auto simp: notifies_def)
qed

end

end
