(* ===== verification/Gpio_System.thy ===== *)
theory Gpio_System
  imports Gpio
begin

text \<open>
  The driver at work: client threads in the value and direction functions, the device, and the
  interrupt thread, over one request queue. A state of the system is the driver's state, the
  history of external calls, and what the device knows: how far it has read the available ring
  and which heads it has taken and not yet answered. A step is a client's way up to its wait, a
  client's return from it, an interrupt, or a move of the device.

  The invariant says which chains are in flight and that their buffers and contexts are theirs
  alone. From it: the interrupt callback never touches memory that is gone, and a client gets the
  bytes the device wrote.
\<close>

section \<open>Requests in flight\<close>

abbreviation next_of :: "virtq \<Rightarrow> u16 \<Rightarrow> u16" where
  "next_of q i \<equiv> desc_next (vq_desc q ! unat i)"

definition request_type :: "gpio_state \<Rightarrow> ptr \<Rightarrow> u16" where
  "request_type s a = of_le16 (map (gs_mem s a) [0..<2])"

text \<open>A request in flight with head \<open>i\<close>: its chain, its two buffers, its context.\<close>

definition request_ok :: "gpio_state \<Rightarrow> hist \<Rightarrow> virtq \<Rightarrow> u16 \<Rightarrow> bool" where
  "request_ok s h q i \<longleftrightarrow>
     (let j = next_of q i in
      chain (vq_desc q) [i, j] \<and> desc_len (vq_desc q ! unat i) = 8 \<and> desc_len (vq_desc q ! unat j) = 2 \<and>
      (vaddr_of q i, 8) \<in># live h \<and> (vaddr_of q j, 2) \<in># live h \<and>
      request_type s (vaddr_of q i) \<noteq> VIRTIO_GPIO_MSG_GET_LINE_NAMES \<and>
      (\<exists>hdr v. gs_ctx s (context_of q i) = Some (Context hdr v) \<and>
         ctx_callback hdr = Some Virtio_gpio_callback \<and> ctx_sem hdr = 0))"

text \<open>
  The heads \<open>hs\<close> in flight account for exactly the descriptors in use, two each; no two
  descriptors share a buffer and no two requests a context.
\<close>

definition in_flight :: "gpio_state \<Rightarrow> hist \<Rightarrow> virtq \<Rightarrow> u16 list \<Rightarrow> bool" where
  "in_flight s h q hs \<longleftrightarrow>
     (let ds = hs @ map (next_of q) hs in
      distinct ds \<and> set ds = allocated q \<and> distinct (map (vaddr_of q) ds) \<and>
      distinct (map (context_of q) hs) \<and> (\<forall>i \<in> set hs. request_ok s h q i))"

lemma in_flight_perm:
  assumes "mset hs = mset hs'"
  shows "in_flight s h q hs = in_flight s h q hs'"
proof -
  have ds: "mset (hs @ map (next_of q) hs) = mset (hs' @ map (next_of q) hs')" using assms by simp
  have d: "distinct (map g xs) = distinct (map g ys)" if "mset xs = mset ys" for g :: "'b \<Rightarrow> 'c" and xs ys
    using that by (metis mset_eq_imp_distinct_iff mset_map)
  have s: "set hs = set hs'" "set (hs @ map (next_of q) hs) = set (hs' @ map (next_of q) hs')"
    using assms ds by (metis set_mset_mset)+
  show ?thesis
    unfolding in_flight_def Let_def
    using d [OF ds, of id] d [OF ds, of "vaddr_of q"] d [OF assms, of "context_of q"] s by simp
qed

text \<open>A request whose chain, buffers and context nothing has touched stays in flight.\<close>

lemma request_ok_frame:
  assumes "request_ok s h q i" and "vq_desc q' ! unat i = vq_desc q ! unat i" "vq_extras q' ! unat i = vq_extras q ! unat i"
    and "vq_desc q' ! unat (next_of q i) = vq_desc q ! unat (next_of q i)"
      "vq_extras q' ! unat (next_of q i) = vq_extras q ! unat (next_of q i)"
    and "length (vq_desc q') = length (vq_desc q)"
    and "(vaddr_of q i, 8) \<in># live h'" "(vaddr_of q (next_of q i), 2) \<in># live h'"
    and "request_type s' (vaddr_of q i) = request_type s (vaddr_of q i)"
    and "gs_ctx s' (context_of q i) = gs_ctx s (context_of q i)"
  shows "request_ok s' h' q' i"
  using assms unfolding request_ok_def Let_def by simp

lemma in_flight_cong:
  assumes "in_flight s h q hs" and "\<forall>k \<in> allocated q. vq_desc q' ! unat k = vq_desc q ! unat k \<and> vq_extras q' ! unat k = vq_extras q ! unat k"
    and "allocated q' = allocated q" and "length (vq_desc q') = length (vq_desc q)" and "live h' = live h"
    and "\<forall>i \<in> set hs. request_type s' (vaddr_of q i) = request_type s (vaddr_of q i)"
    and "\<forall>i \<in> set hs. gs_ctx s' (context_of q i) = gs_ctx s (context_of q i)"
  shows "in_flight s' h' q' hs"
proof -
  have al: "k \<in> allocated q" if "k \<in> set hs \<or> k \<in> next_of q ` set hs" for k
    using assms(1) that by (auto simp: in_flight_def Let_def)
  have hs: "map (next_of q') hs = map (next_of q) hs" "map (context_of q') hs = map (context_of q) hs"
    "map (vaddr_of q') hs = map (vaddr_of q) hs"
    "map (vaddr_of q') (map (next_of q) hs) = map (vaddr_of q) (map (next_of q) hs)"
    using assms(2) al by auto
  have "request_ok s' h' q' i" if "i \<in> set hs" for i
  proof (rule request_ok_frame)
    show "request_ok s h q i" using assms(1) that by (simp add: in_flight_def Let_def)
    then show "(vaddr_of q i, 8) \<in># live h'" "(vaddr_of q (next_of q i), 2) \<in># live h'"
      using assms(5) by (simp_all add: request_ok_def Let_def)
  qed (use assms al that in auto)
  then show ?thesis
    using assms(1,3) hs unfolding in_flight_def Let_def map_append hs by simp
qed

lemma in_flight_allocated:
  "in_flight s h q hs \<Longrightarrow> i \<in> set hs \<Longrightarrow> i \<in> allocated q \<and> next_of q i \<in> allocated q \<and> next_of q i \<notin> set hs"
  by (auto simp: in_flight_def Let_def)

lemma in_flight_ok: "in_flight s h q hs \<Longrightarrow> i \<in> set hs \<Longrightarrow> request_ok s h q i"
  by (simp add: in_flight_def Let_def)

lemma request_ok_bases: "request_ok s h q i \<Longrightarrow> vaddr_of q i \<in> bases h \<and> vaddr_of q (next_of q i) \<in> bases h"
  unfolding request_ok_def Let_def by (metis fst_conv imageI)

text \<open>A new request touches no descriptor, no link and no address of the requests in flight.\<close>

lemma in_flight_untouched:
  assumes fl: "in_flight s h q hs" and sent: "request_sent q m h q' m' h' i j c bytes" and k: "k \<in> set hs"
  shows "k \<noteq> i \<and> k \<noteq> j \<and> next_of q k \<noteq> i \<and> next_of q k \<noteq> j" "next_of q' k = next_of q k"
    "vaddr_of q' k = vaddr_of q k" "vaddr_of q' (next_of q k) = vaddr_of q (next_of q k)" "context_of q' k = context_of q k"
    "vaddr_of q' i \<notin> {vaddr_of q k, vaddr_of q (next_of q k)}" "vaddr_of q' j \<notin> {vaddr_of q k, vaddr_of q (next_of q k)}"
proof -
  have new: "i \<notin> allocated q" "j \<notin> allocated q" "vaddr_of q' i \<notin> bases h" "vaddr_of q' j \<notin> bases h"
    "\<And>k. k \<noteq> i \<Longrightarrow> k \<noteq> j \<Longrightarrow> vq_desc q' ! unat k = vq_desc q ! unat k \<and> vq_extras q' ! unat k = vq_extras q ! unat k"
    using sent unfolding request_sent_def by blast+
  show n: "k \<noteq> i \<and> k \<noteq> j \<and> next_of q k \<noteq> i \<and> next_of q k \<noteq> j"
    using in_flight_allocated [OF fl k] new(1,2) by auto
  then show "next_of q' k = next_of q k" "vaddr_of q' k = vaddr_of q k"
    "vaddr_of q' (next_of q k) = vaddr_of q (next_of q k)" "context_of q' k = context_of q k"
    using new(5) by simp_all
  have "vaddr_of q k \<in> bases h \<and> vaddr_of q (next_of q k) \<in> bases h"
    using request_ok_bases [OF in_flight_ok [OF fl k]] .
  then show "vaddr_of q' i \<notin> {vaddr_of q k, vaddr_of q (next_of q k)}"
    "vaddr_of q' j \<notin> {vaddr_of q k, vaddr_of q (next_of q k)}"
    using new(3,4) by (metis empty_iff insert_iff)+
qed

lemma in_flight_sent:
  assumes fl: "in_flight s h q hs" and sent: "request_sent q (gs_mem s) h q' (gs_mem s') h' i j c bytes"
    and ty: "of_le16 (take 2 bytes) \<noteq> VIRTIO_GPIO_MSG_GET_LINE_NAMES" "length (vq_desc q') = length (vq_desc q)"
    and ctx: "gs_ctx s' c = Some (Context hdr v)" "ctx_callback hdr = Some Virtio_gpio_callback" "ctx_sem hdr = 0"
      "\<forall>c'. c' \<noteq> c \<longrightarrow> gs_ctx s' c' = gs_ctx s c'" "\<forall>k \<in> set hs. context_of q k \<noteq> c"
  shows "in_flight s' h' q' (hs @ [i])"
proof -
  have new: "i \<noteq> j" "allocated q' = insert i (insert j (allocated q))"
    "\<And>k. k \<noteq> i \<Longrightarrow> k \<noteq> j \<Longrightarrow> vq_desc q' ! unat k = vq_desc q ! unat k \<and> vq_extras q' ! unat k = vq_extras q ! unat k"
    "vaddr_of q' i \<noteq> vaddr_of q' j" "context_of q' i = c" "next_of q' i = j"
    "live h' = add_mset (vaddr_of q' i, 8) (add_mset (vaddr_of q' j, 2) (live h))"
    "map (gs_mem s' (vaddr_of q' i)) [0..<8] = bytes" "\<And>a. a \<noteq> vaddr_of q' i \<Longrightarrow> gs_mem s' a = gs_mem s a"
    "chain (vq_desc q') [i, j]" "desc_len (vq_desc q' ! unat i) = 8" "desc_len (vq_desc q' ! unat j) = 2"
    using sent unfolding request_sent_def by simp_all
  note old = in_flight_untouched [OF fl sent]
  have maps: "map (next_of q') hs = map (next_of q) hs" "map (vaddr_of q') hs = map (vaddr_of q) hs"
      "map (\<lambda>k. vaddr_of q' (next_of q k)) hs = map (\<lambda>k. vaddr_of q (next_of q k)) hs"
      "map (context_of q') hs = map (context_of q) hs"
    using old(2-5) by simp_all
  have "request_ok s' h' q' k" if k: "k \<in> set hs" for k
  proof (rule request_ok_frame [OF in_flight_ok [OF fl k]])
    show "(vaddr_of q k, 8) \<in># live h'" "(vaddr_of q (next_of q k), 2) \<in># live h'"
      using in_flight_ok [OF fl k] new(7) by (simp_all add: request_ok_def Let_def)
    show "request_type s' (vaddr_of q k) = request_type s (vaddr_of q k)"
      using new(9) old(6) [OF k] by (auto simp: request_type_def)
  qed (use new(3) old(1) [OF k] k ty(2) ctx(4,5) in simp_all)
  moreover have "request_ok s' h' q' i"
  proof -
    have "map (gs_mem s' (vaddr_of q' i)) [0..<2] = take 2 bytes"
      using arg_cong [OF new(8), of "take 2"] by (simp add: take_map upt_rec)
    then have "request_type s' (vaddr_of q' i) \<noteq> VIRTIO_GPIO_MSG_GET_LINE_NAMES"
      using ty(1) by (simp add: request_type_def)
    then show ?thesis using new ctx(1-3) by (simp add: request_ok_def Let_def)
  qed
  moreover have "distinct (hs @ map (next_of q) hs)" "set (hs @ map (next_of q) hs) = allocated q"
    "distinct (map (vaddr_of q) hs @ map (\<lambda>k. vaddr_of q (next_of q k)) hs)" "distinct (map (context_of q) hs)"
    using fl by (simp_all add: in_flight_def Let_def comp_def)
  moreover have "i \<notin> set hs" "j \<notin> set hs" "i \<notin> next_of q ` set hs" "j \<notin> next_of q ` set hs" "c \<notin> context_of q ` set hs"
    using old(1) ctx(5) by auto
  moreover have "vaddr_of q' i \<notin> vaddr_of q ` set hs \<union> (\<lambda>k. vaddr_of q (next_of q k)) ` set hs"
    "vaddr_of q' j \<notin> vaddr_of q ` set hs \<union> (\<lambda>k. vaddr_of q (next_of q k)) ` set hs"
    using old(6,7) by auto
  ultimately show ?thesis
    using new(1,2,4-6) by (auto simp: in_flight_def Let_def comp_def maps)
qed

text \<open>An answered request that was collected is no longer in flight.\<close>

lemma in_flight_collected:
  assumes fl: "in_flight s h q (i # hs)"
    and q': "q' = virtq_free_post (virtq_free_post q f i) g (next_of q i)"
    and s': "gs_mem s' = gs_mem s" "gs_ctx s' = (gs_ctx s)(context_of q i := x)"
    and al: "allocated q' = allocated q - {i, next_of q i}"
    and lv: "live h' = live h - {#(vaddr_of q i, 8), (vaddr_of q (next_of q i), 2)#}"
  shows "in_flight s' h' q' hs"
proof -
  let ?j = "next_of q i"
  have d: "distinct ((i # hs) @ map (next_of q) (i # hs))" "set ((i # hs) @ map (next_of q) (i # hs)) = allocated q"
    "distinct (map (vaddr_of q) (i # hs) @ map (\<lambda>k. vaddr_of q (next_of q k)) (i # hs))"
    "distinct (map (context_of q) (i # hs))"
    using fl by (simp_all add: in_flight_def Let_def comp_def)
  have other: "vq_desc q' ! unat k = vq_desc q ! unat k" "vq_extras q' ! unat k = vq_extras q ! unat k"
    if "k \<noteq> i" "k \<noteq> ?j" for k
    using that by (simp_all add: q' virtq_free_post_other)
  have ne: "k \<noteq> i" "k \<noteq> ?j" "next_of q k \<noteq> i" "next_of q k \<noteq> ?j" if "k \<in> set hs" for k
    using d(1) that by (auto simp: image_iff)
  have maps: "map (next_of q') hs = map (next_of q) hs" "map (vaddr_of q') hs = map (vaddr_of q) hs"
      "map (\<lambda>k. vaddr_of q' (next_of q' k)) hs = map (\<lambda>k. vaddr_of q (next_of q k)) hs"
      "map (context_of q') hs = map (context_of q) hs"
      "map (\<lambda>k. vaddr_of q' (next_of q k)) hs = map (\<lambda>k. vaddr_of q (next_of q k)) hs"
      "(\<lambda>k. vaddr_of q' (next_of q k)) ` set hs = (\<lambda>k. vaddr_of q (next_of q k)) ` set hs"
    using other ne by simp_all
  have "request_ok s' h' q' k" if k: "k \<in> set hs" for k
  proof (rule request_ok_frame)
    show ok: "request_ok s h q k" using in_flight_ok [OF fl] k by simp
    have m: "vaddr_of q k \<in> vaddr_of q ` set hs" "vaddr_of q (next_of q k) \<in> (\<lambda>k. vaddr_of q (next_of q k)) ` set hs"
      using k by simp_all
    have "vaddr_of q k \<noteq> vaddr_of q i" "vaddr_of q k \<noteq> vaddr_of q ?j"
      "vaddr_of q (next_of q k) \<noteq> vaddr_of q i" "vaddr_of q (next_of q k) \<noteq> vaddr_of q ?j"
      using d(3) m by auto
    then show "(vaddr_of q k, 8) \<in># live h'" "(vaddr_of q (next_of q k), 2) \<in># live h'"
      using ok lv by (simp_all add: request_ok_def Let_def in_diff_count)
    show "gs_ctx s' (context_of q k) = gs_ctx s (context_of q k)"
      using d(4) k s'(2) by (auto simp: image_iff)
    show "length (vq_desc q') = length (vq_desc q)" by (simp add: q' virtq_free_post_def)
  qed (use other ne k s' in \<open>simp_all add: request_type_def\<close>)
  moreover have "set (hs @ map (next_of q) hs) = allocated q'"
    using d(1,2) unfolding al by auto
  ultimately show ?thesis
    using d by (simp add: in_flight_def Let_def comp_def maps)
qed

section \<open>The device and the system\<close>

record gpio_sys =
  sys_state :: gpio_state
  sys_hist :: hist
  dev_seen :: u16
  dev_taken :: "u16 list"

text \<open>The device takes the next head from the available ring.\<close>

definition device_take :: "gpio_sys \<Rightarrow> gpio_sys option" where
  "device_take sys = do {
     q \<leftarrow> gs_vq (sys_state sys);
     (if dev_seen sys = vq_avail_idx q then None
      else do {
        i \<leftarrow> arr_get (vq_avail_ring q) (unat (dev_seen sys) mod unat (vq_num q));
        Some (sys\<lparr> dev_seen := dev_seen sys + 1, dev_taken := dev_taken sys @ [i] \<rparr>)
      })
   }"

text \<open>
  The device answers a head that it has taken, in any order: it writes status and value to the
  buffer of the second descriptor, puts the head in the used ring and advances the index.
\<close>

definition used_add :: "virtq \<Rightarrow> u16 \<Rightarrow> virtq" where
  "used_add q i =
     q\<lparr> vq_used_ring := (vq_used_ring q)[unat (vq_used_idx q) mod unat (vq_num q) :=
           \<lparr> used_elem_id = ucast i, used_elem_len = 2 \<rparr>],
        vq_used_idx := vq_used_idx q + 1 \<rparr>"

definition device_answer :: "u16 \<Rightarrow> u8 \<Rightarrow> u8 \<Rightarrow> gpio_sys \<Rightarrow> gpio_sys option" where
  "device_answer i status val sys = do {
     q \<leftarrow> gs_vq (sys_state sys);
     (if i \<notin> set (dev_taken sys) then None
      else do {
        s \<leftarrow> store_bytes (sys_state sys) (sys_hist sys) (vaddr_of q (next_of q i)) 0 [status, val];
        Some (sys\<lparr> sys_state := s\<lparr> gs_vq := Some (used_add q i) \<rparr>, dev_taken := remove1 i (dev_taken sys) \<rparr>)
      })
   }"

text \<open>The four requests of the driver's clients.\<close>

definition client_types :: "u16 set" where
  "client_types = {VIRTIO_GPIO_MSG_GET_DIRECTION, VIRTIO_GPIO_MSG_SET_DIRECTION,
                   VIRTIO_GPIO_MSG_GET_VALUE, VIRTIO_GPIO_MSG_SET_VALUE}"

definition put_state :: "gpio_sys \<Rightarrow> gpio_state \<Rightarrow> hist \<Rightarrow> gpio_sys" where
  "put_state sys s h = sys\<lparr> sys_state := s, sys_hist := h \<rparr>"

inductive gpio_step :: "env \<Rightarrow> 'p virtio_gpio_device \<Rightarrow> gpio_sys \<Rightarrow> gpio_sys \<Rightarrow> bool"
  for env dev where
  call: "gpio_step env dev sys (put_state sys s h)"
    if "c \<noteq> 0" "gs_ctx (sys_state sys) c = None" "type \<in> client_types"
      "gpio_begin env dev type gpio val c (sys_state sys) (sys_hist sys) = Some (b, rc, s, h)"
| return: "gpio_step env dev sys (put_state sys s h)"
    if "sem_wait_others env (\<lambda>s h. Some (s, h)) c (sys_state sys) (sys_hist sys) = Some (0, s1, h1)"
      "gpio_end env 0 c out s1 h1 = Some (rc, out', s, h)"
| interrupt: "gpio_step env dev sys (put_state sys s h)"
    if "virtq_callback env (sys_state sys) (sys_hist sys) = Some (rc, s, h)"
| take: "gpio_step env dev sys sys'" if "device_take sys = Some sys'"
| answer: "gpio_step env dev sys sys'" if "device_answer i status val sys = Some sys'"

inductive_cases gpio_stepE: "gpio_step env dev sys sys'"

text \<open>The heads in flight: taken by the device, waiting in the available ring, or answered.\<close>

definition outstanding :: "gpio_sys \<Rightarrow> virtq \<Rightarrow> u16 list" where
  "outstanding sys q = used_pending q @ dev_taken sys @ avail_since q (dev_seen sys)"

definition gpio_inv :: "gpio_sys \<Rightarrow> bool" where
  "gpio_inv sys \<longleftrightarrow>
     (case gs_vq (sys_state sys) of
        None \<Rightarrow> False
      | Some q \<Rightarrow>
          virtq_inv q \<and> unat (vq_num q) dvd 65536 \<and> in_flight (sys_state sys) (sys_hist sys) q (outstanding sys q))"

text \<open>At the start: a new queue, no descriptor in use, no head anywhere.\<close>

definition gpio_start :: "gpio_sys \<Rightarrow> bool" where
  "gpio_start sys \<longleftrightarrow>
     dev_taken sys = [] \<and>
     (case gs_vq (sys_state sys) of
        None \<Rightarrow> False
      | Some q \<Rightarrow>
          virtq_inv q \<and> unat (vq_num q) dvd 65536 \<and> allocated q = {} \<and>
          vq_used_idx q = vq_last_seen_used q \<and> vq_avail_idx q = dev_seen sys)"

lemma gpio_start_inv: "gpio_start sys \<Longrightarrow> gpio_inv sys"
  by (auto simp: gpio_start_def gpio_inv_def outstanding_def in_flight_def used_pending_def avail_since_def
      Let_def split: option.splits)

section \<open>The rings\<close>

lemma in_flight_room:
  assumes "virtq_inv q" and "in_flight s h q hs"
  shows "length hs \<le> unat (vq_num q)"
    and "k \<notin> allocated q \<Longrightarrow> k < vq_num q \<Longrightarrow> length hs < unat (vq_num q)"
proof -
  have d: "distinct hs" and al: "\<And>i. i \<in> set hs \<Longrightarrow> i \<in> allocated q"
    using assms(2) by (auto simp: in_flight_def Let_def)
  then have lt: "\<forall>i \<in> set hs. i < vq_num q" by (auto simp: allocated_def)
  show "length hs \<le> unat (vq_num q)" using distinct_words_length [OF d lt] .
  show "length hs < unat (vq_num q)" if "k \<notin> allocated q" "k < vq_num q"
  proof -
    have "distinct (k # hs)" "\<forall>i \<in> set (k # hs). i < vq_num q" using d al that lt by auto
    from distinct_words_length [OF this] show ?thesis by simp
  qed
qed

lemma length_used_pending: "length (used_pending q) = unat (vq_used_idx q - vq_last_seen_used q)"
  by (simp add: used_pending_def)

lemma length_avail_since: "length (avail_since q b) = unat (vq_avail_idx q - b)"
  by (simp add: avail_since_def)

lemma used_pending_add:
  assumes "virtq_inv q" and "unat (vq_num q) dvd 65536" and "length (used_pending q) < unat (vq_num q)"
  shows "used_pending (used_add q i) = used_pending q @ [i]"
proof -
  let ?n = "unat (vq_num q)" and ?b = "vq_last_seen_used q" and ?k = "unat (vq_used_idx q - vq_last_seen_used q)"
  have lt: "?k < ?n" using assms(3) by (simp add: length_used_pending)
  have idx: "vq_used_idx q = ?b + of_nat ?k" by simp
  have slot: "unat (vq_used_idx q) mod ?n = (unat ?b + ?k) mod ?n"
    by (subst idx) (rule ring_index [OF assms(2)])
  have "unat (vq_used_idx q + 1 - ?b) = Suc ?k"
  proof -
    have "unat (vq_used_idx q - ?b + 1) = Suc ?k" using lt by (rule unat_inc_eq)
    then show ?thesis by (simp add: algebra_simps)
  qed
  moreover have "(unat ?b + ?k) mod ?n \<noteq> (unat ?b + k) mod ?n" if "k < ?k" for k
    using ring_slot_inj [of k ?n ?k "unat ?b"] that lt by auto
  moreover have "(unat ?b + ?k) mod ?n < length (vq_used_ring q)"
    using assms(1) by (simp add: virtq_inv_def unat_gt_0)
  moreover have "ucast (ucast i :: u32) = i" by (rule bit_word_eqI) (simp add: bit_simps)
  ultimately show ?thesis
    by (simp add: used_pending_def used_add_def slot)
qed

lemma avail_since_take:
  assumes "unat (vq_num q) dvd 65536" and "b \<noteq> vq_avail_idx q"
  shows "avail_since q b = (vq_avail_ring q ! (unat b mod unat (vq_num q))) # avail_since q (b + 1)"
proof -
  have pos: "0 < unat (vq_avail_idx q - b)" using assms(2) by (simp add: unat_gt_0)
  have "avail_since q (b + 1) = tl (avail_since q b)"
    using ring_window_tl [OF assms(1), of "vq_avail_idx q" b "\<lambda>k. vq_avail_ring q ! k"] assms(2)
    by (simp add: avail_since_def)
  moreover have "hd (avail_since q b) = vq_avail_ring q ! (unat b mod unat (vq_num q))"
    using pos by (simp add: avail_since_def hd_map)
  moreover have "avail_since q b \<noteq> []" using pos by (simp add: avail_since_def)
  ultimately show ?thesis by (metis list.collapse)
qed

lemma used_add_inv: "virtq_inv (used_add q i) = virtq_inv q"
  by (simp add: virtq_inv_def used_add_def free_list_def split: option.splits)

lemma used_add_sel [simp]:
  "vq_desc (used_add q i) = vq_desc q" "vq_extras (used_add q i) = vq_extras q" "vq_num (used_add q i) = vq_num q"
  "allocated (used_add q i) = allocated q" "avail_since (used_add q i) b = avail_since q b"
  "vq_self (used_add q i) = vq_self q"
  by (simp_all add: used_add_def allocated_def free_list_def avail_since_def)

lemma in_flight_queue:
  "vq_desc q' = vq_desc q \<Longrightarrow> vq_extras q' = vq_extras q \<Longrightarrow> allocated q' = allocated q \<Longrightarrow>
   in_flight s h q' hs = in_flight s h q hs"
  by (simp add: in_flight_def request_ok_def)

section \<open>Each step keeps the invariant\<close>

lemma gpio_inv_take:
  assumes "gpio_inv sys" and "device_take sys = Some sys'"
  shows "gpio_inv sys'"
proof -
  obtain q where q: "gs_vq (sys_state sys) = Some q" "virtq_inv q" "unat (vq_num q) dvd 65536"
      "in_flight (sys_state sys) (sys_hist sys) q (outstanding sys q)"
    using assms(1) by (auto simp: gpio_inv_def split: option.splits)
  then have sys': "dev_seen sys \<noteq> vq_avail_idx q"
      "sys' = sys\<lparr> dev_seen := dev_seen sys + 1,
                   dev_taken := dev_taken sys @ [vq_avail_ring q ! (unat (dev_seen sys) mod unat (vq_num q))] \<rparr>"
    using assms(2) by (auto simp: device_take_def arr_get_def bind_eq_Some_conv split: if_splits)
  have "outstanding sys' q = outstanding sys q"
    using avail_since_take [OF q(3) sys'(1)] by (simp add: outstanding_def sys'(2))
  then show ?thesis using q sys'(2) by (simp add: gpio_inv_def)
qed

lemma gpio_inv_answer:
  assumes "gpio_inv sys" and "device_answer i status val sys = Some sys'"
  shows "gpio_inv sys'"
proof -
  let ?s = "sys_state sys" and ?h = "sys_hist sys"
  obtain q where q: "gs_vq ?s = Some q" "virtq_inv q" "unat (vq_num q) dvd 65536"
      "in_flight ?s ?h q (outstanding sys q)"
    using assms(1) by (auto simp: gpio_inv_def split: option.splits)
  obtain s where s: "i \<in> set (dev_taken sys)" "store_bytes ?s ?h (vaddr_of q (next_of q i)) 0 [status, val] = Some s"
      "sys' = sys\<lparr> sys_state := s\<lparr> gs_vq := Some (used_add q i) \<rparr>, dev_taken := remove1 i (dev_taken sys) \<rparr>"
    using assms(2) q(1) by (auto simp: device_answer_def bind_eq_Some_conv split: if_splits)
  have s': "gs_ctx s = gs_ctx ?s" "\<And>a. a \<noteq> vaddr_of q (next_of q i) \<Longrightarrow> gs_mem s a = gs_mem ?s a"
    using s(2) by (auto simp: store_bytes_def split: if_splits)
  have "length (used_pending q) < length (outstanding sys q)"
    using s(1) by (cases "dev_taken sys") (simp_all add: outstanding_def)
  then have room: "length (used_pending q) < unat (vq_num q)"
    using in_flight_room(1) [OF q(2,4)] by simp
  have "mset (outstanding sys' (used_add q i)) = mset (outstanding sys q)"
    using s(1) used_pending_add [OF q(2,3) room, of i]
    by (simp add: outstanding_def s(3) add_mset_remove_trivial_If)
  then have "in_flight (s\<lparr> gs_vq := Some (used_add q i) \<rparr>) ?h q (outstanding sys' (used_add q i)) =
      in_flight (s\<lparr> gs_vq := Some (used_add q i) \<rparr>) ?h q (outstanding sys q)"
    by (rule in_flight_perm)
  moreover have "in_flight (s\<lparr> gs_vq := Some (used_add q i) \<rparr>) ?h q (outstanding sys q)"
  proof (rule in_flight_cong [OF q(4)])
    have "vaddr_of q k \<noteq> vaddr_of q (next_of q i)" if "k \<in> set (outstanding sys q)" for k
    proof -
      have m: "vaddr_of q k \<in> vaddr_of q ` set (outstanding sys q)"
          "vaddr_of q (next_of q i) \<in> vaddr_of q ` set (map (next_of q) (outstanding sys q))"
        using that s(1) by (auto simp: outstanding_def)
      have "distinct (map (vaddr_of q) (outstanding sys q) @ map (vaddr_of q) (map (next_of q) (outstanding sys q)))"
        using q(4) by (simp add: in_flight_def Let_def)
      then show ?thesis using m unfolding distinct_append set_map by (metis disjoint_iff)
    qed
    then show "\<forall>k \<in> set (outstanding sys q).
        request_type (s\<lparr> gs_vq := Some (used_add q i) \<rparr>) (vaddr_of q k) = request_type ?s (vaddr_of q k)"
      using s'(2) by (simp add: request_type_def)
  qed (simp_all add: s')
  ultimately show ?thesis
    using q s(3) by (simp add: gpio_inv_def used_add_inv in_flight_queue [of "used_add q i" q])
qed

section \<open>The interrupt callback\<close>

definition virtq_callback_from ::
  "env \<Rightarrow> u16 list \<Rightarrow> gpio_state \<Rightarrow> hist \<Rightarrow> (rc \<times> gpio_state \<times> hist) option" where
  "virtq_callback_from env idxs s h =
     Option.bind (virtq_callback_get env idxs s h)
       (\<lambda>r. virtq_callback_loop env (fst r) (fst (snd r)) (fst (snd (snd r))) (snd (snd (snd r))))"

lemma virtq_callback_eq:
  "virtq_callback env s h = virtq_callback_from env (replicate 2 (ucast (env_uninit env h))) s h"
  by (simp add: virtq_callback_def virtq_callback_from_def case_prod_unfold)

lemma used_pending_cong:
  "vq_used_ring q' = vq_used_ring q \<Longrightarrow> vq_used_idx q' = vq_used_idx q \<Longrightarrow>
   vq_last_seen_used q' = vq_last_seen_used q \<Longrightarrow> vq_num q' = vq_num q \<Longrightarrow> used_pending q' = used_pending q"
  by (simp add: used_pending_def)

lemma avail_since_cong:
  "vq_avail_ring q' = vq_avail_ring q \<Longrightarrow> vq_avail_idx q' = vq_avail_idx q \<Longrightarrow> vq_num q' = vq_num q \<Longrightarrow>
   avail_since q' b = avail_since q b"
  by (simp add: avail_since_def)

text \<open>What the callback leaves behind: the answered requests are completed and gone.\<close>

definition collected :: "gpio_state \<Rightarrow> hist \<Rightarrow> virtq \<Rightarrow> u16 list \<Rightarrow> gpio_state \<Rightarrow> hist \<Rightarrow> virtq \<Rightarrow> bool" where
  "collected s h q is s' h' q' \<longleftrightarrow>
     gs_vq s' = Some q' \<and> virtq_inv q' \<and> vq_num q' = vq_num q \<and> used_pending q' = [] \<and>
     (\<forall>b. avail_since q' b = avail_since q b) \<and> gs_mem s' = gs_mem s \<and>
     (\<forall>i \<in> set is. \<exists>hdr v. gs_ctx s (context_of q i) = Some (Context hdr v) \<and> ctx_sem hdr = 0 \<and>
        gs_ctx s' (context_of q i) = Some (completed (gs_mem s (vaddr_of q (next_of q i))) hdr)) \<and>
     (\<forall>c. c \<notin> context_of q ` set is \<longrightarrow> gs_ctx s' c = gs_ctx s c) \<and>
     (\<forall>l. held l h' = held l h) \<and> frees h' = frees h"

text \<open>One turn of the loop: the oldest answered request \<open>i\<close> is completed and its descriptors are free.\<close>

definition collected_one :: "gpio_state \<Rightarrow> hist \<Rightarrow> virtq \<Rightarrow> u16 \<Rightarrow> u16 list \<Rightarrow> gpio_state \<Rightarrow> hist \<Rightarrow> virtq \<Rightarrow> bool" where
  "collected_one s h q i us s' h' q' \<longleftrightarrow>
     gs_vq s' = Some q' \<and> virtq_inv q' \<and> vq_num q' = vq_num q \<and> used_pending q' = us \<and>
     (\<forall>b. avail_since q' b = avail_since q b) \<and> gs_mem s' = gs_mem s \<and>
     (\<exists>hdr v. gs_ctx s (context_of q i) = Some (Context hdr v) \<and> ctx_sem hdr = 0 \<and>
        gs_ctx s' = (gs_ctx s)(context_of q i \<mapsto> completed (gs_mem s (vaddr_of q (next_of q i))) hdr)) \<and>
     (\<forall>k \<in> set us. context_of q' k = context_of q k \<and> context_of q k \<noteq> context_of q i \<and>
        next_of q' k = next_of q k \<and> vaddr_of q' (next_of q k) = vaddr_of q (next_of q k)) \<and>
     (\<forall>l. held l h' = held l h) \<and> frees h' = frees h"

lemma collected_Cons:
  assumes one: "collected_one s h q i us s1 h1 q1" and us: "collected s1 h1 q1 us s' h' q'"
  shows "collected s h q (i # us) s' h' q'"
proof -
  let ?done = "\<lambda>s q s' k. \<exists>hdr v. gs_ctx s (context_of q k) = Some (Context hdr v) \<and> ctx_sem hdr = 0 \<and>
      gs_ctx s' (context_of q k) = Some (completed (gs_mem s (vaddr_of q (next_of q k))) hdr)"
  obtain hdr v where x: "gs_ctx s (context_of q i) = Some (Context hdr v)" "ctx_sem hdr = 0"
      "gs_ctx s1 = (gs_ctx s)(context_of q i \<mapsto> completed (gs_mem s (vaddr_of q (next_of q i))) hdr)"
    using one unfolding collected_one_def by blast
  have same: "context_of q1 k = context_of q k" "context_of q k \<noteq> context_of q i" "next_of q1 k = next_of q k"
      "vaddr_of q1 (next_of q k) = vaddr_of q (next_of q k)" if "k \<in> set us" for k
    using one that unfolding collected_one_def by blast+
  have img: "context_of q1 ` set us = context_of q ` set us" using same(1) by (rule image_cong [OF refl])
  have rest: "gs_ctx s' c = gs_ctx s1 c" if "c \<notin> context_of q ` set us" for c
    using us that unfolding collected_def img by blast
  have mem: "gs_mem s1 = gs_mem s" using one by (simp add: collected_one_def)
  have "?done s q s' k" if k: "k \<in> set us" for k
  proof -
    have "?done s1 q1 s' k" using us k unfolding collected_def by blast
    then show ?thesis using same(2) [OF k] unfolding same(1,3,4) [OF k] mem x(3) by simp
  qed
  moreover have "?done s q s' i"
  proof -
    have "context_of q i \<notin> context_of q ` set us" using same(2) by force
    from rest [OF this] x show ?thesis by simp
  qed
  moreover have "gs_ctx s' c = gs_ctx s c" if "c \<notin> context_of q ` set (i # us)" for c
    using rest [of c] x(3) that by simp
  ultimately show ?thesis
    using one us by (simp add: collected_def collected_one_def)
qed

lemma collect_none:
  assumes "virtq_inv q" and "gs_vq s = Some q" and "locks_ok env" and "in_flight s h q rest"
    and "length idxs = 2" and up: "used_pending q = []"
  shows "\<exists>h'. virtq_callback_from env idxs s h = Some (ENOENT, s, h') \<and> collected s h q [] s h' q \<and>
           in_flight s h' q rest"
proof -
  have lock: "env_spin_lock env h (VirtqLock (vq_self q)) = EOK" using assms(3) by simp
  have idx: "vq_used_idx q = vq_last_seen_used q"
    using up by (metis length_used_pending list.size(3) unat_eq_zero right_minus_eq)
  then obtain h' where g: "virtq_get_desc_chain env (Some q) (Some 2) (Some idxs) h =
      Some (ENOENT, Some q, Some 2, Some idxs, h')" "quiet h h'"
    using virtq_get_desc_chain_run [OF assms(1) lock, of 2 idxs "[]"] assms(5) by auto
  have s: "s\<lparr> gs_vq := Some q \<rparr> = s" using assms(2) by simp
  have "virtq_callback_from env idxs s h = Some (ENOENT, s, h')"
    using g(1) assms(2) s
    by (simp add: virtq_callback_from_def virtq_callback_get_def virtq_callback_loop.simps)
  moreover have "collected s h q [] s h' q"
    using assms(1,2) up g(2) by (simp add: collected_def quiet_def)
  moreover have "in_flight s h' q rest"
    using assms(4) g(2) by (simp add: in_flight_def request_ok_def quiet_def)
  ultimately show ?thesis by blast
qed

lemma collect_one:
  assumes inv: "virtq_inv q" "unat (vq_num q) dvd 65536" "gs_vq s = Some q" and env: "locks_ok env" "unmaps_ok env"
    and fl: "in_flight s h q (i # us @ rest)" and idxs: "length idxs = 2" and up: "used_pending q = i # us"
  shows "\<exists>s1 h1 q1 idxs1. virtq_callback_from env idxs s h = virtq_callback_from env idxs1 s1 h1 \<and>
           length idxs1 = 2 \<and> collected_one s h q i us s1 h1 q1 \<and> in_flight s1 h1 q1 (us @ rest)"
proof -
  let ?j = "next_of q i" and ?c = "context_of q i"
  have ok: "request_ok s h q i" and al: "i \<in> allocated q" "?j \<in> allocated q" "?j \<noteq> i"
    using in_flight_ok [OF fl] in_flight_allocated [OF fl] by auto
  have lock: "env_spin_lock env h (VirtqLock (vq_self q)) = EOK" using env(1) by simp
  have ch: "chain (vq_desc q) [i, ?j]" using ok by (simp add: request_ok_def Let_def)
  let ?q1 = "q\<lparr> vq_last_seen_used := vq_last_seen_used q + 1 \<rparr>"
  obtain h1 where g: "virtq_get_desc_chain env (Some q) (Some 2) (Some idxs) h =
      Some (EOK, Some ?q1, Some (of_nat 2), Some ([i, ?j] @ drop 2 idxs), h1)" "quiet h h1"
    using virtq_get_oldest_run [OF inv(1) lock up ch, of 2 idxs] idxs by (auto simp del: chain.simps)
  let ?s1 = "s\<lparr> gs_vq := Some ?q1 \<rparr>"
  have al1: "allocated ?q1 = allocated q" by (simp add: allocated_def)
  obtain hdr v where ctx: "gs_ctx s ?c = Some (Context hdr v)" "ctx_callback hdr = Some Virtio_gpio_callback"
      "ctx_sem hdr = 0"
    using ok by (auto simp: request_ok_def Let_def)
  have "vaddr_of q i \<noteq> vaddr_of q ?j" using fl by (auto simp: in_flight_def Let_def)
  then obtain f g2 h2 where b: "virtq_callback_body env [i, ?j] ?s1 h1 =
        Some (?s1\<lparr> gs_ctx := (gs_ctx s)(?c \<mapsto> completed (gs_mem s (vaddr_of q ?j)) hdr),
               gs_vq := Some (virtq_free_post (virtq_free_post ?q1 f i) g2 ?j) \<rparr>, h2)"
      "virtq_inv (virtq_free_post (virtq_free_post ?q1 f i) g2 ?j)"
      "allocated (virtq_free_post (virtq_free_post ?q1 f i) g2 ?j) = allocated q - {i, ?j}"
      "live h2 = live h - {#(vaddr_of q i, 8), (vaddr_of q ?j, 2)#}"
      "\<forall>l. held l h2 = held l h1" "frees h2 = frees h1"
    using virtq_callback_body_run [of ?s1 ?q1 env i ?j h1 hdr v] inv(1) env al al1 ok ctx g(2)
    by (auto simp: request_ok_def Let_def request_type_def quiet_def)
  let ?q2 = "virtq_free_post (virtq_free_post ?q1 f i) g2 ?j"
  let ?s2 = "?s1\<lparr> gs_ctx := (gs_ctx s)(?c \<mapsto> completed (gs_mem s (vaddr_of q ?j)) hdr), gs_vq := Some ?q2 \<rparr>"
  have fl1: "in_flight s h ?q1 (i # us @ rest)"
    using fl by (subst in_flight_queue [of ?q1 q]) (simp_all add: al1)
  have "in_flight ?s2 h2 ?q2 (us @ rest)"
    by (rule in_flight_collected [OF fl1, of ?q2 f g2 _ "Some (completed (gs_mem s (vaddr_of q ?j)) hdr)"])
      (use b al1 in simp_all)
  moreover have "virtq_callback_from env idxs s h = virtq_callback_from env [i, ?j] ?s2 h2"
    using g(1) b(1) inv(3) idxs
    by (simp add: virtq_callback_from_def virtq_callback_get_def virtq_callback_loop.simps [of _ 0] case_prod_unfold)
  moreover have "used_pending ?q2 = us"
    using used_pending_consume [OF inv(2) up] by (subst used_pending_cong [of _ ?q1]) simp_all
  moreover have "avail_since ?q2 b = avail_since q b" for b by (rule avail_since_cong) simp_all
  moreover have "k \<noteq> i" "k \<noteq> ?j" "next_of q k \<noteq> i" "next_of q k \<noteq> ?j" "context_of q k \<noteq> ?c" if "k \<in> set us" for k
    using fl that by (auto simp: in_flight_def Let_def image_iff)
  ultimately show ?thesis
    using b(2,5,6) g(2) ctx(1,3)
    by (intro exI [of _ ?s2] exI [of _ h2] exI [of _ ?q2] exI [of _ "[i, ?j]"])
      (simp add: collected_one_def virtq_free_post_other quiet_def)
qed

lemma virtq_callback_from_run:
  assumes "virtq_inv q" and "unat (vq_num q) dvd 65536" and "gs_vq s = Some q" and "locks_ok env" "unmaps_ok env"
    and "in_flight s h q (used_pending q @ rest)" and "length idxs = 2"
  shows "\<exists>s' h' q'. virtq_callback_from env idxs s h = Some (ENOENT, s', h') \<and>
           collected s h q (used_pending q) s' h' q' \<and> in_flight s' h' q' rest"
  using assms(1-3,6,7)
proof (induction "used_pending q" arbitrary: q s h idxs)
  case Nil
  then show ?case using collect_none [OF Nil.prems(1,3) assms(4), of h rest idxs] by auto
next
  case (Cons i us)
  from Cons.prems(4) have "in_flight s h q (i # us @ rest)" by (simp flip: Cons.hyps(2))
  from collect_one [OF Cons.prems(1-3) assms(4,5) this Cons.prems(5) Cons.hyps(2) [symmetric]]
  obtain s1 h1 q1 idxs1 where one: "virtq_callback_from env idxs s h = virtq_callback_from env idxs1 s1 h1"
      "length idxs1 = 2" "collected_one s h q i us s1 h1 q1" "in_flight s1 h1 q1 (us @ rest)" by blast
  then have q1: "us = used_pending q1" "virtq_inv q1" "unat (vq_num q1) dvd 65536" "gs_vq s1 = Some q1"
    using Cons.prems(2) by (simp_all add: collected_one_def)
  then obtain s' h' q' where "virtq_callback_from env idxs1 s1 h1 = Some (ENOENT, s', h')"
      "collected s1 h1 q1 us s' h' q'" "in_flight s' h' q' rest"
    using Cons.hyps(1) [OF q1 _ one(2)] one(4) by metis
  then show ?case using one(1) collected_Cons [OF one(3)] unfolding Cons.hyps(2) [symmetric] by metis
qed

section \<open>A client's call\<close>

lemma request_sent_live: "live h1 = live h \<Longrightarrow> request_sent q m h1 = request_sent q m h"
  by (simp add: request_sent_def fun_eq_iff)

definition fresh_header :: virtio_gpio_context_header where
  "fresh_header = \<lparr> ctx_callback = Some Virtio_gpio_callback, ctx_sem = 0, ctx_status = 0 \<rparr>"

lemma gpio_begin_run:
  assumes inv: "gs_vq s = Some q" "virtq_inv q"
    and env: "locks_ok env" "errnos_ok env" "unmaps_ok env" "mmap_fresh env" "notifies env (gd_dev dev)"
    and c: "c \<noteq> 0" "gs_ctx s c = None" and ty: "type \<noteq> VIRTIO_GPIO_MSG_GET_LINE_NAMES"
  shows "\<exists>b rc s' q' h'. gpio_begin env dev type gpio value c s h = Some (b, rc, s', h') \<and>
      gs_vq s' = Some q' \<and> virtq_inv q' \<and> (\<forall>l. held l h' = held l h) \<and> frees h' = frees h \<and>
      (if b then
         rc = EOK \<and> (\<exists>v. gs_ctx s' = (gs_ctx s)(c \<mapsto> Context fresh_header v)) \<and>
         (\<exists>i j. request_sent q (gs_mem s) h q' (gs_mem s') h' i j c (request_bytes type gpio value))
       else rc \<noteq> EOK \<and> gs_ctx s' = gs_ctx s \<and> gs_mem s' = gs_mem s \<and> request_undone q h q' h')"
proof -
  let ?u = "ucast (env_uninit env h) :: u8"
  let ?rc = "env_sem_init env h c"
  let ?h1 = "SemInit c ?rc # h"
  let ?hd = "\<lparr> ctx_callback = Some Virtio_gpio_callback, ctx_sem = 0, ctx_status = 0 \<rparr>"
  let ?s1 = "s\<lparr> gs_ctx := (gs_ctx s)(c \<mapsto> Context ?hd ?u) \<rparr>"
  have init: "virtio_gpio_context_init env c (gpio_enter env c s h) h = Some (?rc, ?s1, ?h1)"
    by (simp add: virtio_gpio_context_init_def gpio_enter_def Let_def)
  have restore: "(gs_ctx s)(c := None) = gs_ctx s" using c(2) by (simp add: fun_upd_idem)
  have same: "live ?h1 = live h" "\<And>l. held l ?h1 = held l h" "frees ?h1 = frees h" by simp_all
  show ?thesis
  proof (cases "?rc = EOK")
    case False
    then have "gpio_begin env dev type gpio value c s h = Some (False, ?rc, gpio_leave c ?s1, ?h1)"
      using init by (simp add: gpio_begin_def)
    moreover have "gs_ctx (gpio_leave c ?s1) = gs_ctx s" "gs_vq (gpio_leave c ?s1) = Some q"
        "gs_mem (gpio_leave c ?s1) = gs_mem s"
      using restore inv(1) by (simp_all add: gpio_leave_def)
    moreover have "request_undone q h q ?h1" by (simp add: request_undone_def)
    ultimately show ?thesis using inv(2) False same by auto
  next
    case True
    have vq1: "gs_vq ?s1 = Some q" using inv(1) by simp
    obtain rc s2 q2 h2 where r: "virtio_gpio_request env dev type gpio value c ?s1 ?h1 = Some (rc, s2, h2)"
        "gs_vq s2 = Some q2" "virtq_inv q2" "gs_ctx s2 = gs_ctx ?s1"
        "\<forall>l. held l h2 = held l ?h1" "frees h2 = frees ?h1"
      and failed: "rc \<noteq> EOK \<longrightarrow> gs_mem s2 = gs_mem ?s1 \<and> request_undone q ?h1 q2 h2"
      and sent: "rc = EOK \<longrightarrow>
          (\<exists>i j. request_sent q (gs_mem ?s1) ?h1 q2 (gs_mem s2) h2 i j c (request_bytes type gpio value))"
      using virtio_gpio_request_run [OF vq1 inv(2) env c(1) ty, of gpio "value" ?h1] by blast
    show ?thesis
    proof (cases "rc = EOK")
      case ok: True
      have "gpio_begin env dev type gpio value c s h = Some (True, rc, s2, h2)"
        using init r(1) True ok by (simp add: gpio_begin_def)
      then show ?thesis
        using ok r sent same request_sent_live [OF same(1)] by (simp add: fresh_header_def) blast
    next
      case bad: False
      let ?h3 = "SemDestroy c (env_sem_destroy env h2 c) # h2"
      have "gpio_begin env dev type gpio value c s h = Some (False, rc, gpio_leave c s2, ?h3)"
        using init r(1) True bad
        by (simp add: gpio_begin_def gpio_deinit_def virtio_gpio_context_deinit_def)
      moreover have "request_undone q h q2 ?h3"
        using failed bad by (simp add: request_undone_def)
      moreover have "gs_ctx (gpio_leave c s2) = gs_ctx s" "gs_vq (gpio_leave c s2) = Some q2"
          "gs_mem (gpio_leave c s2) = gs_mem s"
        using restore r(2,4) failed bad by (simp_all add: gpio_leave_def)
      ultimately show ?thesis using bad r(3,5,6) by auto
    qed
  qed
qed

lemma take_request_bytes: "of_le16 (take 2 (request_bytes type gpio value)) = type"
  by (simp add: request_bytes_def)

lemma client_typesD: "type \<in> client_types \<Longrightarrow> type \<noteq> VIRTIO_GPIO_MSG_GET_LINE_NAMES"
  by (auto simp: client_types_def VIRTIO_GPIO_MSG_GET_LINE_NAMES_def VIRTIO_GPIO_MSG_GET_DIRECTION_def
      VIRTIO_GPIO_MSG_SET_DIRECTION_def VIRTIO_GPIO_MSG_GET_VALUE_def VIRTIO_GPIO_MSG_SET_VALUE_def)

text \<open>The environment the driver needs: locks that work, a memory manager that keeps its mappings apart.\<close>

definition platform_ok :: "env \<Rightarrow> 'p virtio_gpio_device \<Rightarrow> bool" where
  "platform_ok env dev \<longleftrightarrow>
     locks_ok env \<and> errnos_ok env \<and> unmaps_ok env \<and> mmap_fresh env \<and> notifies env (gd_dev dev)"

lemma request_sent_rings:
  assumes "request_sent q m h q' m' h' i j c bytes"
  shows "used_pending q' = used_pending q" "vq_num q' = vq_num q"
    "virtq_inv q \<Longrightarrow> unat (vq_num q) dvd 65536 \<Longrightarrow> length (avail_since q b) < unat (vq_num q) \<Longrightarrow>
     avail_since q' b = avail_since q b @ [i]"
proof -
  have r: "vq_num q' = vq_num q" "vq_used_ring q' = vq_used_ring q" "vq_used_idx q' = vq_used_idx q"
    "vq_last_seen_used q' = vq_last_seen_used q" "vq_avail_idx q' = vq_avail_idx q + 1"
    "vq_avail_ring q' = (vq_avail_ring q)[unat (vq_avail_idx q) mod unat (vq_num q) := i]"
    using assms by (simp_all add: request_sent_def)
  then show "used_pending q' = used_pending q" "vq_num q' = vq_num q"
    by (simp_all add: used_pending_def)
  show "avail_since q' b = avail_since q b @ [i]"
    if "virtq_inv q" "unat (vq_num q) dvd 65536" "length (avail_since q b) < unat (vq_num q)"
  proof -
    have "avail_since q' b = avail_since (virtq_put_post q (vq_desc q) i) b"
      by (rule avail_since_cong) (simp_all add: r virtq_put_post_def)
    then show ?thesis
      using avail_since_put_post [OF that(1,2)] that(3) by (simp add: length_avail_since)
  qed
qed

lemma request_undone_rings:
  "request_undone q h q' h' \<Longrightarrow>
   used_pending q' = used_pending q \<and> avail_since q' b = avail_since q b \<and> vq_num q' = vq_num q"
  by (simp add: request_undone_def same_rings_def used_pending_def avail_since_def)

lemma gpio_inv_call:
  assumes inv: "gpio_inv sys" and env: "platform_ok env dev"
    and c: "c \<noteq> 0" "gs_ctx (sys_state sys) c = None" and ty: "type \<in> client_types"
  shows "\<exists>b rc s h. gpio_begin env dev type gpio value c (sys_state sys) (sys_hist sys) = Some (b, rc, s, h) \<and>
           gpio_inv (put_state sys s h)"
proof -
  obtain q where q: "gs_vq (sys_state sys) = Some q" "virtq_inv q" "unat (vq_num q) dvd 65536"
      "in_flight (sys_state sys) (sys_hist sys) q (outstanding sys q)"
    using inv by (auto simp: gpio_inv_def split: option.splits)
  let ?s = "sys_state sys" and ?h = "sys_hist sys"
  have e: "locks_ok env" "errnos_ok env" "unmaps_ok env" "mmap_fresh env" "notifies env (gd_dev dev)"
    using env by (simp_all add: platform_ok_def)
  obtain b rc s h q' where run: "gpio_begin env dev type gpio value c ?s ?h = Some (b, rc, s, h)"
      "gs_vq s = Some q'" "virtq_inv q'"
    and res: "if b then
         rc = EOK \<and> (\<exists>v. gs_ctx s = (gs_ctx ?s)(c \<mapsto> Context fresh_header v)) \<and>
         (\<exists>i j. request_sent q (gs_mem ?s) ?h q' (gs_mem s) h i j c (request_bytes type gpio value))
       else rc \<noteq> EOK \<and> gs_ctx s = gs_ctx ?s \<and> gs_mem s = gs_mem ?s \<and> request_undone q ?h q' h"
    using gpio_begin_run [OF q(1,2) e c client_typesD [OF ty], of gpio "value" ?h] by metis
  have len: "length (vq_desc q') = length (vq_desc q)" if "vq_num q' = vq_num q"
    using that q(2) run(3) by (simp add: virtq_inv_def)
  have "gpio_inv (put_state sys s h)"
  proof (cases b)
    case True
    then obtain v i j where ctx: "gs_ctx s = (gs_ctx ?s)(c \<mapsto> Context fresh_header v)"
        and sent: "request_sent q (gs_mem ?s) ?h q' (gs_mem s) h i j c (request_bytes type gpio value)"
      using res by auto
    note rings = request_sent_rings [OF sent]
    have new: "i \<notin> allocated q" "i < vq_num q" using sent by (simp_all add: request_sent_def)
    have "length (outstanding sys q) < unat (vq_num q)" using in_flight_room(2) [OF q(2,4) new] .
    then have "length (avail_since q (dev_seen sys)) < unat (vq_num q)" by (simp add: outstanding_def)
    note av = rings(3) [OF q(2,3) this]
    have nc: "context_of q k \<noteq> c" if "k \<in> set (outstanding sys q)" for k
      using in_flight_ok [OF q(4) that] c(2) by (auto simp: request_ok_def Let_def)
    have "in_flight s h q' (outstanding sys q @ [i])"
      by (rule in_flight_sent [OF q(4) sent _ len [OF rings(2)], of "fresh_header" v])
        (use ctx nc client_typesD [OF ty] in \<open>simp_all add: take_request_bytes fresh_header_def\<close>)
    moreover have "outstanding (put_state sys s h) q' = outstanding sys q @ [i]"
      using av rings(1) by (simp add: outstanding_def put_state_def)
    ultimately show ?thesis
      using run q(3) rings(2) by (simp add: gpio_inv_def put_state_def)
  next
    case False
    then have u: "gs_ctx s = gs_ctx ?s" "gs_mem s = gs_mem ?s" "request_undone q ?h q' h"
      using res by simp_all
    note rings = request_undone_rings [OF u(3)]
    have "outstanding (put_state sys s h) q' = outstanding sys q"
      using rings by (simp add: outstanding_def put_state_def)
    moreover have "in_flight s h q' (outstanding sys q)"
      by (rule in_flight_cong [OF q(4)])
        (use u rings len in \<open>simp_all add: request_undone_def request_type_def\<close>)
    ultimately show ?thesis
      using run q(3) rings by (simp add: gpio_inv_def put_state_def)
  qed
  then show ?thesis using run(1) by blast
qed

section \<open>The interrupt and the return\<close>

lemma virtq_callback_run:
  assumes "gpio_inv sys" and "locks_ok env" and "unmaps_ok env" and "gs_vq (sys_state sys) = Some q"
  shows "\<exists>s h q'. virtq_callback env (sys_state sys) (sys_hist sys) = Some (ENOENT, s, h) \<and>
           collected (sys_state sys) (sys_hist sys) q (used_pending q) s h q' \<and> gpio_inv (put_state sys s h)"
proof -
  have q: "virtq_inv q" "unat (vq_num q) dvd 65536"
      "in_flight (sys_state sys) (sys_hist sys) q (used_pending q @ (dev_taken sys @ avail_since q (dev_seen sys)))"
    using assms(1,4) by (simp_all add: gpio_inv_def outstanding_def)
  obtain s h q' where r: "virtq_callback env (sys_state sys) (sys_hist sys) = Some (ENOENT, s, h)"
      "collected (sys_state sys) (sys_hist sys) q (used_pending q) s h q'"
      "in_flight s h q' (dev_taken sys @ avail_since q (dev_seen sys))"
    using virtq_callback_from_run [OF q(1,2) assms(4,2,3) q(3)] unfolding virtq_callback_eq
    by (metis length_replicate)
  have "outstanding (put_state sys s h) q' = dev_taken sys @ avail_since q (dev_seen sys)"
    using r(2) by (simp add: outstanding_def collected_def put_state_def)
  then have "gpio_inv (put_state sys s h)"
    using r(2,3) q(2) by (simp add: gpio_inv_def put_state_def collected_def)
  then show ?thesis using r(1,2) by blast
qed

lemma gpio_inv_return:
  assumes inv: "gpio_inv sys"
    and wait: "sem_wait_others env (\<lambda>s h. Some (s, h)) c (sys_state sys) (sys_hist sys) = Some (0, s1, h1)"
    and fin: "gpio_end env 0 c out s1 h1 = Some (rc, out', s, h)"
  shows "gpio_inv (put_state sys s h)"
proof -
  let ?s = "sys_state sys" and ?h = "sys_hist sys"
  obtain q where q: "gs_vq ?s = Some q" "virtq_inv q" "unat (vq_num q) dvd 65536"
      "in_flight ?s ?h q (outstanding sys q)"
    using inv by (auto simp: gpio_inv_def split: option.splits)
  obtain ctx where ctx: "gs_ctx ?s c = Some ctx" "ctx_sem (ctx_header ctx) \<noteq> 0"
    and s1: "s1 = ?s\<lparr> gs_ctx := (gs_ctx ?s)(c \<mapsto> map_header (\<lambda>x. x\<lparr> ctx_sem := ctx_sem x - 1 \<rparr>) ctx) \<rparr>"
      "live h1 = live ?h"
    using wait by (auto simp: sem_wait_others_def bind_eq_Some_conv split: if_splits)
  have s: "gs_vq s = Some q" "gs_mem s = gs_mem ?s" "gs_ctx s = (gs_ctx ?s)(c := None)" "live h = live ?h"
    using fin s1 q(1)
    by (auto simp: gpio_end_def gpio_deinit_def virtio_gpio_context_deinit_def gpio_leave_def bind_eq_Some_conv
        split: option.splits gpio_context.splits)
  have "context_of q k \<noteq> c" if "k \<in> set (outstanding sys q)" for k
    using in_flight_ok [OF q(4) that] ctx by (auto simp: request_ok_def Let_def)
  then have "in_flight s h q (outstanding sys q)"
    by (intro in_flight_cong [OF q(4)]) (use s in \<open>simp_all add: request_type_def\<close>)
  then show ?thesis
    using q s by (simp add: gpio_inv_def put_state_def outstanding_def)
qed

lemma gpio_inv_step:
  assumes "gpio_step env dev sys sys'" and "platform_ok env dev" and "gpio_inv sys"
  shows "gpio_inv sys'"
  using assms(1)
proof (elim gpio_stepE, goal_cases)
  case (1 c type gpio val b rc s h)
  then show ?case
    using gpio_inv_call [OF assms(3,2), of c type gpio val] by auto
next
  case (2 c s1 h1 out rc out' s h)
  then show ?case using gpio_inv_return [OF assms(3)] by blast
next
  case (3 rc s h)
  obtain q where "gs_vq (sys_state sys) = Some q"
    using assms(3) by (auto simp: gpio_inv_def split: option.splits)
  with 3 virtq_callback_run [OF assms(3) _ _ this, of env] assms(2) show ?case
    by (auto simp: platform_ok_def)
qed (use assms(3) gpio_inv_take gpio_inv_answer in blast)+

abbreviation gpio_run :: "env \<Rightarrow> 'p virtio_gpio_device \<Rightarrow> gpio_sys \<Rightarrow> gpio_sys \<Rightarrow> bool" where
  "gpio_run env dev \<equiv> (gpio_step env dev)\<^sup>*\<^sup>*"

lemma gpio_inv_run: "gpio_run env dev sys sys' \<Longrightarrow> platform_ok env dev \<Longrightarrow> gpio_inv sys \<Longrightarrow> gpio_inv sys'"
  by (induction rule: rtranclp_induct) (auto intro: gpio_inv_step)

text \<open>
  The invariant of the running driver. Whatever the clients, the device and the interrupt
  thread did since the queue was new, in any interleaving: the descriptors in use are exactly the two of
  every request in flight, each such request is a well-formed chain with its own two live
  buffers, and its context exists, belongs to it alone and has not been posted. With nothing in
  flight every descriptor is free again.
\<close>

theorem gpio_reachable_inv:
  assumes "gpio_start sys0" and "platform_ok env dev" and "gpio_run env dev sys0 sys"
  shows "\<exists>q. gs_vq (sys_state sys) = Some q \<and> virtq_inv q \<and>
           in_flight (sys_state sys) (sys_hist sys) q (outstanding sys q) \<and>
           (outstanding sys q = [] \<longrightarrow> allocated q = {})"
proof -
  have "gpio_inv sys" using gpio_inv_run [OF assms(3,2) gpio_start_inv [OF assms(1)]] .
  then show ?thesis by (auto simp: gpio_inv_def in_flight_def split: option.splits)
qed

text \<open>
  The interrupt callback is safe and complete. In every reachable state it returns, with
  \<open>ENOENT\<close>: it reads no buffer that was unmapped and no context that is gone. It collects every
  answered request: each one's context gets the two bytes of its response and one post, its
  descriptors are freed, and no other context is touched.
\<close>

theorem gpio_callback_safe:
  assumes "gpio_start sys0" and "platform_ok env dev" and "gpio_run env dev sys0 sys"
  shows "\<exists>q s h q'. gs_vq (sys_state sys) = Some q \<and>
           virtq_callback env (sys_state sys) (sys_hist sys) = Some (ENOENT, s, h) \<and>
           collected (sys_state sys) (sys_hist sys) q (used_pending q) s h q'"
proof -
  have inv: "gpio_inv sys" using gpio_inv_run [OF assms(3,2) gpio_start_inv [OF assms(1)]] .
  then obtain q where "gs_vq (sys_state sys) = Some q" by (auto simp: gpio_inv_def split: option.splits)
  with virtq_callback_run [OF inv _ _ this, of env] assms(2) show ?thesis
    by (auto simp: platform_ok_def)
qed

text \<open>
  A client can always start. In every reachable state each of the four client calls gets as
  far as its wait, or returns an error, without an access out of bounds, and leaves every lock as
  it was; after an error no descriptor, mapping or context of it is left.
\<close>

theorem gpio_call_progress:
  assumes "gpio_start sys0" and "platform_ok env dev" and "gpio_run env dev sys0 sys"
    and "c \<noteq> 0" and "gs_ctx (sys_state sys) c = None" and "type \<in> client_types"
  shows "\<exists>q b rc s h q'. gs_vq (sys_state sys) = Some q \<and> gs_vq s = Some q' \<and>
           gpio_begin env dev type gpio val c (sys_state sys) (sys_hist sys) = Some (b, rc, s, h) \<and>
           (\<forall>l. held l h = held l (sys_hist sys)) \<and>
           (\<not> b \<longrightarrow> rc \<noteq> EOK \<and> allocated q' = allocated q \<and> live h = live (sys_hist sys) \<and>
                gs_ctx s = gs_ctx (sys_state sys))"
proof -
  have inv: "gpio_inv sys" using gpio_inv_run [OF assms(3,2) gpio_start_inv [OF assms(1)]] .
  then obtain q where q: "gs_vq (sys_state sys) = Some q" "virtq_inv q"
    by (auto simp: gpio_inv_def split: option.splits)
  have e: "locks_ok env" "errnos_ok env" "unmaps_ok env" "mmap_fresh env" "notifies env (gd_dev dev)"
    using assms(2) by (simp_all add: platform_ok_def)
  obtain b rc s q' h where r: "gpio_begin env dev type gpio val c (sys_state sys) (sys_hist sys) = Some (b, rc, s, h)"
      "gs_vq s = Some q'" "\<forall>l. held l h = held l (sys_hist sys)"
      "if b then rc = EOK \<and> (\<exists>v. gs_ctx s = (gs_ctx (sys_state sys))(c \<mapsto> Context fresh_header v)) \<and>
         (\<exists>i j. request_sent q (gs_mem (sys_state sys)) (sys_hist sys) q' (gs_mem s) h i j c (request_bytes type gpio val))
       else rc \<noteq> EOK \<and> gs_ctx s = gs_ctx (sys_state sys) \<and> gs_mem s = gs_mem (sys_state sys) \<and>
         request_undone q (sys_hist sys) q' h"
    using gpio_begin_run [OF q e assms(4,5) client_typesD [OF assms(6)], of gpio val "sys_hist sys"] by metis
  then show ?thesis
    using q(1) by (intro exI [of _ q] exI [of _ b] exI [of _ rc] exI [of _ s] exI [of _ h] exI [of _ q'])
      (auto simp: request_undone_def)
qed

section \<open>A whole call\<close>

text \<open>
  What happens while a client waits for a device that answers at once: the device writes \<open>status\<close>
  and \<open>val\<close> to the response of the newest head in the available ring, and the interrupt thread
  runs its callback.
\<close>

definition serve :: "env \<Rightarrow> u8 \<Rightarrow> u8 \<Rightarrow> gpio_state others" where
  "serve env status val s h = do {
     q \<leftarrow> gs_vq s;
     i \<leftarrow> arr_get (vq_avail_ring q) (unat (vq_avail_idx q - 1) mod unat (vq_num q));
     s \<leftarrow> store_bytes s h (vaddr_of q (next_of q i)) 0 [status, val];
     (_, s, h) \<leftarrow> virtq_callback env (s\<lparr> gs_vq := Some (used_add q i) \<rparr>) h;
     Some (s, h)
   }"

lemma in_flight_store:
  assumes fl: "in_flight s h q hs" and i: "i \<in> set hs"
    and st: "store_bytes s h (vaddr_of q (next_of q i)) 0 bs = Some s'"
  shows "in_flight s' h q hs"
proof (rule in_flight_cong [OF fl])
  have s': "gs_ctx s' = gs_ctx s" "\<And>a. a \<noteq> vaddr_of q (next_of q i) \<Longrightarrow> gs_mem s' a = gs_mem s a"
    using st by (auto simp: store_bytes_def split: if_splits)
  have "vaddr_of q k \<noteq> vaddr_of q (next_of q i)" if "k \<in> set hs" for k
  proof -
    have m: "vaddr_of q k \<in> vaddr_of q ` set hs"
        "vaddr_of q (next_of q i) \<in> vaddr_of q ` set (map (next_of q) hs)"
      using that i by auto
    have "distinct (map (vaddr_of q) hs @ map (vaddr_of q) (map (next_of q) hs))"
      using fl by (simp add: in_flight_def Let_def)
    then show ?thesis using m unfolding distinct_append set_map by (metis disjoint_iff)
  qed
  then show "\<forall>k \<in> set hs. request_type s' (vaddr_of q k) = request_type s (vaddr_of q k)"
    using s'(2) by (simp add: request_type_def)
  show "\<forall>k \<in> set hs. gs_ctx s' (context_of q k) = gs_ctx s (context_of q k)" using s'(1) by simp
qed simp_all

lemma gpio_begin_published:
  assumes inv: "gpio_inv sys" and env: "platform_ok env dev" and c: "c \<noteq> 0" "gs_ctx (sys_state sys) c = None"
    and ty: "type \<in> client_types"
    and b: "gpio_begin env dev type gpio val c (sys_state sys) (sys_hist sys) = Some (True, rc, s, h)"
    and vq: "gs_vq (sys_state sys) = Some q"
  shows "\<exists>q' i v0. gs_vq s = Some q' \<and> virtq_inv q' \<and> unat (vq_num q') dvd 65536 \<and> rc = EOK \<and>
      gs_ctx s c = Some (Context fresh_header v0) \<and> context_of q' i = c \<and> used_pending q' = used_pending q \<and>
      arr_get (vq_avail_ring q') (unat (vq_avail_idx q' - 1) mod unat (vq_num q')) = Some i \<and>
      in_flight s h q' (outstanding sys q @ [i])"
proof -
  let ?s = "sys_state sys" and ?h = "sys_hist sys"
  have q: "gs_vq ?s = Some q" "virtq_inv q" "unat (vq_num q) dvd 65536"
      "in_flight ?s ?h q (outstanding sys q)"
    using inv vq by (auto simp: gpio_inv_def split: option.splits)
  have e: "locks_ok env" "errnos_ok env" "unmaps_ok env" "mmap_fresh env" "notifies env (gd_dev dev)"
    using env by (simp_all add: platform_ok_def)
  obtain q' where q': "gs_vq s = Some q'" "virtq_inv q'" "rc = EOK"
      "\<exists>v. gs_ctx s = (gs_ctx ?s)(c \<mapsto> Context fresh_header v)"
      "\<exists>i j. request_sent q (gs_mem ?s) ?h q' (gs_mem s) h i j c (request_bytes type gpio val)"
    using gpio_begin_run [OF q(1,2) e c client_typesD [OF ty], of gpio val ?h] b by auto
  then obtain v0 i j where ctx: "gs_ctx s = (gs_ctx ?s)(c \<mapsto> Context fresh_header v0)"
      and sent: "request_sent q (gs_mem ?s) ?h q' (gs_mem s) h i j c (request_bytes type gpio val)" by blast
  have i: "i \<notin> allocated q" "i < vq_num q" "context_of q' i = c" using sent by (simp_all add: request_sent_def)
  have "length (outstanding sys q) < unat (vq_num q)" using in_flight_room(2) [OF q(2,4) i(1,2)] .
  then have "length (avail_since q (dev_seen sys)) < unat (vq_num q)" by (simp add: outstanding_def)
  note av = request_sent_rings(3) [OF sent q(2,3) this]
  have "arr_get (vq_avail_ring q') (unat (vq_avail_idx q' - 1) mod unat (vq_num q')) = Some i"
    using sent q(2) by (simp add: arr_get_def request_sent_def virtq_inv_def unat_gt_0)
  moreover have "outstanding (put_state sys s h) q' = outstanding sys q @ [i]"
    using av request_sent_rings(1) [OF sent] by (simp add: outstanding_def put_state_def)
  then have "in_flight s h q' (outstanding sys q @ [i])"
    using gpio_inv_call [OF inv env c ty, of gpio val] b q'(1) by (simp add: gpio_inv_def put_state_def)
  moreover have "unat (vq_num q') dvd 65536" using q(3) request_sent_rings(2) [OF sent] by simp
  ultimately show ?thesis using q'(1-3) i(3) ctx request_sent_rings(1) [OF sent] by auto
qed

text \<open>A head that is answered and collected at once.\<close>

lemma answer_collect:
  assumes inv: "gs_vq s = Some q" "virtq_inv q" "unat (vq_num q) dvd 65536" and env: "locks_ok env" "unmaps_ok env"
    and fl: "in_flight s h q (used_pending q @ rest @ [i])"
  shows "\<exists>s1 s' h' q'. store_bytes s h (vaddr_of q (next_of q i)) 0 [st, v] = Some s1 \<and>
      virtq_callback env (s1\<lparr> gs_vq := Some (used_add q i) \<rparr>) h = Some (ENOENT, s', h') \<and>
      gs_vq s' = Some q' \<and> virtq_inv q' \<and> unat (vq_num q') dvd 65536 \<and> used_pending q' = [] \<and>
      in_flight s' h' q' rest \<and>
      (\<exists>hdr u. gs_ctx s (context_of q i) = Some (Context hdr u) \<and>
         gs_ctx s' (context_of q i) = Some (Context (hdr\<lparr> ctx_status := st, ctx_sem := 1 \<rparr>) v))"
proof -
  let ?q = "used_add q i"
  have "mapped h (vaddr_of q (next_of q i)) 2"
    using in_flight_ok [OF fl, of i] by (auto simp: request_ok_def Let_def intro: mapped_in)
  then obtain s1 where st: "store_bytes s h (vaddr_of q (next_of q i)) 0 [st, v] = Some s1"
      "gs_mem s1 (vaddr_of q (next_of q i)) 0 = st" "gs_mem s1 (vaddr_of q (next_of q i)) 1 = v"
      "gs_ctx s1 = gs_ctx s"
    by (simp add: store_bytes_def numeral_2_eq_2)
  let ?s = "s1\<lparr> gs_vq := Some ?q \<rparr>"
  have room: "length (used_pending q) < unat (vq_num q)" using in_flight_room(1) [OF inv(2) fl] by simp
  have up: "used_pending ?q = used_pending q @ [i]" using used_pending_add [OF inv(2,3) room] .
  have "in_flight ?s h ?q (used_pending ?q @ rest) = in_flight ?s h ?q (used_pending q @ rest @ [i])"
    by (rule in_flight_perm) (simp add: up)
  moreover have "in_flight s1 h q (used_pending q @ rest @ [i])" using in_flight_store [OF fl _ st(1)] by simp
  ultimately have fl1: "in_flight ?s h ?q (used_pending ?q @ rest)"
    using in_flight_queue [of ?q q s1 h "used_pending q @ rest @ [i]"]
    by (simp add: in_flight_def request_ok_def request_type_def)
  have inv1: "virtq_inv ?q" "unat (vq_num ?q) dvd 65536" "gs_vq ?s = Some ?q"
    using inv by (simp_all add: used_add_inv)
  obtain s' h' q' where r: "virtq_callback env ?s h = Some (ENOENT, s', h')"
      "collected ?s h ?q (used_pending ?q) s' h' q'" "in_flight s' h' q' rest"
    using virtq_callback_from_run [OF inv1 env fl1] unfolding virtq_callback_eq by (metis length_replicate)
  have "i \<in> set (used_pending ?q)" by (simp add: up)
  then have "\<exists>hdr u. gs_ctx ?s (context_of ?q i) = Some (Context hdr u) \<and> ctx_sem hdr = 0 \<and>
      gs_ctx s' (context_of ?q i) = Some (completed (gs_mem ?s (vaddr_of ?q (next_of ?q i))) hdr)"
    using r(2) unfolding collected_def by blast
  then show ?thesis
    using r st inv1(2) by (auto simp: collected_def completed_def)
qed

lemma serve_run:
  assumes inv: "gpio_inv sys" and env: "platform_ok env dev" and c: "c \<noteq> 0" "gs_ctx (sys_state sys) c = None"
    and ty: "type \<in> client_types"
    and b: "gpio_begin env dev type gpio val c (sys_state sys) (sys_hist sys) = Some (True, rc, s, h)"
  shows "\<exists>s' h' hdr. serve env st v s h = Some (s', h') \<and> gs_ctx s' c = Some (Context hdr v) \<and>
           ctx_status hdr = st \<and> ctx_sem hdr = 1 \<and> rc = EOK \<and>
           (\<exists>seen taken. gpio_inv ((put_state sys s' h')\<lparr> dev_seen := seen, dev_taken := taken \<rparr>))"
proof -
  obtain q0 where q0: "gs_vq (sys_state sys) = Some q0" using inv by (auto simp: gpio_inv_def split: option.splits)
  let ?rest = "dev_taken sys @ avail_since q0 (dev_seen sys)"
  obtain q i v0 where q: "gs_vq s = Some q" "virtq_inv q" "unat (vq_num q) dvd 65536" "rc = EOK"
      "gs_ctx s c = Some (Context fresh_header v0)" "context_of q i = c"
      "arr_get (vq_avail_ring q) (unat (vq_avail_idx q - 1) mod unat (vq_num q)) = Some i"
      "in_flight s h q (used_pending q @ ?rest @ [i])"
    using gpio_begin_published [OF assms q0] unfolding outstanding_def append_assoc by metis
  have e: "locks_ok env" "unmaps_ok env" using env by (simp_all add: platform_ok_def)
  from answer_collect [OF q(1-3) e q(8), of st v]
  obtain s1 s' h' q' where r: "store_bytes s h (vaddr_of q (next_of q i)) 0 [st, v] = Some s1"
      "virtq_callback env (s1\<lparr> gs_vq := Some (used_add q i) \<rparr>) h = Some (ENOENT, s', h')"
      "gs_vq s' = Some q'" "virtq_inv q'" "unat (vq_num q') dvd 65536" "used_pending q' = []" "in_flight s' h' q' ?rest"
      "gs_ctx s' c = Some (Context (fresh_header\<lparr> ctx_status := st, ctx_sem := 1 \<rparr>) v)"
    using q(5,6) by auto
  have "serve env st v s h = Some (s', h')"
    using q(1,7) r(1,2) by (simp add: serve_def arr_get_def split: if_splits)
  moreover have "gpio_inv ((put_state sys s' h')\<lparr> dev_seen := vq_avail_idx q', dev_taken := ?rest \<rparr>)"
    using r(3-7) by (simp add: gpio_inv_def put_state_def outstanding_def avail_since_def)
  ultimately show ?thesis using r(8) q(4) by (intro exI [of _ s'] exI [of _ h']) auto
qed


definition answer_of :: "u8 \<Rightarrow> rc" where
  "answer_of st = (if st = VIRTIO_GPIO_STATUS_OK then EOK else EIO)"

definition sends :: "env \<Rightarrow> 'p virtio_gpio_device \<Rightarrow> u16 \<Rightarrow> u16 \<Rightarrow> u16 \<Rightarrow> ptr \<Rightarrow> gpio_sys \<Rightarrow> bool" where
  "sends env dev type gpio val c sys \<longleftrightarrow>
     (case gpio_begin env dev type gpio val c (sys_state sys) (sys_hist sys) of
        None \<Rightarrow> False | Some (b, _, _, _) \<Rightarrow> b)"

definition settled :: "ptr \<Rightarrow> gpio_sys \<Rightarrow> gpio_state \<Rightarrow> hist \<Rightarrow> bool" where
  "settled c sys s h \<longleftrightarrow>
     gs_ctx s c = None \<and> (\<exists>seen taken. gpio_inv ((put_state sys s h)\<lparr> dev_seen := seen, dev_taken := taken \<rparr>))"

lemma put_state_dev:
  "put_state ((put_state sys s1 h1)\<lparr> dev_seen := a, dev_taken := b \<rparr>) s h =
   (put_state sys s h)\<lparr> dev_seen := a, dev_taken := b \<rparr>"
  by (cases sys) (simp add: put_state_def)

lemma gpio_call_served:
  assumes "gpio_inv sys" and "platform_ok env dev" and "c \<noteq> 0" "gs_ctx (sys_state sys) c = None"
    and "type \<in> client_types" and "\<And>h. env_sem_wait env h c = 0" and "sends env dev type gpio val c sys"
    and "out = None \<and> out' = None \<or> out = Some (Some x) \<and> out' = Some (Some v)"
  shows "\<exists>s h. gpio_call env (serve env st v) dev type gpio val out c (sys_state sys) (sys_hist sys) =
           Some (answer_of st, out', s, h) \<and> settled c sys s h"
proof -
  obtain rc s h where b: "gpio_begin env dev type gpio val c (sys_state sys) (sys_hist sys) = Some (True, rc, s, h)"
    using assms(7) by (auto simp: sends_def split: option.splits)
  obtain s1 h1 hdr seen taken where sv: "serve env st v s h = Some (s1, h1)" "gs_ctx s1 c = Some (Context hdr v)"
      "ctx_status hdr = st" "ctx_sem hdr = 1"
    and inv: "gpio_inv ((put_state sys s1 h1)\<lparr> dev_seen := seen, dev_taken := taken \<rparr>)"
    using serve_run [OF assms(1-5) b, of st v] by blast
  let ?s2 = "s1\<lparr> gs_ctx := (gs_ctx s1)(c \<mapsto> Context (hdr\<lparr> ctx_sem := 0 \<rparr>) v) \<rparr>" and ?h2 = "SemWait c 0 # h1"
  have wait: "virtio_gpio_context_wait env (serve env st v) c s h = Some (0, ?s2, ?h2)"
    using sv assms(6) by (subst virtio_gpio_context_wait.simps) (simp add: sem_wait_others_def)
  let ?s3 = "gpio_leave c ?s2" and ?h3 = "SemDestroy c (env_sem_destroy env ?h2 c) # ?h2"
  have fin: "gpio_end env 0 c out ?s2 ?h2 = Some (answer_of st, out', ?s3, ?h3)"
    using sv(3) assms(8)
    by (auto simp: gpio_end_def gpio_deinit_def virtio_gpio_context_deinit_def answer_of_def Let_def)
  let ?sys = "(put_state sys s1 h1)\<lparr> dev_seen := seen, dev_taken := taken \<rparr>"
  have "sem_wait_others env (\<lambda>s h. Some (s, h)) c (sys_state ?sys) (sys_hist ?sys) = Some (0, ?s2, ?h2)"
    using sv assms(6) by (simp add: sem_wait_others_def put_state_def)
  from gpio_inv_return [OF inv this fin] have "settled c sys ?s3 ?h3"
    unfolding put_state_dev settled_def by (auto simp: gpio_leave_def)
  moreover have "gpio_call env (serve env st v) dev type gpio val out c (sys_state sys) (sys_hist sys) =
      Some (answer_of st, out', ?s3, ?h3)"
    using b wait fin by (simp add: gpio_call_def)
  ultimately show ?thesis by blast
qed

text \<open>
  C11: the client gets the device's answer. From any state of the running driver: if the call gets
  its request out and the device answers it with status \<open>st\<close> and value \<open>v\<close>, the function returns.
  The result is \<open>EOK\<close> exactly for status 0 and \<open>EIO\<close> otherwise, the reading functions store exactly
  \<open>v\<close>, the context is gone, and the invariant holds again. This is for each of the four functions.
\<close>

theorem gpio_client_gets_answer:
  assumes "gpio_start sys0" and "platform_ok env dev" and "gpio_run env dev sys0 sys"
    and "c \<noteq> 0" and "gs_ctx (sys_state sys) c = None" and "\<And>h. env_sem_wait env h c = 0"
  shows "(sends env dev VIRTIO_GPIO_MSG_GET_VALUE gpio 0 c sys \<longrightarrow>
      (\<exists>s h. virtio_gpio_get_value env (serve env st v) dev gpio (Some x) c (sys_state sys) (sys_hist sys) =
         Some (answer_of st, Some v, s, h) \<and> settled c sys s h)) \<and>
    (sends env dev VIRTIO_GPIO_MSG_GET_DIRECTION gpio 0 c sys \<longrightarrow>
      (\<exists>s h. virtio_gpio_get_direction env (serve env st v) dev gpio (Some x) c (sys_state sys) (sys_hist sys) =
         Some (answer_of st, Some v, s, h) \<and> settled c sys s h)) \<and>
    (sends env dev VIRTIO_GPIO_MSG_SET_VALUE gpio (ucast w) c sys \<longrightarrow>
      (\<exists>s h. virtio_gpio_set_value env (serve env st v) dev gpio w c (sys_state sys) (sys_hist sys) =
         Some (answer_of st, s, h) \<and> settled c sys s h)) \<and>
    (sends env dev VIRTIO_GPIO_MSG_SET_DIRECTION gpio (ucast w) c sys \<longrightarrow>
      (\<exists>s h. virtio_gpio_set_direction env (serve env st v) dev gpio w c (sys_state sys) (sys_hist sys) =
         Some (answer_of st, s, h) \<and> settled c sys s h))"
proof -
  have inv: "gpio_inv sys" using gpio_inv_run [OF assms(3,2) gpio_start_inv [OF assms(1)]] .
  note call = gpio_call_served [OF inv assms(2,4,5) _ assms(6)]
  have ty: "VIRTIO_GPIO_MSG_GET_VALUE \<in> client_types" "VIRTIO_GPIO_MSG_GET_DIRECTION \<in> client_types"
      "VIRTIO_GPIO_MSG_SET_VALUE \<in> client_types" "VIRTIO_GPIO_MSG_SET_DIRECTION \<in> client_types"
    by (simp_all add: client_types_def)
  show ?thesis
    using call [OF ty(1), of gpio 0 "Some (Some x)" "Some (Some v)" x v st]
      call [OF ty(2), of gpio 0 "Some (Some x)" "Some (Some v)" x v st]
      call [OF ty(3), of gpio "ucast w" None None x v st] call [OF ty(4), of gpio "ucast w" None None x v st]
    by (auto simp: virtio_gpio_get_value_def virtio_gpio_get_direction_def virtio_gpio_set_value_def
        virtio_gpio_set_direction_def)
qed

section \<open>A wait that fails\<close>

text \<open>The device answers a request whose context is gone: the callback follows the stale pointer.\<close>

lemma orphan_answer:
  assumes inv: "gs_vq s = Some q" "virtq_inv q" "unat (vq_num q) dvd 65536" and env: "locks_ok env"
    and head: "arr_get (vq_avail_ring q) (unat (vq_avail_idx q - 1) mod unat (vq_num q)) = Some i"
      "chain (vq_desc q) [i, next_of q i]" "i \<in> allocated q" "next_of q i \<in> allocated q"
      "(vaddr_of q (next_of q i), 2) \<in># live h"
    and up: "used_pending q = []" and ctx: "gs_ctx s (context_of q i) = None"
  shows "serve env st v s h = None"
proof -
  let ?j = "next_of q i" and ?q = "used_add q i" and ?idxs = "replicate 2 (ucast (env_uninit env h)) :: u16 list"
  have lt: "i < vq_num q" "?j < vq_num q" using head(3,4) by (simp_all add: allocated_def)
  obtain s1 where st: "store_bytes s h (vaddr_of q ?j) 0 [st, v] = Some s1" "gs_ctx s1 = gs_ctx s"
  proof -
    have "mapped h (vaddr_of q ?j) 2" using mapped_in [OF head(5)] by simp
    then show ?thesis using that by (simp add: store_bytes_def numeral_2_eq_2)
  qed
  have "unat (vq_num q) > 0" using inv(2) by (simp add: virtq_inv_def unat_gt_0)
  then have up1: "used_pending ?q = i # []" using used_pending_add [OF inv(2,3)] up by simp
  have "virtq_inv ?q" "env_spin_lock env h (VirtqLock (vq_self ?q)) = EOK" "chain (vq_desc ?q) [i, ?j]"
    using inv(2) env head(2) by (simp_all add: used_add_inv del: chain.simps)
  from virtq_get_oldest_run [OF this(1,2) up1 this(3), of 2 ?idxs]
  obtain h1 where g: "virtq_get_desc_chain env (Some ?q) (Some 2) (Some ?idxs) h =
      Some (EOK, Some (?q\<lparr> vq_last_seen_used := vq_last_seen_used ?q + 1 \<rparr>), Some 2, Some [i, ?j], h1)"
    by auto
  let ?q1 = "?q\<lparr> vq_last_seen_used := vq_last_seen_used ?q + 1 \<rparr>"
  have inv1: "virtq_inv ?q1" using inv(2) by (simp add: used_add_inv)
  have "virtq_callback_body env [i, ?j] (s1\<lparr> gs_vq := Some ?q1 \<rparr>) h1 = None"
    using lt ctx st(2) virtq_get_desc_vaddr_run [OF inv1] virtq_get_desc_context_run [OF inv1]
    by (simp add: virtq_callback_body_def pointer_of_def)
  then have "virtq_callback env (s1\<lparr> gs_vq := Some ?q \<rparr>) h = None"
    using g by (simp add: virtq_callback_eq virtq_callback_from_def virtq_callback_get_def
        virtq_callback_loop.simps [of _ 0] numeral_2_eq_2)
  then show ?thesis using inv(1) head(1) st(1) by (simp add: serve_def)
qed

text \<open>
  C39: when \<open>sem_wait\<close> reports an error other than \<open>EINTR\<close>, as it does by -1 with \<open>errno\<close> set, the
  function destroys its context and returns the error, but the request stays with the device.
  If the device answers it after that, the interrupt callback follows the cookie to the context
  that no longer exists: it has no outcome.
\<close>

theorem gpio_failed_wait_dangles:
  assumes "gpio_start sys0" and "platform_ok env dev" and "gpio_run env dev sys0 sys"
    and "gs_vq (sys_state sys) = Some q" and "outstanding sys q = []"
    and "c \<noteq> 0" and "gs_ctx (sys_state sys) c = None" and "\<And>h. env_sem_wait env h c = e" "e \<noteq> 0" "e \<noteq> EINTR"
    and "sends env dev VIRTIO_GPIO_MSG_GET_VALUE gpio 0 c sys"
  shows "\<exists>s h. virtio_gpio_get_value env (\<lambda>s h. Some (s, h)) dev gpio (Some x) c (sys_state sys) (sys_hist sys) =
             Some (e, Some x, s, h) \<and> gs_ctx s c = None \<and> serve env st v s h = None"
proof -
  have inv: "gpio_inv sys" using gpio_inv_run [OF assms(3,2) gpio_start_inv [OF assms(1)]] .
  obtain rc s h where b: "gpio_begin env dev VIRTIO_GPIO_MSG_GET_VALUE gpio 0 c (sys_state sys) (sys_hist sys) = Some (True, rc, s, h)"
    using assms(11) by (auto simp: sends_def split: option.splits)
  have "VIRTIO_GPIO_MSG_GET_VALUE \<in> client_types" by (simp add: client_types_def)
  from gpio_begin_published [OF inv assms(2,6,7) this b assms(4)] obtain q' i v0 where q':
      "gs_vq s = Some q'" "virtq_inv q'" "unat (vq_num q') dvd 65536" "rc = EOK" "gs_ctx s c = Some (Context fresh_header v0)"
      "context_of q' i = c" "used_pending q' = []"
      "arr_get (vq_avail_ring q') (unat (vq_avail_idx q' - 1) mod unat (vq_num q')) = Some i" "in_flight s h q' [i]"
    using assms(5) by (auto simp: outstanding_def)
  let ?h = "SemDestroy c (env_sem_destroy env (SemWait c e # h) c) # SemWait c e # h"
  have "virtio_gpio_context_wait env (\<lambda>s h. Some (s, h)) c s h = Some (e, s, SemWait c e # h)"
    using q'(5) assms(8-10) by (subst virtio_gpio_context_wait.simps) (simp add: sem_wait_others_def)
  then have "virtio_gpio_get_value env (\<lambda>s h. Some (s, h)) dev gpio (Some x) c (sys_state sys) (sys_hist sys) =
      Some (e, Some x, gpio_leave c s, ?h)"
    using b assms(9)
    by (simp add: virtio_gpio_get_value_def gpio_call_def gpio_end_def gpio_deinit_def virtio_gpio_context_deinit_def)
  moreover have "serve env st v (gpio_leave c s) ?h = None"
    by (rule orphan_answer [OF _ q'(2,3) _ q'(8)])
      (use q' assms(2) in_flight_ok [OF q'(9), of i] in_flight_allocated [OF q'(9), of i] in
        \<open>simp_all add: gpio_leave_def platform_ok_def request_ok_def Let_def\<close>)
  ultimately show ?thesis by (auto simp: gpio_leave_def)
qed

section \<open>A system to instantiate the properties\<close>

definition gpio_example_queue :: virtq where
  "gpio_example_queue = virtq_example\<lparr>
     vq_used_idx := 65535, vq_last_seen_used := 65535,
     vq_free_descs := Some \<lparr> fifo_self = 4096, fifo_head = 0, fifo_tail = 0, fifo_count = 4,
       fifo_capacity = 4, fifo_elem_size = 2, fifo_data = [0, 0, 1, 0, 2, 0, 3, 0] \<rparr> \<rparr>"

definition gpio_example_vdev :: "(virtio_mmio_device, gpio_state) virtio_device" where
  "gpio_example_vdev = \<lparr> vd_base = vd_base mmio_example, vd_ops = Some virtio_mmio_ops \<rparr>"

definition gpio_example_dev :: "virtio_mmio_device virtio_gpio_device" where
  "gpio_example_dev = \<lparr> gd_self = 0x6000, gd_dev = gpio_example_vdev, gd_idx = 0,
     gd_config = \<lparr> cfg_ngpio = 8, cfg_padding = 0, cfg_gpio_names_size = 0 \<rparr>, gd_priv = 0 \<rparr>"

definition gpio_example :: gpio_sys where
  "gpio_example = \<lparr> sys_state = \<lparr> gs_vq = Some gpio_example_queue, gs_mem = (\<lambda>a k. 0), gs_ctx = (\<lambda>c. None) \<rparr>,
     sys_hist = [], dev_seen = 65535, dev_taken = [] \<rparr>"

lemma free_list_gpio_example: "free_list gpio_example_queue = [0, 1, 2, 3]"
  by code_simp

lemma virtq_inv_gpio_example: "virtq_inv gpio_example_queue"
  using free_list_gpio_example
  by (simp add: virtq_inv_def gpio_example_queue_def virtq_example_def free_list_def fifo_inv16_def
      fifo_inv_def fifo_cap_def fifo_width_def)

lemma gpio_example_start: "gpio_start gpio_example"
proof -
  have "i = 0 \<or> i = 1 \<or> i = 2 \<or> i = 3" if "i < (4::u16)" for i
  proof -
    have "unat i < 4" using that by (simp add: word_less_nat_alt)
    then consider "unat i = 0" | "unat i = 1" | "unat i = 2" | "unat i = 3" by linarith
    then show ?thesis by cases (simp_all add: word_unat_eq_iff)
  qed
  moreover have "vq_num gpio_example_queue = 4"
    by (simp add: gpio_example_queue_def virtq_example_def)
  ultimately have "allocated gpio_example_queue = {}"
    by (auto simp: allocated_def free_list_gpio_example)
  then show ?thesis
    using virtq_inv_gpio_example
    by (simp add: gpio_start_def gpio_example_def gpio_example_queue_def virtq_example_def)
qed

text \<open>A call gets its request out when the semaphore and both buffers can be had.\<close>

definition buffers_ok :: "env \<Rightarrow> virtq \<Rightarrow> hist \<Rightarrow> bool" where
  "buffers_ok env q h \<longleftrightarrow>
     (case virtq_alloc_desc env (Some q) 8 False (Some (ucast (env_uninit env h))) h of
        None \<Rightarrow> False
      | Some (rc, q1, _, h1) \<Rightarrow>
          rc = EOK \<and>
          (case virtq_alloc_desc env q1 2 True (Some (ucast (env_uninit env h1))) h1 of
             None \<Rightarrow> False | Some (rc, _, _, _) \<Rightarrow> rc = EOK))"

lemma sends_if_buffers:
  assumes q: "gs_vq (sys_state sys) = Some q" "virtq_inv q" and env: "platform_ok env dev"
    and c: "c \<noteq> 0" and ty: "type \<in> client_types"
    and sem: "env_sem_init env (sys_hist sys) c = 0" and bufs: "buffers_ok env q (SemInit c 0 # sys_hist sys)"
  shows "sends env dev type gpio val c sys"
proof -
  let ?h = "SemInit c 0 # sys_hist sys"
  have e: "locks_ok env" "errnos_ok env" "unmaps_ok env" "mmap_fresh env" "notifies env (gd_dev dev)"
    using env by (simp_all add: platform_ok_def)
  obtain rc q1 i h1 where a: "virtq_alloc_desc env (Some q) 8 False (Some (ucast (env_uninit env ?h))) ?h = Some (rc, Some q1, Some i, h1)"
      "alloc_result q 8 False ?h rc q1 i h1"
    using virtq_alloc_desc_fresh [OF q(2) e(1-4)] by blast
  have rc: "rc = EOK" using bufs a(1) by (simp add: buffers_ok_def)
  have inv1: "virtq_inv q1" using a(2) by (simp add: alloc_result_def)
  obtain rc2 q2 j h2 where b: "virtq_alloc_desc env (Some q1) 2 True (Some (ucast (env_uninit env h1))) h1 = Some (rc2, Some q2, Some j, h2)"
      "alloc_result q1 2 True h1 rc2 q2 j h2"
    using virtq_alloc_desc_fresh [OF inv1 e(1-4)] by blast
  have rc2: "rc2 = EOK" using bufs a(1) b(1) by (simp add: buffers_ok_def)
  have sz: "ucast (virtio_gpio_response_size dev type) = (2::u32)"
    using client_typesD [OF ty] by (simp add: virtio_gpio_response_size_def)
  let ?s = "gpio_enter env c (sys_state sys) (sys_hist sys)"
  obtain s1 where init: "virtio_gpio_context_init env c ?s (sys_hist sys) = Some (0, s1, ?h)" "gs_vq s1 = Some q"
    using sem q(1) by (simp add: virtio_gpio_context_init_def gpio_enter_def Let_def)
  obtain s2 h3 where "request_tail env dev c (env_uninit env h2) s1 q2 i j type gpio val h2 = Some (EOK, s2, h3)"
    using request_published [OF e(1,5) c a(2) [unfolded rc] b(2) [unfolded rc2]] by blast
  then have "virtio_gpio_request env dev type gpio val c s1 ?h = Some (EOK, s2, h3)"
    using a(1) b(1) rc rc2 init(2) sz by (simp add: virtio_gpio_request_def request_tail_def)
  then show ?thesis
    using init(1) by (simp add: sends_def gpio_begin_def)
qed

lemma platform_ok_example: "platform_ok env_fresh gpio_example_dev"
proof -
  have "notifies env_fresh gpio_example_vdev"
    by (rule mm.notifies_ok) (simp_all add: gpio_example_vdev_def mmio_example_def mmio_ready_def)
  then show ?thesis by (simp add: platform_ok_def gpio_example_dev_def)
qed

lemma sends_example: "sends env_fresh gpio_example_dev VIRTIO_GPIO_MSG_GET_VALUE 3 0 0x7000 gpio_example"
proof (rule sends_if_buffers)
  show "gs_vq (sys_state gpio_example) = Some gpio_example_queue" by (simp add: gpio_example_def)
  show "buffers_ok env_fresh gpio_example_queue (SemInit 0x7000 0 # sys_hist gpio_example)" by code_simp
qed (use virtq_inv_gpio_example platform_ok_example in \<open>simp_all add: client_types_def env_fresh_def\<close>)


lemma gpio_example_sel:
  "gpio_run env_fresh gpio_example_dev gpio_example gpio_example" "gs_ctx (sys_state gpio_example) c = None"
  "gs_vq (sys_state gpio_example) = Some gpio_example_queue"
  "env_sem_wait env_fresh h c = 0"
  by (simp_all add: gpio_example_def env_fresh_def)

theorem gpio_reachable_inv_witness:
  "\<exists>q. gs_vq (sys_state gpio_example) = Some q \<and> virtq_inv q"
  using gpio_reachable_inv [OF gpio_example_start platform_ok_example gpio_example_sel(1)] by blast

theorem gpio_callback_safe_witness:
  "\<exists>s h. virtq_callback env_fresh (sys_state gpio_example) (sys_hist gpio_example) = Some (ENOENT, s, h)"
  using gpio_callback_safe [OF gpio_example_start platform_ok_example gpio_example_sel(1)] by blast

theorem gpio_call_progress_witness:
  "\<exists>b rc s h. gpio_begin env_fresh gpio_example_dev VIRTIO_GPIO_MSG_SET_VALUE 3 1 0x7000
     (sys_state gpio_example) (sys_hist gpio_example) = Some (b, rc, s, h)"
proof -
  have "VIRTIO_GPIO_MSG_SET_VALUE \<in> client_types" "(0x7000::ptr) \<noteq> 0" by (simp_all add: client_types_def)
  from gpio_call_progress [OF gpio_example_start platform_ok_example gpio_example_sel(1) this(2) gpio_example_sel(2) this(1),
      of 3 1] show ?thesis by blast
qed

theorem gpio_client_gets_answer_witness:
  "\<exists>s h. virtio_gpio_get_value env_fresh (serve env_fresh 0 1) gpio_example_dev 3 (Some 0) 0x7000
     (sys_state gpio_example) (sys_hist gpio_example) = Some (EOK, Some 1, s, h) \<and> gs_ctx s 0x7000 = None"
proof -
  have "(0x7000::ptr) \<noteq> 0" by simp
  from gpio_client_gets_answer [OF gpio_example_start platform_ok_example gpio_example_sel(1) this gpio_example_sel(2,4),
      where gpio = 3 and st = 0 and v = 1 and x = 0, THEN conjunct1, THEN mp, OF sends_example]
  show ?thesis unfolding answer_of_def VIRTIO_GPIO_STATUS_OK_def settled_def by auto
qed

text \<open>The same outside, with a wait that is interrupted.\<close>

definition env_interrupted :: env where
  "env_interrupted = env_fresh\<lparr> env_sem_wait := (\<lambda>h c. -1) \<rparr>"

lemma env_interrupted_sel:
  "locks_ok env_interrupted" "errnos_ok env_interrupted" "unmaps_ok env_interrupted" "mmap_fresh env_interrupted"
  "env_sem_wait env_interrupted h c = -1" "env_sem_init env_interrupted h c = 0"
proof -
  have eq: "env_spin_lock env_interrupted = env_spin_lock env_fresh" "env_mmap env_interrupted = env_mmap env_fresh"
      "env_mem_offset env_interrupted = env_mem_offset env_fresh" "env_calloc env_interrupted = env_calloc env_fresh"
      "env_munmap env_interrupted = env_munmap env_fresh" "env_sem_init env_interrupted = env_sem_init env_fresh"
    by (simp_all add: env_interrupted_def)
  show "locks_ok env_interrupted" "errnos_ok env_interrupted" "unmaps_ok env_interrupted" "mmap_fresh env_interrupted"
    using env_fresh_ok unfolding locks_ok_def errnos_ok_def unmaps_ok_def mmap_fresh_def eq by blast+
  show "env_sem_init env_interrupted h c = 0" unfolding eq by (simp add: env_fresh_def)
  show "env_sem_wait env_interrupted h c = -1" by (simp add: env_interrupted_def)
qed

lemma platform_ok_interrupted: "platform_ok env_interrupted gpio_example_dev"
proof -
  have "notifies env_interrupted gpio_example_vdev"
    by (rule mm.notifies_ok)
      (simp_all add: gpio_example_vdev_def mmio_example_def mmio_ready_def env_interrupted_sel)
  then show ?thesis by (simp add: platform_ok_def gpio_example_dev_def env_interrupted_sel)
qed

lemma sends_interrupted: "sends env_interrupted gpio_example_dev VIRTIO_GPIO_MSG_GET_VALUE 3 0 0x7000 gpio_example"
proof (rule sends_if_buffers)
  show "gs_vq (sys_state gpio_example) = Some gpio_example_queue" by (simp add: gpio_example_def)
  show "buffers_ok env_interrupted gpio_example_queue (SemInit 0x7000 0 # sys_hist gpio_example)" by code_simp
qed (use virtq_inv_gpio_example platform_ok_interrupted in \<open>simp_all add: client_types_def env_interrupted_sel\<close>)

theorem gpio_failed_wait_dangles_witness:
  "\<exists>s h. virtio_gpio_get_value env_interrupted (\<lambda>s h. Some (s, h)) gpio_example_dev 3 (Some 0) 0x7000
     (sys_state gpio_example) (sys_hist gpio_example) = Some (-1, Some 0, s, h) \<and>
     serve env_interrupted 0 1 s h = None"
proof -
  have "outstanding gpio_example gpio_example_queue = []"
    by (simp add: outstanding_def used_pending_def avail_since_def gpio_example_def gpio_example_queue_def virtq_example_def)
  moreover have "gpio_run env_interrupted gpio_example_dev gpio_example gpio_example" by simp
  ultimately show ?thesis
    using gpio_failed_wait_dangles [OF gpio_example_start platform_ok_interrupted _ gpio_example_sel(3) _ _
        gpio_example_sel(2) env_interrupted_sel(5) _ _ sends_interrupted] by simp blast
qed


section \<open>One request\<close>

text \<open>
  What the device receives. A request is sent whole or not at all. When
  \<open>virtio_gpio_request\<close> returns 0, the queue has one more chain of two descriptors, an 8-byte
  buffer for the device to read and a 2-byte buffer for it to write, both newly mapped, the head is published in
  the available ring, and the buffer decodes to the type, the line and the value of the call.
  When it returns an error, the same descriptors are in use, no mapping is left and the rings are
  as they were.
\<close>

theorem gpio_request_spec:
  assumes "gs_vq s = Some q" and "virtq_inv q" and "platform_ok env dev" and "c \<noteq> 0"
    and "type \<noteq> VIRTIO_GPIO_MSG_GET_LINE_NAMES"
  shows "\<exists>rc s' q' h'. virtio_gpio_request env dev type gpio val c s h = Some (rc, s', h') \<and>
      gs_vq s' = Some q' \<and> virtq_inv q' \<and> gs_ctx s' = gs_ctx s \<and> (\<forall>l. held l h' = held l h) \<and>
      (rc \<noteq> EOK \<longrightarrow> request_undone q h q' h') \<and>
      (rc = EOK \<longrightarrow> (\<exists>i j bytes. request_sent q (gs_mem s) h q' (gs_mem s') h' i j c bytes \<and>
         of_le16 (take 2 bytes) = type \<and> of_le16 (take 2 (drop 2 bytes)) = gpio \<and>
         of_le32 (drop 4 bytes) = ucast val))"
proof -
  have e: "locks_ok env" "errnos_ok env" "unmaps_ok env" "mmap_fresh env" "notifies env (gd_dev dev)"
    using assms(3) by (simp_all add: platform_ok_def)
  have "of_le16 (take 2 (request_bytes type gpio val)) = type"
    "of_le16 (take 2 (drop 2 (request_bytes type gpio val))) = gpio"
    "of_le32 (drop 4 (request_bytes type gpio val)) = ucast val"
    by (simp_all add: request_bytes_def)
  with virtio_gpio_request_run [OF assms(1,2) e assms(4,5), of gpio val h] show ?thesis by metis
qed

theorem gpio_request_spec_witness:
  "\<exists>rc s' q' h'. virtio_gpio_request env_fresh gpio_example_dev VIRTIO_GPIO_MSG_SET_VALUE 3 1 0x7000
     (sys_state gpio_example) [] = Some (rc, s', h') \<and> gs_vq s' = Some q' \<and> virtq_inv q'"
proof -
  have "VIRTIO_GPIO_MSG_SET_VALUE \<noteq> VIRTIO_GPIO_MSG_GET_LINE_NAMES" "(0x7000::ptr) \<noteq> 0"
    by (simp_all add: VIRTIO_GPIO_MSG_SET_VALUE_def VIRTIO_GPIO_MSG_GET_LINE_NAMES_def)
  from gpio_request_spec [OF gpio_example_sel(3) virtq_inv_gpio_example platform_ok_example this(2,1), of 3 1 "[]"]
  show ?thesis by blast
qed

end
