(* ===== verification/Virtio_Queue.thy ===== *)
theory Virtio_Queue
  imports Virtio_Mmio Virtio_Pci
begin

text \<open>
  Setting up a queue over a transport: \<^verbatim>\<open>virtio_create_queue\<close> of \<^verbatim>\<open>src/virtio/virtio.c\<close> on every path,
  and the polling loop of \<open>virtio_reset_queue\<close>. The locale \<open>queue_transport\<close> adds to \<open>transport\<close> what
  this needs; both transports are instances.
\<close>

section \<open>Register accesses\<close>

text \<open>An environment whose small allocations never fail.\<close>

definition allocs_ok :: "env \<Rightarrow> bool" where
  "allocs_ok env \<longleftrightarrow> (\<forall>h n ty. \<exists>p. env_calloc env h n ty = Inr p)"

lemma allocs_ok_env0 [simp]: "allocs_ok env0" "allocs_ok env_fresh"
  by (simp_all add: allocs_ok_def env_fresh_def)

lemma quiet_regs_of: "list_all is_reg es \<Longrightarrow> quiet h h' \<Longrightarrow> quiet h (es @ h')"
  by (rule quiet_trans [OF _ quiet_reg_list])

text \<open>
  The queue that \<open>virtio_create_queue\<close> makes for the requested size \<open>sz\<close> when the device supports
  \<open>limit\<close> entries: as large as both allow.
\<close>

definition queue_made :: "env \<Rightarrow> u16 \<Rightarrow> u16 \<Rightarrow> virtq \<Rightarrow> bool" where
  "queue_made env sz limit q \<longleftrightarrow>
     vq_num q = (if sz = 0 then limit else min sz limit) \<and> virtq_inv q \<and>
     free_list q = map of_nat [0..<unat (vq_num q)] \<and> vq_avail_idx q = 0 \<and> vq_last_seen_used q = 0 \<and>
     (zeroed env \<longrightarrow> vq_used_idx q = 0)"

text \<open>The outcome of creating a queue: the stores that a transport makes are the first three arguments.\<close>

definition queue_outcome ::
  "('p vdev_base \<Rightarrow> virtq \<Rightarrow> hist) \<Rightarrow> ('p vdev_base \<Rightarrow> u16 \<Rightarrow> hist) \<Rightarrow> ('p vdev_base \<Rightarrow> u16 \<Rightarrow> hist) \<Rightarrow> env \<Rightarrow> ('p, 's) virtio_device \<Rightarrow> u16 \<Rightarrow> u16 \<Rightarrow> int \<Rightarrow> hist \<Rightarrow>
   (rc \<times> virtq option cell \<times> virtio_interrupt option \<times> hist) option \<Rightarrow> bool" where
  "queue_outcome wr_addr wr_size wr_select env dev i sz irq h r \<longleftrightarrow>
     (\<exists>rc vq intr h'. r = Some (rc, Some vq, intr, h') \<and> (\<forall>l. held l h' = held l h) \<and>
        (if rc = EOK then
           \<exists>q limit p h2. vq = Some q \<and> queue_made env sz limit q \<and>
             intr = Some \<lparr> intr_dev = vd_self (vd_base dev), intr_vq = vq_self q, intr_irq = irq \<rparr> \<and>
             h' = ThreadCreate p (vd_self (vd_base dev)) (vq_self q) irq #
                  Calloc 1 ''struct virtio_interrupt'' (Inr p) # wr_addr (vd_base dev) q @
                  critical env (device_lock dev) (\<lambda>h. wr_size (vd_base dev) sz @ wr_select (vd_base dev) i @ h) h2
         else intr = None))"

section \<open>What creating a queue needs of a transport\<close>

text \<open>
  \<open>addressable\<close> says that the transport can take the addresses of the queue; \<open>wr_addr\<close> are the stores
  that pass them.
\<close>

locale queue_transport =
  transport ops ready rd_status wr_status wr_select wr_notify wr_enable wr_size wr_reset rd_reset rd_max
  for ops :: "('p, 's) virtio_ops"
    and ready :: "'p vdev_base \<Rightarrow> bool"
    and rd_status :: "env \<Rightarrow> 'p vdev_base \<Rightarrow> hist \<Rightarrow> u8 \<times> event"
    and wr_status :: "'p vdev_base \<Rightarrow> u8 \<Rightarrow> hist"
    and wr_select :: "'p vdev_base \<Rightarrow> u16 \<Rightarrow> hist"
    and wr_notify :: "env \<Rightarrow> 'p vdev_base \<Rightarrow> u16 \<Rightarrow> hist \<Rightarrow> hist"
    and wr_enable :: "'p vdev_base \<Rightarrow> bool \<Rightarrow> hist"
    and wr_size :: "'p vdev_base \<Rightarrow> u16 \<Rightarrow> hist"
    and wr_reset :: "'p vdev_base \<Rightarrow> hist"
    and rd_reset :: "env \<Rightarrow> 'p vdev_base \<Rightarrow> hist \<Rightarrow> u32 \<times> event"
    and rd_max :: "env \<Rightarrow> 'p vdev_base \<Rightarrow> hist \<Rightarrow> u16 \<times> event" +
  fixes addressable :: "'p vdev_base \<Rightarrow> virtq \<Rightarrow> bool"
    and wr_addr :: "'p vdev_base \<Rightarrow> virtq \<Rightarrow> hist"
  assumes set_addr: "ready b \<Longrightarrow> addressable b q \<Longrightarrow>
      op_set_queue_addr ops env b (Some q) h = Some (EOK, wr_addr b q @ h)"
    and read_config: "ready b \<Longrightarrow> length ws = 6 \<Longrightarrow>
      \<exists>ws' es. op_read_device_config ops env (Some b) (Some ws) 8 0 h = Some (EOK, Some ws', es @ h) \<and>
        length ws' = 6 \<and> list_all is_reg es"
    and addr_regs: "list_all is_reg (wr_addr b q)"
begin

lemma reset_queue_poll:
  assumes "vd_ops dev = Some ops" and "ready (vd_base dev)" and "locks_ok env" and "delays_ok env"
    and "vd_queue_reset_poll_interval_ms (vd_base dev) \<noteq> 0"
  shows "\<exists>rc h'. virtio_reset_queue_poll env dev i remaining v h = Some (rc, h') \<and> quiet h h' \<and>
           (rc = EOK \<or> rc = ETIMEDOUT)"
proof (induction "unat remaining" arbitrary: remaining v h rule: less_induct)
  case less
  let ?b = "vd_base dev" and ?int = "vd_queue_reset_poll_interval_ms (vd_base dev)"
  show ?case
  proof (cases "v \<noteq> 0 \<and> 0 < remaining")
    case False
    then show ?thesis by (subst virtio_reset_queue_poll.simps) auto
  next
    case True
    let ?rem = "remaining - min remaining ?int"
    obtain ds where ds: "delay_all env (vd_device_reset_poll_interval_ms ?b) h = Some (ds @ h)" "list_all is_delay ds"
      using delay_all_total [OF assms(4)] by blast
    have lock: "env_spin_lock env (ds @ h) (device_lock dev) = EOK" using assms(3) by simp
    obtain v' h2 where g: "virtio_get_queue_reset env (Some dev) i (Some v) (ds @ h) = Some (EOK, Some v', h2)"
        "quiet (ds @ h) h2"
    proof
      show "virtio_get_queue_reset env (Some dev) i (Some v) (ds @ h) =
          Some (EOK, Some (fst (rd_reset env ?b (wr_select ?b i @ SpinLock (device_lock dev) 0 # ds @ h))),
            critical env (device_lock dev)
            (\<lambda>h. let h = wr_select ?b i @ h in snd (rd_reset env ?b h) # h) (ds @ h))"
        by (rule get_queue_reset [OF assms(1,2) lock])
      show "quiet (ds @ h) (critical env (device_lock dev)
            (\<lambda>h. let h = wr_select ?b i @ h in snd (rd_reset env ?b h) # h) (ds @ h))"
      proof (rule quiet_critical)
        fix h
        show "quiet h (let h = wr_select ?b i @ h in snd (rd_reset env ?b h) # h)"
          using quiet_trans [OF quiet_reg_list [OF regs(2), of h ?b i] quiet_reg [OF disjI1 [OF read_is_reg [OF reset_reads]]]]
          by (simp add: Let_def)
      qed
    qed
    have "unat ?rem = unat remaining - unat ?int"
      by (simp add: min_def word_le_nat_alt unat_sub)
    then have "unat ?rem < unat remaining"
      using True assms(5) by (simp add: word_less_nat_alt unat_gt_0)
    from less [OF this, of v' h2] obtain rc h' where
      r: "virtio_reset_queue_poll env dev i ?rem v' h2 = Some (rc, h')" "quiet h2 h'" "rc = EOK \<or> rc = ETIMEDOUT"
      by blast
    have "virtio_reset_queue_poll env dev i remaining v h = Some (rc, h')"
      using True ds(1) g(1) r(1) by (subst virtio_reset_queue_poll.simps) simp
    moreover have "quiet h h'"
      using quiet_trans [OF quiet_delay_list [OF ds(2)] quiet_trans [OF g(2) r(2)]] .
    ultimately show ?thesis using r(3) by blast
  qed
qed

lemma reset_queue_total:
  assumes "vd_ops dev = Some ops" and "ready (vd_base dev)" and "locks_ok env" and "delays_ok env"
    and "vd_queue_reset_poll_interval_ms (vd_base dev) \<noteq> 0"
  shows "\<exists>rc h'. virtio_reset_queue env (Some dev) i h = Some (rc, h') \<and> quiet h h' \<and> (rc = EOK \<or> rc = ETIMEDOUT)"
proof -
  let ?b = "vd_base dev"
  let ?h = "critical env (device_lock dev) (\<lambda>h. wr_reset ?b @ wr_select ?b i @ h) h"
  have lock: "env_spin_lock env h (device_lock dev) = EOK" using assms(3) by simp
  have q: "quiet h ?h"
    by (intro quiet_critical quiet_regs_of regs quiet_refl)
  obtain rc h' where "virtio_reset_queue_poll env dev i (vd_queue_reset_timeout_ms ?b) (ucast (env_uninit env h)) ?h = Some (rc, h')"
      "quiet ?h h'" "rc = EOK \<or> rc = ETIMEDOUT"
    using reset_queue_poll [OF assms] by blast
  then show ?thesis
    using set_queue_reset [OF assms(1,2) lock] quiet_trans [OF q] by (auto simp: virtio_reset_queue_def)
qed

lemma max_queue_size_some:
  assumes "vd_ops dev = Some ops" and "ready (vd_base dev)" and "locks_ok env"
  shows "\<exists>lim h1. virtio_max_queue_size env (Some dev) i (Some x) h = Some (EOK, Some lim, h1) \<and> quiet h h1"
proof -
  let ?b = "vd_base dev"
  have "env_spin_lock env h (device_lock dev) = EOK" using assms(3) by simp
  note max_queue_size [OF assms(1,2) this, of i x]
  moreover have "quiet h (critical env (device_lock dev) (\<lambda>h. let h = wr_select ?b i @ h in snd (rd_max env ?b h) # h) h)"
  proof (rule quiet_critical)
    fix h
    show "quiet h (let h = wr_select ?b i @ h in snd (rd_max env ?b h) # h)"
      using quiet_trans [OF quiet_reg_list [OF regs(2), of h ?b i] quiet_reg [OF disjI1 [OF read_is_reg [OF max_reads]]]]
      by (simp add: Let_def)
  qed
  ultimately show ?thesis by blast
qed

lemma create_queue_connect:
  assumes dev: "vd_ops dev = Some ops" "ready (vd_base dev)" "vd_queue_reset_poll_interval_ms (vd_base dev) \<noteq> 0"
      "\<not> vd_legacy (vd_base dev)" "\<And>q. addressable (vd_base dev) q"
    and env: "locks_ok env" "delays_ok env" "allocs_ok env"
    and mx: "virtio_max_queue_size env (Some dev) i (Some (ucast (env_uninit env h))) h = Some (EOK, Some lim, h1)"
    and n: "n = (if sz = 0 then lim else min sz lim)" "n \<noteq> 0"
    and c: "virtq_create env (ucast n) False (Some None) h1 = Some (EOK, Some (Some q), h2)"
      "virtq_fresh env False (unat n) h1 h2 q" "\<forall>l. held l h2 = held l h"
  shows "queue_outcome wr_addr wr_size wr_select env dev i sz irq h (virtio_create_queue env (Some dev) i sz irq (Some cb) (Some None) h)"
proof -
  let ?b = "vd_base dev" and ?l = "device_lock dev"
  have lock: "env_spin_lock env h ?l = EOK" for h using env(1) by simp
  note defs = virtio_create_queue_def mx Let_def n(1) [symmetric] n(2) c(1) dev(4)
  obtain rc h3 where r: "virtio_reset_queue env (Some dev) i h2 = Some (rc, h3)" "quiet h2 h3"
    using reset_queue_total [OF dev(1,2) env(1,2) dev(3)] by blast
  show ?thesis
  proof (cases "rc = EOK")
    case False
    then show ?thesis using r c(3) by (simp add: queue_outcome_def defs quiet_def)
  next
    case True
    let ?h4 = "critical env ?l (\<lambda>h. wr_size ?b sz @ wr_select ?b i @ h) h3"
    have s: "virtio_set_queue_size env (Some dev) i sz h3 = Some (EOK, ?h4)"
      by (rule set_queue_size [OF dev(1,2) lock])
    have q4: "quiet h3 ?h4" by (intro quiet_critical quiet_regs_of regs quiet_refl)
    have a: "virtio_set_queue_addr env dev (Some q) ?h4 = Some (EOK, wr_addr ?b q @ ?h4)"
      using dev(1) set_addr [OF dev(2,5)] by (simp add: virtio_set_queue_addr_def)
    obtain p where p: "env_calloc env (wr_addr ?b q @ ?h4) 1 ''struct virtio_interrupt'' = Inr p"
      using env(3) unfolding allocs_ok_def by blast
    let ?h5 = "ThreadCreate p (vd_self ?b) (vq_self q) irq # Calloc 1 ''struct virtio_interrupt'' (Inr p) # wr_addr ?b q @ ?h4"
    have "virtio_create_queue env (Some dev) i sz irq (Some cb) (Some None) h =
        Some (EOK, Some (Some q), Some \<lparr> intr_dev = vd_self ?b, intr_vq = vq_self q, intr_irq = irq \<rparr>, ?h5)"
      using r(1) True s a p by (simp add: defs)
    moreover have "quiet ?h4 (wr_addr ?b q @ ?h4)" by (rule quiet_reg_list [OF addr_regs])
    then have "\<forall>l. held l ?h5 = held l h" using c(3) r(2) q4 by (simp add: quiet_def)
    moreover have "queue_made env sz lim q"
      using c(2) n by (auto simp: queue_made_def virtq_fresh_def word_unat_eq_iff)
    ultimately show ?thesis by (auto simp: queue_outcome_def)
  qed
qed

lemma create_queue_outcome:
  assumes dev: "vd_ops dev = Some ops" "ready (vd_base dev)" "vd_queue_reset_poll_interval_ms (vd_base dev) \<noteq> 0"
      "\<not> vd_legacy (vd_base dev)" "\<And>q. addressable (vd_base dev) q"
    and env: "locks_ok env" "delays_ok env" "errnos_ok env" "unmaps_ok env" "unat (env_fifo_hdr env) < 2 ^ 63"
      "allocs_ok env"
  shows "queue_outcome wr_addr wr_size wr_select env dev i sz irq h (virtio_create_queue env (Some dev) i sz irq (Some cb) (Some None) h)"
proof -
  obtain lim h1 where mx: "virtio_max_queue_size env (Some dev) i (Some (ucast (env_uninit env h))) h = Some (EOK, Some lim, h1)"
      and q1: "quiet h h1" using max_queue_size_some [OF dev(1,2) env(1)] by blast
  define n where n: "n = (if sz = 0 then lim else min sz lim)"
  note defs = virtio_create_queue_def mx Let_def n [symmetric]
  show ?thesis
  proof (cases "n = 0")
    case True
    then show ?thesis using q1 by (simp add: queue_outcome_def defs quiet_def)
  next
    case False
    have "unat n < 65536" using unsigned_less [of n, where 'a = nat] by simp
    moreover have "(ucast n :: size_t) \<noteq> 0" using False by (metis unat_eq_0 unat_ucast_16_64)
    ultimately obtain rc out h2 where c: "virtq_create env (ucast n) False (Some None) h1 = Some (rc, Some out, h2)"
        "(rc = EOK) = (out \<noteq> None)" "\<forall>l. held l h2 = held l h1"
        "\<forall>q. out = Some q \<longrightarrow> virtq_fresh env False (unat n) h1 h2 q"
      using virtq_create_run [OF env(1,3,4), of "ucast n" False h1] env(5) by auto
    have held: "\<forall>l. held l h2 = held l h" using c(3) q1 by (simp add: quiet_def)
    show ?thesis
    proof (cases out)
      case None
      then show ?thesis using False c(1,2) dev(4) held by (simp add: queue_outcome_def defs)
    next
      case (Some q)
      then show ?thesis
        by (intro create_queue_connect [OF dev env(1,2,6) mx n False, of q h2] held) (use c in auto)
    qed
  qed
qed

lemma create_queue_run:
  assumes dev: "vd_ops dev = Some ops" "ready (vd_base dev)" "vd_queue_reset_poll_interval_ms (vd_base dev) \<noteq> 0"
      "\<not> vd_legacy (vd_base dev)" "\<And>q. addressable (vd_base dev) q"
    and env: "locks_ok env" "delays_ok env" "errnos_ok env" "unmaps_ok env" "unat (env_fifo_hdr env) < 2 ^ 63"
      "allocs_ok env"
  shows "\<exists>rc vq intr h'. virtio_create_queue env (Some dev) i sz irq (Some cb) (Some None) h = Some (rc, Some vq, intr, h') \<and>
      (\<forall>l. held l h' = held l h) \<and>
      (if rc = EOK then
         \<exists>q limit p h2. vq = Some q \<and> queue_made env sz limit q \<and>
           intr = Some \<lparr> intr_dev = vd_self (vd_base dev), intr_vq = vq_self q, intr_irq = irq \<rparr> \<and>
           h' = ThreadCreate p (vd_self (vd_base dev)) (vq_self q) irq #
                Calloc 1 ''struct virtio_interrupt'' (Inr p) # wr_addr (vd_base dev) q @
                critical env (device_lock dev) (\<lambda>h. wr_size (vd_base dev) sz @ wr_select (vd_base dev) i @ h) h2
       else intr = None)"
  using create_queue_outcome [OF assms] unfolding queue_outcome_def .

end

section \<open>The two transports\<close>

text \<open>Passing the addresses: six 32-bit stores over MMIO, three 64-bit ones over PCI.\<close>

definition mmio_addr_events :: "mmio_base \<Rightarrow> virtq \<Rightarrow> hist" where
  "mmio_addr_events b q =
     [mmio_wr b VIRTIO_MMIO_QUEUE_DEVICE_HIGH (ucast (drop_bit 32 (vq_used_paddr q))),
      mmio_wr b VIRTIO_MMIO_QUEUE_DEVICE_LOW (ucast (vq_used_paddr q AND 0xFFFFFFFF)),
      mmio_wr b VIRTIO_MMIO_QUEUE_DRIVER_HIGH (ucast (drop_bit 32 (vq_avail_paddr q))),
      mmio_wr b VIRTIO_MMIO_QUEUE_DRIVER_LOW (ucast (vq_avail_paddr q AND 0xFFFFFFFF)),
      mmio_wr b VIRTIO_MMIO_QUEUE_DESC_HIGH (ucast (drop_bit 32 (vq_desc_paddr q))),
      mmio_wr b VIRTIO_MMIO_QUEUE_DESC_LOW (ucast (vq_desc_paddr q AND 0xFFFFFFFF))]"

definition pci_addr_events :: "pci_base \<Rightarrow> virtq \<Rightarrow> hist" where
  "pci_addr_events b q =
     [pci_wr b queue_device (vq_used_paddr q), pci_wr b queue_driver (vq_avail_paddr q),
      pci_wr b queue_desc (vq_desc_paddr q)]"

text \<open>Reading the first two words of the configuration into six: register reads only.\<close>

lemma mmio_config_regs:
  assumes "mmio_ready b" and "length ws = 6"
  shows "\<exists>ws' es. virtio_mmio_read_device_config env (Some b) (Some ws) 8 0 h = Some (EOK, Some ws', es @ h) \<and>
           length ws' = 6 \<and> list_all is_reg es"
proof -
  obtain m where m: "vd_priv b = Some m" using assms(1) by (auto simp: mmio_ready_def)
  have n: "unat ((8::size_t) div 4) = 2" by simp
  obtain vs es where run: "virtio_mmio_read_config_from env m 0 2 0 ws h = Some (take 0 ws @ vs @ drop (0 + 2) ws, es @ h)"
      "length vs = 2"
      "rev es = map2 (\<lambda>j v. RegRead (mmio_reg b (ucast (0x100 + 0 + of_nat j * 4 :: u64))) 4 (ucast (v::u32))) [0..<0 + 2] vs"
    using mmio_read_config_from [OF m, of 0 2 ws env 0 h] assms(2) by auto
  have "list_all is_reg (rev es)"
    unfolding run(3) by (auto simp: list_all_iff set_zip)
  then have "list_all is_reg es" by simp
  then show ?thesis using m run(1,2) assms(2) n by (simp add: virtio_mmio_read_device_config_def)
qed

lemma pci_config_regs:
  assumes "pci_ready b" and "length ws = 6"
  shows "\<exists>ws' es. virtio_pci_read_device_config env (Some b) (Some ws) 8 0 h = Some (EOK, Some ws', es @ h) \<and>
           length ws' = 6 \<and> list_all is_reg es"
proof -
  obtain p where p: "vd_priv b = Some p" using assms(1) by (auto simp: pci_ready_def)
  have k: "(unat (8::size_t) + 3) div 4 = Suc (Suc 0)" by simp
  have "\<not> length ws \<le> 4" "ws \<noteq> []" using assms(2) by auto
  then show ?thesis
    unfolding virtio_pci_read_device_config_def k using p assms(2)
    by (auto simp: arr_set_def)
qed

interpretation mmq: queue_transport virtio_mmio_ops mmio_ready mmio_rd_status
    "\<lambda>b st. [mmio_wr b VIRTIO_MMIO_STATUS (ucast st)]"
    "\<lambda>b i. [mmio_wr b VIRTIO_MMIO_QUEUE_SEL (ucast i)]"
    "\<lambda>env b i h. [mmio_wr b VIRTIO_MMIO_QUEUE_NOTIFY (ucast i)]"
    "\<lambda>b en. [mmio_wr b VIRTIO_MMIO_QUEUE_READY (if en then 1 else 0)]"
    "\<lambda>b n. [mmio_wr b VIRTIO_MMIO_QUEUE_SIZE (ucast n)]"
    "\<lambda>b. [mmio_wr b VIRTIO_MMIO_QUEUE_RESET 1]"
    mmio_rd_reset mmio_rd_max "\<lambda>b q. \<not> vd_legacy b" mmio_addr_events
proof (unfold_locales, goal_cases)
  case (1 b q env h)
  then obtain m where "vd_priv b = Some m" by (auto simp: mmio_ready_def)
  then show ?case
    using 1 by (simp add: virtio_mmio_ops_def virtio_mmio_set_queue_addr_def virtq_desc_paddr_def
        virtq_avail_paddr_def virtq_used_paddr_def virtio_mmio_write32_eq mmio_addr_events_def Let_def)
next
  case (2 b ws env h)
  then show ?case using mmio_config_regs by (simp add: virtio_mmio_ops_def)
next
  case (3 b q)
  then show ?case by (simp add: mmio_addr_events_def)
qed

interpretation pcq: queue_transport virtio_pci_ops pci_ready pci_rd_status
    "\<lambda>b st. [pci_wr b device_status (ucast st)]"
    "\<lambda>b i. [pci_wr b queue_select (ucast i)]"
    pci_notify_events
    "\<lambda>b en. [pci_wr b queue_enable (if en then 1 else 0), pci_wr b queue_msix_vector 0]"
    "\<lambda>b n. [pci_wr b queue_size (ucast n)]"
    "\<lambda>b. [pci_wr b queue_reset 1]"
    pci_rd_reset pci_rd_max "\<lambda>b q. True" pci_addr_events
proof (unfold_locales, goal_cases)
  case (1 b q env h)
  then obtain p where "vd_priv b = Some p" "pci_common_cfg p \<noteq> 0" by (auto simp: pci_ready_def)
  then show ?case
    by (simp add: virtio_pci_ops_def virtio_pci_set_queue_addr_def virtq_desc_paddr_def virtq_avail_paddr_def
        virtq_used_paddr_def cfg_write_eq [of b] pci_addr_events_def)
next
  case (2 b ws env h)
  then show ?case using pci_config_regs by (simp add: virtio_pci_ops_def)
next
  case (3 b q)
  then show ?case by (simp add: pci_addr_events_def)
qed



end
