(* ===== verification/Gpio_Init.thy ===== *)
theory Gpio_Init
  imports Gpio_System Virtio_Queue
begin

text \<open>
  \<^verbatim>\<open>virtio_gpio_init\<close> of \<^verbatim>\<open>src/gpio/gpio.c\<close>: it allocates the driver's device, initialises one of the
  two transports, resets the device, walks it through its status bits, reads the configuration
  and creates the request queue. The results of most calls are ignored, as in the code.
\<close>

section \<open>Initialisation\<close>

text \<open>
  \<open>struct virtio_gpio_device\<close> from its configuration on, as 32-bit words: two of configuration, two
  of the pointer \<open>requestq\<close>, two of the pointer \<open>priv\<close>. \<open>calloc\<close> has cleared it. The configuration is
  read to the first word; the transport gets a pointer into the whole object.
\<close>

definition config_tail :: "u32 list" where
  "config_tail = replicate 6 0"

definition config_of_words :: "u32 list \<Rightarrow> virtio_gpio_config" where
  "config_of_words ws =
     \<lparr> cfg_ngpio = ucast (ws ! 0), cfg_padding = ucast (drop_bit 16 (ws ! 0)), cfg_gpio_names_size = ws ! 1 \<rparr>"

definition priv_of_words :: "u32 list \<Rightarrow> u64" where
  "priv_of_words ws = ucast (ws ! 4) OR push_bit 32 (ucast (ws ! 5))"

text \<open>The label \<open>free_vdev\<close>: destroys the VirtIO device and clears the output pointer.\<close>

definition gpio_free_vdev ::
  "env \<Rightarrow> rc \<Rightarrow> ('p, gpio_state) virtio_device \<Rightarrow> hist \<Rightarrow> (rc \<times> 'p virtio_gpio_device option \<times> virtq option \<times> hist) option" where
  "gpio_free_vdev env rc vdev h = (let (_, h) = virtio_destroy env (Some vdev) h in Some (rc, None, None, h))"

text \<open>
  From the reset of the device to the end. The queue is a component of its own here, next to the
  device whose \<open>requestq\<close> points to it.
\<close>

definition virtio_gpio_setup ::
  "env \<Rightarrow> ptr \<Rightarrow> size_t \<Rightarrow> ('p, gpio_state) virtio_device \<Rightarrow> u16 \<Rightarrow> hist \<Rightarrow>
   (rc \<times> 'p virtio_gpio_device option \<times> virtq option \<times> hist) option" where
  "virtio_gpio_setup env pdev idx vdev qsize h = do {
     (_, h) \<leftarrow> virtio_reset_device env vdev h;
     (_, h) \<leftarrow> virtio_add_device_status env (Some vdev) VIRTIO_DEVICE_STATUS_ACKNOWLEDGE h;
     (_, h) \<leftarrow> virtio_add_device_status env (Some vdev) VIRTIO_DEVICE_STATUS_DRIVER h;
     (_, ws, h) \<leftarrow> virtio_read_device_config env vdev (Some config_tail) 8 0 h;
     ws \<leftarrow> ws;
     (_, h) \<leftarrow> virtio_add_device_status env (Some vdev) VIRTIO_DEVICE_STATUS_FEATURES_OK h;
     (rc, vq, _, h) \<leftarrow>
       virtio_create_queue env (Some vdev) 0 qsize (vd_irq (vd_base vdev)) (Some (virtq_callback env)) (Some None) h;
     (if rc \<noteq> EOK then gpio_free_vdev env rc vdev h
      else do {
        vq \<leftarrow> vq;
        (_, h) \<leftarrow> virtio_enable_queue env (Some vdev) 0 True h;
        (_, h) \<leftarrow> virtio_add_device_status env (Some vdev) VIRTIO_DEVICE_STATUS_DRIVER_OK h;
        Some (EOK,
              Some \<lparr> gd_self = pdev, gd_dev = vdev, gd_idx = idx,
                     gd_config = config_of_words ws, gd_priv = priv_of_words ws \<rparr>,
              vq, h)
      })
   }"

text \<open>A device over either transport.\<close>

datatype gpio_handle =
    Over_mmio "virtio_mmio_device virtio_gpio_device"
  | Over_pci "virtio_pci_device virtio_gpio_device"

definition msix_vector_count :: u16 where "msix_vector_count = 1"

text \<open>
  A failing \<open>calloc\<close> is reported by \<open>errno\<close>. A failing \<open>virtio_init\<close> returns at once; the output
  pointer is then unchanged.
\<close>

definition virtio_gpio_init ::
  "env \<Rightarrow> size_t \<Rightarrow> u64 \<Rightarrow> u32 \<Rightarrow> u16 \<Rightarrow> gpio_handle option cell \<Rightarrow> hist \<Rightarrow>
   (rc \<times> gpio_handle option cell \<times> virtq option \<times> hist) option" where
  "virtio_gpio_init env idx mem irq qsize dev h =
     (if dev = None then Some (EINVAL, dev, None, h)
      else
        let (r, h) = calloc env 1 ''struct virtio_gpio_device'' h
        in case r of
             Inl e \<Rightarrow> Some (e, dev, None, h)
           | Inr pdev \<Rightarrow>
        if mem \<noteq> 0 then
          let (rc, vdev, h) = virtio_init env (Some None) h
          in if rc \<noteq> EOK then Some (rc, dev, None, h)
          else do {
            vdev \<leftarrow> vdev;
            vdev \<leftarrow> vdev;
            let (rc, vdev, h) = virtio_mmio_init env vdev mem VIRTIO_DT_GPIO (sint irq) h;
            (rc, d, vq, h) \<leftarrow>
              (if rc \<noteq> EOK then gpio_free_vdev env rc vdev h
               else virtio_gpio_setup env pdev idx vdev qsize h);
            Some (rc, Some (map_option Over_mmio d), vq, h)
          }
        else
          let (rc, vdev, h) = virtio_init env (Some None) h
          in if rc \<noteq> EOK then Some (rc, dev, None, h)
          else do {
            vdev \<leftarrow> vdev;
            vdev \<leftarrow> vdev;
            (rc, vdev, h) \<leftarrow> virtio_pci_init env vdev VIRTIO_DT_GPIO idx msix_vector_count h;
            (rc, d, vq, h) \<leftarrow>
              (if rc \<noteq> EOK then gpio_free_vdev env rc vdev h
               else virtio_gpio_setup env pdev idx vdev qsize h);
            Some (rc, Some (map_option Over_pci d), vq, h)
          })"

section \<open>The setup of a device\<close>

text \<open>A status bit added under the device lock, over a transport that reads and writes the status by \<open>rd\<close> and \<open>wr\<close>.\<close>

definition bit_added ::
  "(env \<Rightarrow> 'p vdev_base \<Rightarrow> hist \<Rightarrow> u8 \<times> event) \<Rightarrow> ('p vdev_base \<Rightarrow> u8 \<Rightarrow> hist) \<Rightarrow>
   env \<Rightarrow> ('p, 's) virtio_device \<Rightarrow> u8 \<Rightarrow> hist \<Rightarrow> hist" where
  "bit_added rd wr env dev st h =
     critical env (device_lock dev)
       (\<lambda>h. let (v, e) = rd env (vd_base dev) h in wr (vd_base dev) (v OR st) @ e # h) h"

text \<open>
  The trace of a successful setup: the device is reset, \<open>ACKNOWLEDGE\<close> and \<open>DRIVER\<close> are added, the configuration
  is read, \<open>FEATURES_OK\<close> is added, the queue is created, then enabled (by \<open>en\<close>), and \<open>DRIVER_OK\<close> is added last.
\<close>

definition set_up_trace ::
  "(env \<Rightarrow> 'p vdev_base \<Rightarrow> hist \<Rightarrow> u8 \<times> event) \<Rightarrow> ('p vdev_base \<Rightarrow> u8 \<Rightarrow> hist) \<Rightarrow> ('p vdev_base \<Rightarrow> hist) \<Rightarrow>
   env \<Rightarrow> ('p, gpio_state) virtio_device \<Rightarrow> u16 \<Rightarrow> hist \<Rightarrow> virtq \<Rightarrow> hist \<Rightarrow> bool" where
  "set_up_trace rd wr en env dev sz h q h' \<longleftrightarrow>
     (\<exists>intr es cfg h1 h2. list_all is_reg cfg \<and>
        h1 = bit_added rd wr env dev VIRTIO_DEVICE_STATUS_FEATURES_OK
              (cfg @ bit_added rd wr env dev VIRTIO_DEVICE_STATUS_DRIVER
                (bit_added rd wr env dev VIRTIO_DEVICE_STATUS_ACKNOWLEDGE
                  (es @ wr (vd_base dev) 0 @ h))) \<and>
        virtio_create_queue env (Some dev) 0 sz (vd_irq (vd_base dev)) (Some (virtq_callback env)) (Some None) h1 =
          Some (EOK, Some (Some q), intr, h2) \<and>
        h' = bit_added rd wr env dev VIRTIO_DEVICE_STATUS_DRIVER_OK
              (critical env (device_lock dev) (\<lambda>h. en (vd_base dev) @ h) h2))"

text \<open>The hypotheses of a setup on the platform and on the device.\<close>

definition setup_env_ok :: "env \<Rightarrow> bool" where
  "setup_env_ok env \<longleftrightarrow>
     locks_ok env \<and> delays_ok env \<and> errnos_ok env \<and> unmaps_ok env \<and> mmap_fresh env \<and> allocs_ok env \<and>
     unat (env_fifo_hdr env) < 2 ^ 63"

definition polls_ok :: "'p vdev_base \<Rightarrow> bool" where
  "polls_ok b \<longleftrightarrow> vd_queue_reset_poll_interval_ms b \<noteq> 0 \<and> vd_device_reset_poll_interval_ms b \<noteq> 0"

text \<open>A new queue under a driver that has no request: where the system of driver and device starts.\<close>

definition sys_new :: "virtq \<Rightarrow> hist \<Rightarrow> gpio_sys" where
  "sys_new q h =
     \<lparr> sys_state = \<lparr> gs_vq = Some q, gs_mem = (\<lambda>_ _. 0), gs_ctx = (\<lambda>_. None) \<rparr>, sys_hist = h,
       dev_seen = 0, dev_taken = [] \<rparr>"

text \<open>
  What a setup does: it returns with every lock as it was; if it succeeds, by the trace above, and
  with zeroed pages and a queue size that is a power of two, driver and device can start.
\<close>

definition set_up ::
  "(env \<Rightarrow> 'p vdev_base \<Rightarrow> hist \<Rightarrow> u8 \<times> event) \<Rightarrow> ('p vdev_base \<Rightarrow> u8 \<Rightarrow> hist) \<Rightarrow> ('p vdev_base \<Rightarrow> hist) \<Rightarrow>
   env \<Rightarrow> ('p, gpio_state) virtio_device \<Rightarrow> u16 \<Rightarrow> hist \<Rightarrow> 'p virtio_gpio_device \<Rightarrow> virtq \<Rightarrow> hist \<Rightarrow> bool" where
  "set_up rd wr en env dev sz h dv q h' \<longleftrightarrow>
     gd_dev dv = dev \<and> (\<exists>limit. queue_made env sz limit q) \<and> set_up_trace rd wr en env dev sz h q h' \<and>
     (zeroed env \<longrightarrow> unat (vq_num q) dvd 65536 \<longrightarrow> gpio_start (sys_new q h') \<and> platform_ok env dv)"

lemma queue_made_start:
  assumes "queue_made env sz limit q" and "zeroed env" and "unat (vq_num q) dvd 65536"
  shows "gpio_start (sys_new q h)"
proof -
  have "i \<in> set (free_list q)" if "i < vq_num q" for i
  proof -
    have "unat i \<in> {0..<unat (vq_num q)}" using that by (simp add: word_less_nat_alt)
    then have "(of_nat (unat i) :: u16) \<in> of_nat ` {0..<unat (vq_num q)}" by (rule imageI)
    moreover have "set (free_list q) = of_nat ` {0..<unat (vq_num q)}" using assms(1) unfolding queue_made_def by simp
    ultimately show ?thesis by simp
  qed
  then have "allocated q = {}" by (auto simp: allocated_def)
  then show ?thesis using assms by (simp add: gpio_start_def sys_new_def queue_made_def)
qed

locale gpio_transport =
  queue_transport ops ready rd_status wr_status wr_select wr_notify wr_enable wr_size wr_reset rd_reset rd_max
    addressable wr_addr
  for ops :: "('p, gpio_state) virtio_ops"
    and ready rd_status wr_status wr_select wr_notify wr_enable wr_size wr_reset rd_reset rd_max addressable wr_addr
begin

lemma quiet_bit_added: "quiet h (bit_added rd_status wr_status env dev st h)"
  unfolding bit_added_def
proof (rule quiet_critical)
  fix h
  obtain v e where e: "rd_status env (vd_base dev) h = (v, e)" by (cases "rd_status env (vd_base dev) h")
  then have "is_reg e" using read_is_reg [OF status_reads, of env "vd_base dev" h] by simp
  then show "quiet h (let (v, e) = rd_status env (vd_base dev) h in wr_status (vd_base dev) (v OR st) @ e # h)"
    unfolding e using quiet_trans [OF quiet_reg quiet_reg_list [OF regs(1)]] by simp
qed

lemma add_bit:
  assumes "vd_ops dev = Some ops" and "ready (vd_base dev)" and "locks_ok env"
  shows "virtio_add_device_status env (Some dev) st h = Some (EOK, bit_added rd_status wr_status env dev st h)"
  unfolding bit_added_def by (rule add_status [OF assms(1,2)]) (use assms(3) in simp)

text \<open>The first steps of the setup, up to the creation of the queue.\<close>

lemma setup_negotiates:
  assumes dev: "vd_ops dev = Some ops" "ready (vd_base dev)" "polls_ok (vd_base dev)"
    and env: "locks_ok env" "delays_ok env"
  shows "\<exists>rc es ws cfg h1 h2.
      virtio_reset_device env dev h = Some (rc, es @ wr_status (vd_base dev) 0 @ h) \<and>
      h1 = bit_added rd_status wr_status env dev VIRTIO_DEVICE_STATUS_DRIVER
             (bit_added rd_status wr_status env dev VIRTIO_DEVICE_STATUS_ACKNOWLEDGE (es @ wr_status (vd_base dev) 0 @ h)) \<and>
      virtio_read_device_config env dev (Some config_tail) 8 0 h1 = Some (EOK, Some ws, cfg @ h1) \<and> list_all is_reg cfg \<and>
      h2 = bit_added rd_status wr_status env dev VIRTIO_DEVICE_STATUS_FEATURES_OK (cfg @ h1) \<and> quiet h h2"
proof -
  let ?b = "vd_base dev" and ?add = "bit_added rd_status wr_status env dev"
  have poll: "vd_device_reset_poll_interval_ms ?b \<noteq> 0" using dev(3) by (simp add: polls_ok_def)
  obtain rc es where reset: "virtio_reset_device env dev h = Some (rc, es @ wr_status ?b 0 @ h)"
      "quiet h (es @ wr_status ?b 0 @ h)"
    using reset_device [OF dev(1,2) env(2) poll] by blast
  let ?h1 = "?add VIRTIO_DEVICE_STATUS_DRIVER (?add VIRTIO_DEVICE_STATUS_ACKNOWLEDGE (es @ wr_status ?b 0 @ h))"
  have len: "length config_tail = 6" by (simp add: config_tail_def)
  obtain ws cfg where c: "virtio_read_device_config env dev (Some config_tail) 8 0 ?h1 = Some (EOK, Some ws, cfg @ ?h1)"
      "list_all is_reg cfg"
    using read_config [OF dev(2) len, of env ?h1] dev(1) unfolding virtio_read_device_config_def by auto
  have "quiet h (?add VIRTIO_DEVICE_STATUS_FEATURES_OK (cfg @ ?h1))"
    by (intro quiet_trans [OF _ quiet_bit_added] quiet_regs_of c(2) reset(2))
  then show ?thesis using reset(1) c by blast
qed

lemma setup_run:
  assumes dev: "vd_ops dev = Some ops" "ready (vd_base dev)" "polls_ok (vd_base dev)" "\<not> vd_legacy (vd_base dev)"
      "\<And>q. addressable (vd_base dev) q"
    and ok: "setup_env_ok env"
  shows "\<exists>rc d vq h'. virtio_gpio_setup env pdev idx dev sz h = Some (rc, d, vq, h') \<and> (\<forall>l. held l h' = held l h) \<and>
     (if rc = EOK then
        \<exists>dv q. d = Some dv \<and> vq = Some q \<and> gd_self dv = pdev \<and> gd_idx dv = idx \<and>
          set_up rd_status wr_status (\<lambda>b. wr_enable b True @ wr_select b 0) env dev sz h dv q h'
      else d = None \<and> vq = None)"
proof -
  have env: "locks_ok env" "delays_ok env" "errnos_ok env" "unmaps_ok env" "unat (env_fifo_hdr env) < 2 ^ 63"
      "allocs_ok env" "mmap_fresh env"
    using ok by (simp_all add: setup_env_ok_def)
  let ?b = "vd_base dev" and ?add = "bit_added rd_status wr_status env dev"
  obtain rc0 es ws cfg h1 h2 where neg: "virtio_reset_device env dev h = Some (rc0, es @ wr_status ?b 0 @ h)"
      and h1: "h1 = ?add VIRTIO_DEVICE_STATUS_DRIVER (?add VIRTIO_DEVICE_STATUS_ACKNOWLEDGE (es @ wr_status ?b 0 @ h))"
      and cfg: "virtio_read_device_config env dev (Some config_tail) 8 0 h1 = Some (EOK, Some ws, cfg @ h1)" "list_all is_reg cfg"
      and h2: "h2 = ?add VIRTIO_DEVICE_STATUS_FEATURES_OK (cfg @ h1)" and q2: "quiet h h2"
    using setup_negotiates [OF dev(1-3) env(1,2)] by blast
  have poll: "vd_queue_reset_poll_interval_ms ?b \<noteq> 0" using dev(3) by (simp add: polls_ok_def)
  obtain rc vq intr h3 where q: "virtio_create_queue env (Some dev) 0 sz (vd_irq ?b) (Some (virtq_callback env)) (Some None) h2 =
        Some (rc, Some vq, intr, h3)" "\<forall>l. held l h3 = held l h2"
      "rc = EOK \<longrightarrow> (\<exists>q limit. vq = Some q \<and> queue_made env sz limit q)"
    using create_queue_run [OF dev(1,2) poll dev(4,5) env(1-6), of 0 sz "vd_irq ?b" "virtq_callback env" h2] by (metis (no_types))
  note run = virtio_gpio_setup_def neg add_bit [OF dev(1,2) env(1)] h1 [symmetric] cfg(1) h2 [symmetric] q(1)
  show ?thesis
  proof (cases "rc = EOK")
    case False
    obtain rc' h4 where d: "virtio_destroy env (Some dev) h3 = (rc', h4)" by fastforce
    then have "held l h4 = held l h3" for l
      by (auto simp: virtio_destroy_def split_beta Let_def split: if_splits)
    moreover have "virtio_gpio_setup env pdev idx dev sz h = Some (rc, None, None, h4)"
      using False d by (simp add: run gpio_free_vdev_def)
    ultimately show ?thesis using False q(2) q2 by (simp add: quiet_def)
  next
    case True
    then obtain q limit where v: "vq = Some q" "queue_made env sz limit q" using q(3) by blast
    let ?h4 = "?add VIRTIO_DEVICE_STATUS_DRIVER_OK (critical env (device_lock dev) (\<lambda>h. wr_enable ?b True @ wr_select ?b 0 @ h) h3)"
    define dv where "dv = \<lparr> gd_self = pdev, gd_dev = dev, gd_idx = idx, gd_config = config_of_words ws, gd_priv = priv_of_words ws \<rparr>"
    have "quiet h3 ?h4"
      by (intro quiet_trans [OF quiet_critical quiet_bit_added] quiet_regs_of regs quiet_refl)
    then have "\<forall>l. held l ?h4 = held l h" using q(2) q2 by (simp add: quiet_def)
    moreover have "virtio_gpio_setup env pdev idx dev sz h = Some (EOK, Some dv, Some q, ?h4)"
      using True v(1) enable_queue [OF dev(1,2), where h = h3 and i = 0 and en = True] env(1) by (simp add: run dv_def)
    moreover have "set_up_trace rd_status wr_status (\<lambda>b. wr_enable b True @ wr_select b 0) env dev sz h q ?h4"
      unfolding set_up_trace_def append_assoc using cfg(2) q(1) True v(1) h1 h2 by blast
    moreover have "platform_ok env dv"
      using env notifies_ok [OF dev(1,2) env(1)] by (simp add: platform_ok_def dv_def)
    ultimately show ?thesis
      using v queue_made_start [OF v(2)] by (auto simp: set_up_def dv_def)
  qed
qed

end

interpretation mmg: gpio_transport virtio_mmio_ops mmio_ready mmio_rd_status
    "\<lambda>b st. [mmio_wr b VIRTIO_MMIO_STATUS (ucast st)]"
    "\<lambda>b i. [mmio_wr b VIRTIO_MMIO_QUEUE_SEL (ucast i)]"
    "\<lambda>env b i h. [mmio_wr b VIRTIO_MMIO_QUEUE_NOTIFY (ucast i)]"
    "\<lambda>b en. [mmio_wr b VIRTIO_MMIO_QUEUE_READY (if en then 1 else 0)]"
    "\<lambda>b n. [mmio_wr b VIRTIO_MMIO_QUEUE_SIZE (ucast n)]"
    "\<lambda>b. [mmio_wr b VIRTIO_MMIO_QUEUE_RESET 1]"
    mmio_rd_reset mmio_rd_max "\<lambda>b q. \<not> vd_legacy b" mmio_addr_events
  by unfold_locales

interpretation pcg: gpio_transport virtio_pci_ops pci_ready pci_rd_status
    "\<lambda>b st. [pci_wr b device_status (ucast st)]"
    "\<lambda>b i. [pci_wr b queue_select (ucast i)]"
    pci_notify_events
    "\<lambda>b en. [pci_wr b queue_enable (if en then 1 else 0), pci_wr b queue_msix_vector 0]"
    "\<lambda>b n. [pci_wr b queue_size (ucast n)]"
    "\<lambda>b. [pci_wr b queue_reset 1]"
    pci_rd_reset pci_rd_max "\<lambda>b q. True" pci_addr_events
  by unfold_locales


lemma setup_env_ok_fresh: "setup_env_ok env_fresh"
  by (simp add: setup_env_ok_def env_fresh_ok) (simp add: env_fresh_def)


text \<open>The two words of the GPIO configuration over PCI.\<close>

lemma pci_read_config_words:
  assumes "vd_priv b = Some p"
  shows "\<exists>r0 r4. virtio_pci_read_device_config env (Some b) (Some config_tail) 8 0 h =
     Some (EOK, Some [ucast r0, 0, 0, 0, ucast r4, 0], RegRead (pci_device_cfg p + 16) 4 r4 # RegRead (pci_device_cfg p) 4 r0 # h)"
proof -
  have k: "(unat (8::size_t) + 3) div 4 = Suc (Suc 0)" by simp
  show ?thesis
    unfolding virtio_pci_read_device_config_def k using assms
    by (simp add: arr_set_def config_tail_def numeral_nat)
qed

definition pci_config_read :: "env \<Rightarrow> (virtio_pci_device, gpio_state) virtio_device \<Rightarrow> virtio_pci_device virtio_gpio_device \<Rightarrow> bool" where
  "pci_config_read env dev dv \<longleftrightarrow>
     (\<exists>p h1 r0 r4. vd_priv (vd_base dev) = Some p \<and>
        virtio_read_device_config env dev (Some config_tail) 8 0 h1 =
          Some (EOK, Some [ucast r0, 0, 0, 0, ucast r4, 0],
            RegRead (pci_device_cfg p + 16) 4 r4 # RegRead (pci_device_cfg p) 4 r0 # h1) \<and>
        gd_config dv = \<lparr> cfg_ngpio = ucast (ucast r0 :: u32), cfg_padding = ucast (drop_bit 16 (ucast r0 :: u32)),
                         cfg_gpio_names_size = 0 \<rparr> \<and>
        gd_priv dv = ucast (ucast r4 :: u32))"

lemma pci_setup_config:
  assumes "vd_ops dev = Some virtio_pci_ops" and "pci_ready (vd_base dev)"
    and "virtio_gpio_setup env pdev idx dev sz h = Some (rc, Some dv, vq, h')"
  shows "pci_config_read env dev dv"
proof -
  obtain p where p: "vd_priv (vd_base dev) = Some p" using assms(2) by (auto simp: pci_ready_def)
  obtain h1 rc1 ws h2 where c: "virtio_read_device_config env dev (Some config_tail) 8 0 h1 = Some (rc1, Some ws, h2)"
      "gd_config dv = config_of_words ws" "gd_priv dv = priv_of_words ws"
    using assms(3)
    by (fastforce simp: virtio_gpio_setup_def gpio_free_vdev_def split: Option.bind_splits if_splits prod.splits)
  obtain r0 r4 where r: "virtio_pci_read_device_config env (Some (vd_base dev)) (Some config_tail) 8 0 h1 =
      Some (EOK, Some [ucast r0, 0, 0, 0, ucast r4, 0], RegRead (pci_device_cfg p + 16) 4 r4 # RegRead (pci_device_cfg p) 4 r0 # h1)"
    using pci_read_config_words [OF p] by blast
  then have "virtio_read_device_config env dev (Some config_tail) 8 0 h1 =
      Some (EOK, Some [ucast r0, 0, 0, 0, ucast r4, 0], RegRead (pci_device_cfg p + 16) 4 r4 # RegRead (pci_device_cfg p) 4 r0 # h1)"
    using assms(1) by (simp add: virtio_read_device_config_def virtio_pci_ops_def)
  with c p show ?thesis
    unfolding pci_config_read_def by (auto simp: config_of_words_def priv_of_words_def intro!: exI)
qed

text \<open>
  The configuration over PCI. The setup returns over PCI as well and follows the same order.
  But the words of the configuration are read in steps of 16 bytes: the size of the line names
  stays 0 whatever the device has, and its fifth word lands in the low half of the pointer
  \<open>priv\<close>, behind the configuration.
\<close>

theorem pci_gpio_setup:
  assumes "vd_ops dev = Some virtio_pci_ops" and "pci_ready (vd_base dev)" and "\<not> vd_legacy (vd_base dev)"
    and "polls_ok (vd_base dev)" and "setup_env_ok env"
  shows "\<exists>rc d vq h'. virtio_gpio_setup env pdev idx dev sz h = Some (rc, d, vq, h') \<and> (\<forall>l. held l h' = held l h) \<and>
     (if rc = EOK then
        \<exists>dv q. d = Some dv \<and> vq = Some q \<and> gd_self dv = pdev \<and> gd_idx dv = idx \<and>
          set_up pci_rd_status (\<lambda>b st. [pci_wr b device_status (ucast st)])
            (\<lambda>b. [pci_wr b queue_enable 1, pci_wr b queue_msix_vector 0, pci_wr b queue_select 0]) env dev sz h dv q h' \<and>
          pci_config_read env dev dv
      else d = None \<and> vq = None)"
  using pcg.setup_run [OF assms(1,2,4,3) TrueI assms(5), of pdev idx sz h]
  unfolding append_Cons append_Nil if_True unsigned_0
  apply -
  apply (elim exE conjE)
  apply (rule exI)+
  apply (rule conjI, assumption)
  apply (rule conjI, assumption)
  by (auto dest: pci_setup_config [OF assms(1,2)] split: if_split_asm)

definition pci_gpio_vdev :: "(virtio_pci_device, gpio_state) virtio_device" where
  "pci_gpio_vdev = \<lparr> vd_base = vd_base pci_example, vd_ops = Some virtio_pci_ops \<rparr>"

theorem pci_gpio_setup_witness:
  "\<exists>rc d vq h'. virtio_gpio_setup env_fresh 0x6000 0 pci_gpio_vdev 64 [] = Some (rc, d, vq, h') \<and>
     held (device_lock pci_gpio_vdev) h' = 0"
proof -
  have "vd_ops pci_gpio_vdev = Some virtio_pci_ops" "pci_ready (vd_base pci_gpio_vdev)"
      "\<not> vd_legacy (vd_base pci_gpio_vdev)" "polls_ok (vd_base pci_gpio_vdev)"
    by (simp_all add: pci_gpio_vdev_def polls_ok_def) (simp_all add: pci_example_def)
  from pci_gpio_setup [OF this setup_env_ok_fresh, of "0x6000" 0 64 "[]"] show ?thesis by fastforce
qed

section \<open>A transport that does not initialise\<close>

text \<open>
  C40: the error path of \<open>virtio_gpio_init\<close>. When the transport over MMIO fails to initialise, it
  destroys and frees the VirtIO device; the caller's own error path does the same again. The device
  object is freed twice, the driver's device not at all, and the output pointer is cleared.
\<close>

theorem gpio_init_double_free:
  fixes v :: "(virtio_mmio_device, gpio_state) virtio_device"
  assumes "errnos_ok env" and "\<And>h l. env_spin_destroy env h l = EOK" and "mem \<noteq> 0"
    and "calloc env 1 ''struct virtio_gpio_device'' h = (Inr pdev, h1)"
    and "virtio_init env (Some None) h1 = (EOK, Some (Some v), h2)"
    and "virtio_mmio_init env v mem VIRTIO_DT_GPIO (sint irq) h2 = (rc, v', h3)" and "rc \<noteq> EOK"
  shows "\<exists>h' ps. virtio_gpio_init env idx mem irq qsize (Some d) h = Some (rc, Some None, None, h') \<and>
     frees h' = vd_self (vd_base v) # vd_self (vd_base v) # ps @ frees h \<and> length ps \<le> 1"
proof -
  have a: "env_calloc env h 1 ''struct virtio_gpio_device'' = Inr pdev"
      "h1 = Calloc 1 ''struct virtio_gpio_device'' (Inr pdev) # h"
    using assms(4) by (auto simp: calloc_def)
  have f: "frees h2 = frees h"
    using assms(4,5) by (auto simp: calloc_def virtio_init_def spin_init_def Let_def split: sum.splits)
  have self: "vd_self (vd_base v') = vd_self (vd_base v)" using virtio_mmio_init_keeps [OF assms(6)] by simp
  obtain ps where ps: "frees h3 = vd_self (vd_base v) # ps @ frees h2" "length ps \<le> 1"
    using virtio_mmio_init_run [OF assms(1,2), of v mem VIRTIO_DT_GPIO "sint irq" h2] assms(6,7) self by auto
  have "virtio_destroy env (Some v') h3 = (EOK, Free (vd_self (vd_base v')) # SpinDestroy (device_lock v') 0 # h3)"
    by (rule frees_virtio_destroy [OF assms(2)])
  then have "virtio_gpio_init env idx mem irq qsize (Some d) h =
      Some (rc, Some None, None, Free (vd_self (vd_base v')) # SpinDestroy (device_lock v') 0 # h3)"
    using assms(3,6,7) assms(5) [unfolded a(2)] a(1) by (simp add: virtio_gpio_init_def gpio_free_vdev_def)
  with ps self f show ?thesis by auto
qed

theorem gpio_init_double_free_witness:
  "\<exists>h' ps. virtio_gpio_init env0 0 0x20000000 7 64 (Some None) [] = Some (ENODEV, Some None, None, h') \<and>
     frees h' = 8192 # 8192 # ps"
proof -
  let ?h1 = "[Calloc 1 ''struct virtio_gpio_device'' (Inr 4096)]"
  have a: "calloc env0 1 ''struct virtio_gpio_device'' [] = (Inr 4096, ?h1)" by (simp add: calloc_def)
  obtain v :: "(virtio_mmio_device, gpio_state) virtio_device" and h2 where
    b: "virtio_init env0 (Some None) ?h1 = (EOK, Some (Some v), h2)" "vd_self (vd_base v) = 8192"
    by (simp add: virtio_init_def calloc_def spin_init_def)
  obtain v' h3 where c: "virtio_mmio_init env0 v 0x20000000 VIRTIO_DT_GPIO (sint (7::u32)) h2 = (ENODEV, v', h3)"
    by (simp add: virtio_mmio_init_def mmio_free_mdev_def mmio_free_vdev_def calloc_def mmap64_def
        virtio_mmio_read32_def reg_read_def frees_virtio_destroy Let_def split_beta)
  show ?thesis
    using gpio_init_double_free [OF errnos_ok_env0 _ _ a b(1) c] b(2) by simp blast
qed

end
