(* ===== verification/C_String.thy ===== *)
theory C_String
  imports Prelude
begin

text \<open>
  What the program uses of the C library's string functions: conversion of numbers to decimal
  (\<open>snprintf\<close> with \<open>%u\<close> and \<open>%zu\<close>), \<open>strtoul\<close> and \<open>strtoull\<close> with base 0, \<open>getsubopt\<close> and \<open>strrchr\<close>. A C
  string is the list of its characters before the terminating zero.
\<close>

section \<open>Decimal numbers\<close>

definition digit_char :: "nat \<Rightarrow> char" where
  "digit_char d = char_of (48 + d)"

fun dec :: "nat \<Rightarrow> string" where
  "dec n = (if n < 10 then [digit_char n] else dec (n div 10) @ [digit_char (n mod 10)])"

declare dec.simps [simp del]

text \<open>\<open>%d\<close>.\<close>

definition sdec :: "int \<Rightarrow> string" where
  "sdec i = (if i < 0 then CHR ''-'' # dec (nat (- i)) else dec (nat i))"

text \<open>The value of a digit or a letter in \<open>strtoul\<close>; \<open>None\<close> for any other character.\<close>

definition digit_val :: "char \<Rightarrow> nat option" where
  "digit_val c =
     (let n = of_char c
      in if 48 \<le> n \<and> n \<le> 57 then Some (n - 48)
      else if 65 \<le> n \<and> n \<le> 90 then Some (n - 55)
      else if 97 \<le> n \<and> n \<le> 122 then Some (n - 87)
      else None)"

definition is_digit :: "nat \<Rightarrow> char \<Rightarrow> bool" where
  "is_digit base c = (case digit_val c of None \<Rightarrow> False | Some d \<Rightarrow> d < base)"

definition digits_val :: "nat \<Rightarrow> string \<Rightarrow> nat" where
  "digits_val base s = foldl (\<lambda>a c. base * a + the (digit_val c)) 0 s"

lemma digit_char_0: "digit_char 0 = CHR ''0''"
  by (simp add: digit_char_def char_of_eq_iff)

lemma digit_val_char [simp]: "d < 10 \<Longrightarrow> digit_val (digit_char d) = Some d"
  by (simp add: digit_val_def digit_char_def)

lemma is_digit_char [simp]: "d < 10 \<Longrightarrow> is_digit 10 (digit_char d)"
  by (simp add: is_digit_def)

lemma dec_not_Nil [simp]: "dec n \<noteq> []"
  by (subst dec.simps) simp

lemma dec_digits: "c \<in> set (dec n) \<Longrightarrow> is_digit 10 c"
  by (induction n rule: dec.induct) (subst (asm) (2) dec.simps, auto split: if_splits)

lemma digits_val_snoc [simp]: "digits_val b (s @ [c]) = b * digits_val b s + the (digit_val c)"
  by (simp add: digits_val_def)

lemma digits_val_dec [simp]: "digits_val 10 (dec n) = n"
proof (induction n rule: dec.induct)
  case (1 n)
  show ?case
  proof (cases "n < 10")
    case True
    then show ?thesis by (subst dec.simps) (simp add: digits_val_def)
  next
    case False
    then show ?thesis using 1 by (subst dec.simps) simp
  qed
qed

lemma dec_inject [simp]: "dec m = dec n \<longleftrightarrow> m = n"
  using digits_val_dec by metis

lemma digit_char_inject: "d < 10 \<Longrightarrow> e < 10 \<Longrightarrow> digit_char d = digit_char e \<longleftrightarrow> d = e"
  using digit_val_char by (metis option.inject)

lemma hd_dec: "n \<noteq> 0 \<Longrightarrow> hd (dec n) \<noteq> CHR ''0''"
proof (induction n rule: dec.induct)
  case (1 n)
  have z: "CHR ''0'' = digit_char 0" by (simp add: digit_char_0)
  show ?case
  proof (cases "n < 10")
    case True
    then show ?thesis using 1(2) by (subst dec.simps) (simp add: z digit_char_inject)
  next
    case False
    then show ?thesis using 1(1) by (subst dec.simps) (simp add: hd_append)
  qed
qed

lemma length_dec: "n < 10 ^ k \<Longrightarrow> 0 < k \<Longrightarrow> length (dec n) \<le> k"
proof (induction n arbitrary: k rule: dec.induct)
  case (1 n)
  show ?case
  proof (cases "n < 10")
    case True
    then show ?thesis using 1(3) by (subst dec.simps) simp
  next
    case False
    obtain j where k: "k = Suc j" using 1(3) by (cases k) auto
    have "0 < j" using False 1(2) k by (cases j) auto
    moreover have "n div 10 < 10 ^ j" using 1(2) k by (simp add: div_less_iff_less_mult mult.commute)
    ultimately have "length (dec (n div 10)) \<le> j" using 1(1) False by simp
    then show ?thesis using k False by (subst dec.simps) simp
  qed
qed

section \<open>Reading numbers\<close>

definition is_space :: "char \<Rightarrow> bool" where
  "is_space c = (let n = of_char c :: nat in n = 32 \<or> 9 \<le> n \<and> n \<le> 13)"

text \<open>The base that a prefix asks for, and the string without it.\<close>

definition strtoul_base :: "string \<Rightarrow> nat \<times> string" where
  "strtoul_base s =
     (if s = [] \<or> hd s \<noteq> CHR ''0'' then (10, s)
      else if 2 < length s \<and> (s ! 1 = CHR ''x'' \<or> s ! 1 = CHR ''X'') \<and> is_digit 16 (s ! 2) then (16, drop 2 s)
      else (8, s))"

text \<open>
  \<open>strtoul (s, NULL, 0)\<close> and \<open>strtoull (s, NULL, 0)\<close> with 64-bit results: white space and a sign are skipped; a
  number out of range yields the largest value.
\<close>

definition strtoul :: "string \<Rightarrow> u64" where
  "strtoul s =
     (let s = dropWhile is_space s;
          neg = (s \<noteq> [] \<and> hd s = CHR ''-'');
          s = (if s \<noteq> [] \<and> (hd s = CHR ''-'' \<or> hd s = CHR ''+'') then tl s else s);
          (base, s) = strtoul_base s;
          n = digits_val base (takeWhile (is_digit base) s)
      in if 2 ^ 64 \<le> n then -1 else if neg then - of_nat n else of_nat n)"

lemma strtoul_dec: "n < 2 ^ 64 \<Longrightarrow> strtoul (dec n) = of_nat n"
proof -
  assume n: "n < 2 ^ 64"
  obtain c s where cs: "dec n = c # s" using dec_not_Nil [of n] by (cases "dec n") auto
  have "is_digit 10 c" using dec_digits [of c n] cs by simp
  then have c: "48 \<le> (of_char c :: nat)" "(of_char c :: nat) \<le> 57"
    by (auto simp: is_digit_def digit_val_def Let_def split: if_splits)
  have ne: "c \<noteq> d" if "of_char d < (48::nat)" for d using c(1) that by auto
  have skip: "\<not> is_space c" "c \<noteq> CHR ''-''" "c \<noteq> CHR ''+''"
    using c ne [of "CHR ''-''"] ne [of "CHR ''+''"] by (auto simp: is_space_def Let_def)
  show ?thesis
  proof (cases "n = 0")
    case True
    then have "dec n = ''0''" by (simp add: dec.simps digit_char_0)
    then show ?thesis
      using True by (simp add: strtoul_def strtoul_base_def is_space_def digits_val_def digit_val_def is_digit_def)
  next
    case False
    then have "strtoul_base (dec n) = (10, dec n)" using hd_dec [of n] by (simp add: strtoul_base_def)
    moreover have "takeWhile (is_digit 10) (dec n) = dec n"
      using dec_digits by (simp add: takeWhile_eq_all_conv)
    moreover have "digits_val 10 (c # s) = n" using digits_val_dec [of n] cs by simp
    ultimately show ?thesis using n skip cs by (simp add: strtoul_def Let_def split del: if_split)
  qed
qed

section \<open>Suboptions\<close>

text \<open>
  One call of \<open>getsubopt\<close>: the suboption is what comes before the next comma; its name is what comes before
  an equals sign in it. The result is the position of the name among the tokens, the value, and the string
  after the comma. For an unknown name the value is the whole suboption.
\<close>

definition getsubopt :: "string list \<Rightarrow> string \<Rightarrow> nat option \<times> string option \<times> string" where
  "getsubopt tokens s =
     (let item = takeWhile (\<lambda>c. c \<noteq> CHR '','') s;
          rest = drop (Suc (length item)) s;
          name = takeWhile (\<lambda>c. c \<noteq> CHR ''='') item
      in if name \<in> set tokens
         then (Some (length (takeWhile (\<lambda>t. t \<noteq> name) tokens)),
               (if name = item then None else Some (drop (Suc (length name)) item)), rest)
         else (None, Some item, rest))"

lemma getsubopt_rest: "getsubopt tokens s = (i, v, rest) \<Longrightarrow> rest = drop (Suc (length (takeWhile (\<lambda>c. c \<noteq> CHR '','') s))) s"
  by (simp add: getsubopt_def Let_def split: if_splits)

lemma getsubopt_shorter: "s \<noteq> [] \<Longrightarrow> getsubopt tokens s = (i, v, rest) \<Longrightarrow> length rest < length s"
  by (frule getsubopt_rest) (cases s; simp)

section \<open>File names\<close>

text \<open>\<open>strrchr (s, c)\<close>: the string from the last \<open>c\<close> on.\<close>

fun strrchr :: "string \<Rightarrow> char \<Rightarrow> string option" where
  "strrchr [] c = None"
| "strrchr (x # s) c = (case strrchr s c of Some t \<Rightarrow> Some t | None \<Rightarrow> if x = c then Some (x # s) else None)"

lemma strrchr_None: "strrchr s c = None \<longleftrightarrow> c \<notin> set s"
  by (induction s) (auto split: option.splits)

lemma strrchr_Some: "strrchr s c = Some t \<Longrightarrow> \<exists>p r. s = p @ c # r \<and> t = c # r \<and> c \<notin> set r"
proof (induction s arbitrary: t)
  case (Cons x s)
  show ?case
  proof (cases "strrchr s c")
    case None
    then have "c \<notin> set s" by (simp add: strrchr_None)
    moreover have "x = c" "t = c # s" using Cons.prems None by (auto split: if_splits)
    ultimately show ?thesis by (intro exI [of _ "[]"] exI [of _ s]) simp
  next
    case (Some u)
    then have "t = u" using Cons.prems by simp
    with Cons.IH [OF Some] obtain p r where "s = p @ c # r" "t = c # r" "c \<notin> set r" by auto
    then show ?thesis by (intro exI [of _ "x # p"] exI [of _ r]) simp
  qed
qed simp

end
