(* ===== verification/Options.thy ===== *)
theory Options
  imports C_String
begin

text \<open>
  \<^verbatim>\<open>src/gpio/options.c\<close>: the command line. \<open>getopt_long\<close> itself is the platform's; the model starts from the
  options it reports, in order. What the program prints is a list of lines.
\<close>

section \<open>The arguments\<close>

record virtio_args =
  args_idx :: u32
  args_mem :: u64
  args_irq :: u32
  args_qsize :: u32

datatype line = Stdout string | Stderr string

definition print_usage :: "string \<Rightarrow> line list" where
  "print_usage prog = map Stdout
     [''Usage: '' @ prog @ '' [options]'',
      ''Options:'',
      ''  --virtio idx=<num>,mem=<addr>,irq=<num>,qsize=<num>'',
      ''           Configure VirtIO device parameters'',
      ''           idx    - Index number'',
      ''           mem    - Memory address'',
      ''           irq    - IRQ number'',
      ''           qsize  - Queue size'',
      ''  -h, --help  Show this help message'']"

definition virtio_tokens :: "string list" where
  "virtio_tokens = [''idx'', ''mem'', ''irq'', ''qsize'']"

abbreviation VIRTIO_OPT_IDX :: nat where "VIRTIO_OPT_IDX \<equiv> 0"
abbreviation VIRTIO_OPT_MEM :: nat where "VIRTIO_OPT_MEM \<equiv> 1"
abbreviation VIRTIO_OPT_IRQ :: nat where "VIRTIO_OPT_IRQ \<equiv> 2"
abbreviation VIRTIO_OPT_QSIZE :: nat where "VIRTIO_OPT_QSIZE \<equiv> 3"

text \<open>The body of the loop: the arguments after one suboption, or the error message.\<close>

definition virtio_arg :: "nat option \<Rightarrow> string option \<Rightarrow> virtio_args \<Rightarrow> string + virtio_args" where
  "virtio_arg opt v args =
     (if opt = Some VIRTIO_OPT_IDX then
        (case v of None \<Rightarrow> Inl ''Missing value for pci option''
                 | Some v \<Rightarrow> Inr (args\<lparr> args_idx := ucast (strtoul v) \<rparr>))
      else if opt = Some VIRTIO_OPT_MEM then
        (case v of None \<Rightarrow> Inl ''Missing value for mem option''
                 | Some v \<Rightarrow> Inr (args\<lparr> args_mem := strtoul v \<rparr>))
      else if opt = Some VIRTIO_OPT_IRQ then
        (case v of None \<Rightarrow> Inl ''Missing value for irq option''
                 | Some v \<Rightarrow> Inr (args\<lparr> args_irq := ucast (strtoul v) \<rparr>))
      else if opt = Some VIRTIO_OPT_QSIZE then
        (case v of None \<Rightarrow> Inl ''Missing value for qsize option''
                 | Some v \<Rightarrow> Inr (args\<lparr> args_qsize := ucast (strtoul v) \<rparr>))
      else Inl (''Unknown virtio suboption: '' @ (case v of None \<Rightarrow> ''(null)'' | Some v \<Rightarrow> v)))"

function parse_virtio_args :: "string \<Rightarrow> virtio_args \<Rightarrow> int \<times> virtio_args \<times> line list" where
  "parse_virtio_args subopts args =
     (if subopts = [] then (0, args, [])
      else
        let (opt, v, rest) = getsubopt virtio_tokens subopts
        in case virtio_arg opt v args of
             Inl msg \<Rightarrow> (-1, args, [Stderr msg])
           | Inr args \<Rightarrow> parse_virtio_args rest args)"
  by auto
termination
  by (relation "measure (\<lambda>(s, _). length s)") (use getsubopt_shorter in \<open>auto dest: sym\<close>)

declare parse_virtio_args.simps [simp del]

text \<open>
  The options as \<open>getopt_long\<close> returns them, before its final \<open>-1\<close>: \<open>v\<close> with its argument, \<open>h\<close>, or
  anything else (an unknown option, a missing argument).
\<close>

datatype getopt = Opt_v string | Opt_h | Opt_other

fun parse_options :: "string \<Rightarrow> getopt list \<Rightarrow> virtio_args \<Rightarrow> int \<times> virtio_args \<times> line list" where
  "parse_options prog [] args = (0, args, [])"
| "parse_options prog (Opt_v optarg # opts) args =
     (let (rc, args, out) = parse_virtio_args optarg args
      in if rc \<noteq> 0 then (-1, args, out @ Stderr ''Error parsing virtio arguments'' # print_usage prog)
      else let (rc, args, out') = parse_options prog opts args in (rc, args, out @ out'))"
| "parse_options prog (Opt_h # opts) args = (1, args, print_usage prog)"
| "parse_options prog (Opt_other # opts) args = (-1, args, print_usage prog)"

section \<open>Reference parser\<close>

text \<open>
  What the argument of \<open>--virtio\<close> means, item by item: the items are what the commas separate (nothing after a
  final comma), an item is acceptable when it is one of the four names with an equals sign, and
  it then assigns the number after the sign.
\<close>

fun split_on :: "char \<Rightarrow> string \<Rightarrow> string list" where
  "split_on c [] = [[]]"
| "split_on c (x # s) = (if x = c then [] # split_on c s else (x # hd (split_on c s)) # tl (split_on c s))"

definition items :: "string \<Rightarrow> string list" where
  "items s = (let xs = split_on CHR '','' s in if last xs = [] then butlast xs else xs)"

abbreviation item_name :: "string \<Rightarrow> string" where
  "item_name i \<equiv> takeWhile (\<lambda>c. c \<noteq> CHR ''='') i"

abbreviation item_value :: "string \<Rightarrow> u64" where
  "item_value i \<equiv> strtoul (tl (dropWhile (\<lambda>c. c \<noteq> CHR ''='') i))"

definition item_ok :: "string \<Rightarrow> bool" where
  "item_ok i \<longleftrightarrow> CHR ''='' \<in> set i \<and> item_name i \<in> {''idx'', ''mem'', ''irq'', ''qsize''}"

definition assign :: "virtio_args \<Rightarrow> string \<Rightarrow> virtio_args" where
  "assign args i =
     (if item_name i = ''idx'' then args\<lparr> args_idx := ucast (item_value i) \<rparr>
      else if item_name i = ''mem'' then args\<lparr> args_mem := item_value i \<rparr>
      else if item_name i = ''irq'' then args\<lparr> args_irq := ucast (item_value i) \<rparr>
      else args\<lparr> args_qsize := ucast (item_value i) \<rparr>)"

lemma split_on_not_Nil [simp]: "split_on c s \<noteq> []"
  by (cases s) auto

lemma split_on_step:
  "split_on c s = takeWhile (\<lambda>x. x \<noteq> c) s #
     (if c \<in> set s then split_on c (drop (Suc (length (takeWhile (\<lambda>x. x \<noteq> c) s))) s) else [])"
  by (induction s) auto

lemma items_Nil [simp]: "items [] = []"
  by (simp add: items_def)

lemma items_step:
  assumes "s \<noteq> []"
  shows "items s = takeWhile (\<lambda>x. x \<noteq> CHR '','') s # items (drop (Suc (length (takeWhile (\<lambda>x. x \<noteq> CHR '','') s))) s)"
proof (cases "CHR '','' \<in> set s")
  case True
  then show ?thesis by (subst items_def, subst split_on_step) (simp add: items_def Let_def)
next
  case False
  then have tw: "takeWhile (\<lambda>x. x \<noteq> CHR '','') s = s" by (auto simp: takeWhile_eq_all_conv)
  show ?thesis using assms False by (subst items_def, subst split_on_step) (simp add: tw Let_def)
qed

lemma name_item: "takeWhile P i = i \<longleftrightarrow> (\<forall>c \<in> set i. P c)"
  by (rule takeWhile_eq_all_conv)

lemma drop_name: "drop (Suc (length (item_name i))) i = tl (dropWhile (\<lambda>c. c \<noteq> CHR ''='') i)"
  by (metis drop_Suc dropWhile_eq_drop tl_drop)

text \<open>One suboption of the code is one item of the reference.\<close>

lemma virtio_arg_item:
  assumes "getsubopt virtio_tokens s = (opt, v, rest)"
  shows "if item_ok (takeWhile (\<lambda>c. c \<noteq> CHR '','') s)
         then virtio_arg opt v args = Inr (assign args (takeWhile (\<lambda>c. c \<noteq> CHR '','') s))
         else \<exists>msg. virtio_arg opt v args = Inl msg"
proof -
  let ?i = "takeWhile (\<lambda>c. c \<noteq> CHR '','') s"
  have eq: "item_name ?i = ?i \<longleftrightarrow> CHR ''='' \<notin> set ?i" by (auto simp: name_item)
  show ?thesis
    using assms eq
    by (auto simp: getsubopt_def virtio_tokens_def virtio_arg_def item_ok_def assign_def drop_name Let_def split: if_splits)
qed

lemma parse_virtio_args_run:
  "let good = takeWhile item_ok (items s)
   in if good = items s then parse_virtio_args s args = (0, foldl assign args good, [])
      else \<exists>msg. parse_virtio_args s args = (-1, foldl assign args good, [Stderr msg])"
proof (induction s args rule: parse_virtio_args.induct)
  case (1 s args)
  show ?case
  proof (cases "s = []")
    case True
    then show ?thesis by (simp add: parse_virtio_args.simps)
  next
    case False
    obtain opt v rest where g: "getsubopt virtio_tokens s = (opt, v, rest)" by (metis prod_cases3)
    let ?i = "takeWhile (\<lambda>c. c \<noteq> CHR '','') s"
    have it: "items s = ?i # items rest"
      using items_step [OF False] getsubopt_rest [OF g] by simp
    show ?thesis
    proof (cases "item_ok ?i")
      case True
      then have a: "virtio_arg opt v args = Inr (assign args ?i)" using virtio_arg_item [OF g, of args] by simp
      have "parse_virtio_args s args = parse_virtio_args rest (assign args ?i)"
        using False g a by (subst parse_virtio_args.simps) simp
      then show ?thesis
        using 1 [OF False g [symmetric] refl refl a] True by (simp add: it Let_def)
    next
      case bad: False
      then obtain msg where "virtio_arg opt v args = Inl msg" using virtio_arg_item [OF g, of args] by auto
      then have "parse_virtio_args s args = (-1, args, [Stderr msg])"
        using False g by (subst parse_virtio_args.simps) simp
      then show ?thesis using bad by (simp add: it)
    qed
  qed
qed

text \<open>
  C23: \<open>parse_virtio_args\<close> is the reference parser. It assigns the acceptable items before the first one that is
  not, in order, so that the last of several values for a name holds; it returns 0 exactly when all
  items are acceptable and otherwise -1 with a message, the items before the bad one applied.
\<close>

theorem parse_virtio_args_reference:
  "let good = takeWhile item_ok (items s)
   in if good = items s then parse_virtio_args s args = (0, foldl assign args good, [])
      else \<exists>msg. parse_virtio_args s args = (-1, foldl assign args good, [Stderr msg])"
  by (rule parse_virtio_args_run)

section \<open>Printed arguments\<close>

definition render :: "virtio_args \<Rightarrow> string" where
  "render a =
     ''idx='' @ dec (unat (args_idx a)) @ '',mem='' @ dec (unat (args_mem a)) @
     '',irq='' @ dec (unat (args_irq a)) @ '',qsize='' @ dec (unat (args_qsize a))"

lemma items_append: "CHR '','' \<notin> set i \<Longrightarrow> items (i @ CHR '','' # s) = i # items s"
  using items_step [of "i @ CHR '','' # s"] by (simp add: takeWhile_append2 cong: conj_cong) (auto simp: takeWhile_append)

lemma items_single: "i \<noteq> [] \<Longrightarrow> CHR '','' \<notin> set i \<Longrightarrow> items i = [i]"
proof -
  assume i: "i \<noteq> []" "CHR '','' \<notin> set i"
  then have tw: "takeWhile (\<lambda>x. x \<noteq> CHR '','') i = i" by (auto simp: takeWhile_eq_all_conv)
  show ?thesis using items_step [OF i(1)] by (simp add: tw)
qed

lemma dec_plain: "\<not> is_digit 10 c \<Longrightarrow> c \<notin> set (dec n)"
  using dec_digits by blast

lemma dec_no_comma [simp]: "CHR '','' \<notin> set (dec n)"
  by (rule dec_plain) (simp add: is_digit_def digit_val_def)

lemma items_render:
  "items (render a) =
     [''idx='' @ dec (unat (args_idx a)), ''mem='' @ dec (unat (args_mem a)),
      ''irq='' @ dec (unat (args_irq a)), ''qsize='' @ dec (unat (args_qsize a))]"
proof -
  have r: "render a = (''idx='' @ dec (unat (args_idx a))) @ CHR '','' # (''mem='' @ dec (unat (args_mem a))) @ CHR '','' #
      (''irq='' @ dec (unat (args_irq a))) @ CHR '','' # (''qsize='' @ dec (unat (args_qsize a)))"
    by (simp add: render_def)
  have no: "CHR '','' \<notin> set (''idx='' @ dec n)" "CHR '','' \<notin> set (''mem='' @ dec n)" "CHR '','' \<notin> set (''irq='' @ dec n)"
      "CHR '','' \<notin> set (''qsize='' @ dec n)" "''qsize='' @ dec n \<noteq> []" for n
    by simp_all
  show ?thesis unfolding r items_append [OF no(1)] items_append [OF no(2)] items_append [OF no(3)]
      items_single [OF no(5,4)] ..
qed

lemma parse_virtio_args_rendered: "parse_virtio_args (render a) args = (0, a, [])"
proof -
  have lt: "unat (x::u32) < 2 ^ 64" "unat (y::u64) < 2 ^ 64" for x y
    using unsigned_less [of x, where 'a = nat] unsigned_less [of y, where 'a = nat] by simp_all
  have low: "ucast (ucast (x::u32) :: u64) = x" for x
    by (rule bit_word_eqI) (simp add: bit_simps)
  have ok: "takeWhile item_ok (items (render a)) = items (render a)"
    by (simp add: items_render item_ok_def)
  have "foldl assign args (items (render a)) = a"
    by (simp add: items_render assign_def strtoul_dec [OF lt(1)] strtoul_dec [OF lt(2)] low)
  then show ?thesis using parse_virtio_args_run [of "render a" args] by (simp add: ok Let_def)
qed

text \<open>
  Any four values survive the command line. Printed in decimal as a \<open>--virtio\<close> argument, each at its
  own width, they are what \<open>parse_virtio_args\<close> reads back, whatever the arguments were before.
\<close>

theorem parse_virtio_args_render: "parse_virtio_args (render a) args = (0, a, [])"
  by (rule parse_virtio_args_rendered)

end
