(* ===== verification/Logging.thy ===== *)
theory Logging
  imports C_String
begin

text \<open>
  \<^verbatim>\<open>utils/logging/logging.c\<close>: the logging context, its mutex and its three operations. \<open>slog2\<close> and the mutex are
  the platform's: their calls are events, their results come from \<open>log_env\<close>. The text that
  \<open>vsnprintf\<close> makes of the format and its arguments is an argument of \<open>logging_log_impl\<close>.
\<close>

section \<open>Levels and flags\<close>

text \<open>The severities of \<^verbatim>\<open>sys/slog2.h\<close>.\<close>

abbreviation (input) SLOG2_SHUTDOWN :: int where "SLOG2_SHUTDOWN \<equiv> 0"
abbreviation (input) SLOG2_CRITICAL :: int where "SLOG2_CRITICAL \<equiv> 1"
abbreviation (input) SLOG2_ERROR :: int where "SLOG2_ERROR \<equiv> 2"
abbreviation (input) SLOG2_WARNING :: int where "SLOG2_WARNING \<equiv> 3"
abbreviation (input) SLOG2_NOTICE :: int where "SLOG2_NOTICE \<equiv> 4"
abbreviation (input) SLOG2_INFO :: int where "SLOG2_INFO \<equiv> 5"
abbreviation (input) SLOG2_DEBUG1 :: int where "SLOG2_DEBUG1 \<equiv> 6"
abbreviation (input) SLOG2_DEBUG2 :: int where "SLOG2_DEBUG2 \<equiv> 7"

definition LOG_FLAG_NONE :: u32 where "LOG_FLAG_NONE = 0"
definition LOG_FLAG_STDOUT :: u32 where "LOG_FLAG_STDOUT = push_bit 0 1"

section \<open>The context\<close>

record logging_ctx =
  log_initialized :: bool
  log_flags :: u32
  log_buffer :: ptr

definition g_log_ctx :: logging_ctx where
  "g_log_ctx = \<lparr> log_initialized = False, log_flags = LOG_FLAG_NONE, log_buffer = 0 \<rparr>"

record slog2_config =
  buffer_set_name :: string
  num_buffers :: int
  verbosity_level :: int
  buffer_name :: string
  num_pages :: int

datatype log_event =
    Mutex_lock rc
  | Mutex_unlock
  | Slog2_register slog2_config rc
  | Slog2_reset
  | Slog2f ptr int string
  | Printed string

text \<open>
  \<open>slog2_register\<close> returns a result and, when it stores one, the handle of the buffer.
\<close>

record log_env =
  le_mutex_lock :: "log_event list \<Rightarrow> rc"
  le_register :: "log_event list \<Rightarrow> slog2_config \<Rightarrow> rc \<times> ptr option"

section \<open>Operations\<close>

definition get_severity_name :: "int \<Rightarrow> string" where
  "get_severity_name severity =
     (if severity = SLOG2_SHUTDOWN then ''EMERG''
      else if severity = SLOG2_CRITICAL then ''CRIT''
      else if severity = SLOG2_ERROR then ''ERROR''
      else if severity = SLOG2_WARNING then ''WARNING''
      else if severity = SLOG2_NOTICE then ''NOTICE''
      else if severity = SLOG2_INFO then ''INFO''
      else if severity = SLOG2_DEBUG1 then ''DEBUG''
      else ''UNKNOWN'')"

definition logging_init ::
  "log_env \<Rightarrow> string option \<Rightarrow> u32 \<Rightarrow> logging_ctx \<Rightarrow> log_event list \<Rightarrow> rc \<times> logging_ctx \<times> log_event list" where
  "logging_init env ident flags ctx h =
     (case ident of
        None \<Rightarrow> (EINVAL, ctx, h)
      | Some ident \<Rightarrow>
          let ret = le_mutex_lock env h; h = Mutex_lock ret # h
          in if ret \<noteq> EOK then (ret, ctx, h)
          else if log_initialized ctx then (EALREADY, ctx, Mutex_unlock # h)
          else
            let config = \<lparr> buffer_set_name = ident, num_buffers = 1, verbosity_level = SLOG2_DEBUG2,
                           buffer_name = ''main'', num_pages = 8 \<rparr>;
                (ret, buf) = le_register env h config;
                h = Slog2_register config ret # h;
                ctx = (case buf of None \<Rightarrow> ctx | Some b \<Rightarrow> ctx\<lparr> log_buffer := b \<rparr>)
            in if ret \<noteq> EOK then (ret, ctx, Mutex_unlock # h)
            else (EOK, ctx\<lparr> log_flags := flags, log_initialized := True \<rparr>, Mutex_unlock # h))"

definition logging_shutdown :: "log_env \<Rightarrow> logging_ctx \<Rightarrow> log_event list \<Rightarrow> logging_ctx \<times> log_event list" where
  "logging_shutdown env ctx h =
     (let h = Mutex_lock (le_mutex_lock env h) # h
      in if log_initialized ctx
         then (ctx\<lparr> log_buffer := 0, log_initialized := False, log_flags := LOG_FLAG_NONE \<rparr>,
               Mutex_unlock # Slog2_reset # h)
         else (ctx, Mutex_unlock # h))"

text \<open>The name after the last slash.\<close>

definition basename :: "string \<Rightarrow> string" where
  "basename file = (case strrchr file CHR ''/'' of Some s \<Rightarrow> tl s | None \<Rightarrow> file)"

text \<open>
  \<open>formatted\<close> is what \<open>vsnprintf\<close> makes of the format, \<open>None\<close> for an encoding error; the message is what
  fits 1024 characters with the terminating zero.
\<close>

definition logging_log_impl ::
  "int \<Rightarrow> string \<Rightarrow> int \<Rightarrow> string option \<Rightarrow> logging_ctx \<Rightarrow> log_event list \<Rightarrow> log_event list" where
  "logging_log_impl severity file line formatted ctx h =
     (if \<not> log_initialized ctx \<or> log_buffer ctx = 0 then h
      else
        case formatted of
          None \<Rightarrow> h
        | Some text \<Rightarrow>
            let message = take 1023 text;
                h = Slog2f (log_buffer ctx) severity (''['' @ file @ '':'' @ sdec line @ ''] '' @ message) # h
            in if log_flags ctx AND LOG_FLAG_STDOUT \<noteq> 0
               then Printed (''['' @ get_severity_name severity @ ''] ['' @ basename file @ '':'' @ sdec line @ ''] '' @ message) # h
               else h)"

section \<open>The context is well formed\<close>

text \<open>One call of the library's interface, from any thread; the calls follow one another.\<close>

inductive log_step :: "log_env \<Rightarrow> logging_ctx \<times> log_event list \<Rightarrow> logging_ctx \<times> log_event list \<Rightarrow> bool"
  for env where
  Init: "logging_init env ident flags ctx h = (rc, ctx', h') \<Longrightarrow> log_step env (ctx, h) (ctx', h')"
| Shutdown: "logging_shutdown env ctx h = (ctx', h') \<Longrightarrow> log_step env (ctx, h) (ctx', h')"
| Log: "logging_log_impl severity file line formatted ctx h = h' \<Longrightarrow> log_step env (ctx, h) (ctx, h')"

inductive_cases log_stepE: "log_step env st st'"

text \<open>How often the mutex is held.\<close>

fun mutex_held :: "log_event list \<Rightarrow> int" where
  "mutex_held [] = 0"
| "mutex_held (Mutex_lock rc # h) = mutex_held h + (if rc = EOK then 1 else 0)"
| "mutex_held (Mutex_unlock # h) = mutex_held h - 1"
| "mutex_held (_ # h) = mutex_held h"

definition registered :: "log_event list \<Rightarrow> bool" where
  "registered h \<longleftrightarrow>
     (case filter (\<lambda>e. case e of Slog2_register _ rc \<Rightarrow> rc = EOK | Slog2_reset \<Rightarrow> True | _ \<Rightarrow> False) h of
        Slog2_register _ _ # _ \<Rightarrow> True
      | _ \<Rightarrow> False)"

text \<open>
  A context that is not initialised has no flags; one that is belongs to the last registration, and
  the mutex is free. \<open>slog2_register\<close> stores a handle exactly with its success.
\<close>

definition log_ok :: "logging_ctx \<Rightarrow> log_event list \<Rightarrow> bool" where
  "log_ok ctx h \<longleftrightarrow>
     (log_initialized ctx \<longleftrightarrow> registered h) \<and> (log_initialized ctx \<longleftrightarrow> log_buffer ctx \<noteq> 0) \<and>
     (\<not> log_initialized ctx \<longrightarrow> log_flags ctx = LOG_FLAG_NONE) \<and> mutex_held h = 0"

definition log_env_ok :: "log_env \<Rightarrow> bool" where
  "log_env_ok env \<longleftrightarrow>
     (\<forall>h. le_mutex_lock env h = EOK) \<and>
     (\<forall>h c. (\<exists>b. le_register env h c = (EOK, Some b) \<and> b \<noteq> 0) \<or> (\<exists>rc. le_register env h c = (rc, None) \<and> rc \<noteq> EOK))"

lemma registered_simps [simp]:
  "\<not> registered []" "registered (Mutex_lock rc # h) = registered h" "registered (Mutex_unlock # h) = registered h"
  "registered (Slog2_register c rc # h) = (rc = EOK \<or> registered h)" "\<not> registered (Slog2_reset # h)"
  "registered (Slog2f p sv s # h) = registered h" "registered (Printed s # h) = registered h"
  by (simp_all add: registered_def)

lemma log_ok_init:
  assumes "log_env_ok env" and "log_ok ctx h" and "logging_init env ident flags ctx h = (rc, ctx', h')"
  shows "log_ok ctx' h'"
proof (cases ident)
  case None
  then show ?thesis using assms by (simp add: logging_init_def)
next
  case (Some name)
  let ?c = "\<lparr> buffer_set_name = name, num_buffers = 1, verbosity_level = SLOG2_DEBUG2, buffer_name = ''main'', num_pages = 8 \<rparr>"
  have l: "le_mutex_lock env h = EOK" using assms(1) by (simp add: log_env_ok_def)
  consider b where "le_register env (Mutex_lock EOK # h) ?c = (EOK, Some b)" "b \<noteq> 0"
    | r where "le_register env (Mutex_lock EOK # h) ?c = (r, None)" "r \<noteq> EOK"
    using assms(1) unfolding log_env_ok_def by meson
  then show ?thesis
    using assms(2,3) Some l by cases (auto simp: logging_init_def log_ok_def Let_def split: if_splits)
qed

lemma log_ok_shutdown:
  "log_env_ok env \<Longrightarrow> log_ok ctx h \<Longrightarrow> logging_shutdown env ctx h = (ctx', h') \<Longrightarrow> log_ok ctx' h'"
  by (auto simp: logging_shutdown_def log_ok_def log_env_ok_def Let_def split: if_splits)

lemma log_ok_log: "log_ok ctx h \<Longrightarrow> log_ok ctx (logging_log_impl severity file line formatted ctx h)"
  by (auto simp: logging_log_impl_def log_ok_def Let_def split: option.split)

text \<open>
  C36: the logging context stays well typed. After every sequence of calls of the library, from its
  static initial value on, the context says it is initialised exactly when a registration with
  \<open>slog2\<close> succeeded and no reset followed, exactly then it has a buffer, without one it has no flags, and
  the mutex is free.
\<close>

theorem logging_ctx_ok:
  assumes "log_env_ok env" and "(log_step env)\<^sup>*\<^sup>* (g_log_ctx, []) (ctx, h)"
  shows "log_ok ctx h"
  using assms(2)
proof (induction ctx h rule: rtranclp_induct2)
  case refl
  then show ?case by (simp add: log_ok_def g_log_ctx_def)
next
  case (step ctx h ctx' h')
  from step(2,3) show ?case
    by (elim log_stepE) (auto dest: log_ok_init [OF assms(1)] log_ok_shutdown [OF assms(1)] intro: log_ok_log)
qed

definition log_env0 :: log_env where
  "log_env0 = \<lparr> le_mutex_lock = (\<lambda>h. 0), le_register = (\<lambda>h c. (0, Some 0x5000)) \<rparr>"

theorem logging_ctx_ok_witness:
  "log_ok (fst (snd (logging_init log_env0 (Some ''dev-virtio-gpio'') 1 g_log_ctx [])))
     (snd (snd (logging_init log_env0 (Some ''dev-virtio-gpio'') 1 g_log_ctx [])))"
proof (rule logging_ctx_ok)
  show "log_env_ok log_env0" by (simp add: log_env_ok_def log_env0_def)
  show "(log_step log_env0)\<^sup>*\<^sup>* (g_log_ctx, [])
      (fst (snd (logging_init log_env0 (Some ''dev-virtio-gpio'') 1 g_log_ctx [])),
       snd (snd (logging_init log_env0 (Some ''dev-virtio-gpio'') 1 g_log_ctx [])))"
    by (rule r_into_rtranclp, rule log_step.Init [where rc = "fst (logging_init log_env0 (Some ''dev-virtio-gpio'') 1 g_log_ctx [])"]) simp
qed

section \<open>File names\<close>

text \<open>\<open>basename\<close> is the last component of a path: the rest is empty or ends in a slash.\<close>

lemma basename_spec:
  "(\<exists>dir. file = dir @ basename file \<and> (dir = [] \<or> last dir = CHR ''/'')) \<and> CHR ''/'' \<notin> set (basename file)"
proof (cases "strrchr file CHR ''/''")
  case None
  moreover have "CHR ''/'' \<notin> set file" using None strrchr_None by blast
  ultimately show ?thesis by (simp add: basename_def del: strrchr_None)
next
  case (Some t)
  from strrchr_Some [OF this] obtain p r where "file = p @ CHR ''/'' # r" "t = CHR ''/'' # r" "CHR ''/'' \<notin> set r" by auto
  then show ?thesis using Some by (auto simp: basename_def intro!: exI [of _ "p @ ''/''"])
qed

end
