(* ===== verification/Gpio_Uapi.thy ===== *)
theory Gpio_Uapi
  imports Prelude
begin

text \<open>
  \<^verbatim>\<open>src/gpio/uapi/gpio.h\<close>: the interface to the clients of the files under \<^verbatim>\<open>/dev\<close>. The structures the header
  declares are values of \<open>ctype\<close>, laid out in memory by the rules of the C ABIs of the targets; its
  enumerations and macros are datatypes with their values. The alignment of a plain \<^verbatim>\<open>uint64_t\<close> is a parameter:
  8 on the 64-bit targets, 4 on a 32-bit one. The macros \<^verbatim>\<open>_IOR\<close> and \<^verbatim>\<open>_IOWR\<close> of \<^verbatim>\<open><sys/ioctl.h>\<close> are a parameter, too.
\<close>

section \<open>Layout of C types\<close>

text \<open>\<open>Aligned n\<close> is the attribute \<^verbatim>\<open>aligned(n)\<close> on a member.\<close>

datatype ctype =
    Char | UInt8 | UInt32 | Int32 | UInt64
  | Aligned nat ctype
  | Arr nat ctype
  | Struct "(string \<times> ctype) list"
  | Union "(string \<times> ctype) list"

text \<open>The next multiple of \<open>a\<close>.\<close>

definition pad :: "nat \<Rightarrow> nat \<Rightarrow> nat" where
  "pad a n = (n + (a - 1)) div a * a"

fun align_of :: "nat \<Rightarrow> ctype \<Rightarrow> nat" and align_max :: "nat \<Rightarrow> (string \<times> ctype) list \<Rightarrow> nat" where
  "align_of w Char = 1"
| "align_of w UInt8 = 1"
| "align_of w UInt32 = 4"
| "align_of w Int32 = 4"
| "align_of w UInt64 = w"
| "align_of w (Aligned n t) = max n (align_of w t)"
| "align_of w (Arr n t) = align_of w t"
| "align_of w (Struct ms) = align_max w ms"
| "align_of w (Union ms) = align_max w ms"
| "align_max w [] = 1"
| "align_max w ((x, t) # ms) = max (align_of w t) (align_max w ms)"

text \<open>
  \<open>struct_end\<close> is the offset after the last of the members laid out from an offset on; the size of a
  structure is that, rounded up to its alignment.
\<close>

fun size_of :: "nat \<Rightarrow> ctype \<Rightarrow> nat"
  and struct_end :: "nat \<Rightarrow> nat \<Rightarrow> (string \<times> ctype) list \<Rightarrow> nat"
  and union_end :: "nat \<Rightarrow> (string \<times> ctype) list \<Rightarrow> nat" where
  "size_of w Char = 1"
| "size_of w UInt8 = 1"
| "size_of w UInt32 = 4"
| "size_of w Int32 = 4"
| "size_of w UInt64 = 8"
| "size_of w (Aligned n t) = size_of w t"
| "size_of w (Arr n t) = n * size_of w t"
| "size_of w (Struct ms) = pad (align_max w ms) (struct_end w 0 ms)"
| "size_of w (Union ms) = pad (align_max w ms) (union_end w ms)"
| "struct_end w off [] = off"
| "struct_end w off ((x, t) # ms) = struct_end w (pad (align_of w t) off + size_of w t) ms"
| "union_end w [] = 0"
| "union_end w ((x, t) # ms) = max (size_of w t) (union_end w ms)"

text \<open>The members with their offsets.\<close>

fun members_at :: "nat \<Rightarrow> nat \<Rightarrow> (string \<times> ctype) list \<Rightarrow> (string \<times> nat \<times> ctype) list" where
  "members_at w off [] = []"
| "members_at w off ((x, t) # ms) =
     (let o' = pad (align_of w t) off in (x, o', t) # members_at w (o' + size_of w t) ms)"

fun layout :: "nat \<Rightarrow> ctype \<Rightarrow> (string \<times> nat \<times> ctype) list" where
  "layout w (Struct ms) = members_at w 0 ms"
| "layout w (Union ms) = map (\<lambda>(x, t). (x, 0, t)) ms"
| "layout w _ = []"

definition offset_of :: "nat \<Rightarrow> ctype \<Rightarrow> string \<Rightarrow> nat option" where
  "offset_of w t x = map_option fst (map_of (layout w t) x)"

text \<open>The bytes of a type that belong to some member, at any depth.\<close>

fun used_bytes :: "ctype \<Rightarrow> nat" and used_sum :: "(string \<times> ctype) list \<Rightarrow> nat" and used_max :: "(string \<times> ctype) list \<Rightarrow> nat" where
  "used_bytes Char = 1"
| "used_bytes UInt8 = 1"
| "used_bytes UInt32 = 4"
| "used_bytes Int32 = 4"
| "used_bytes UInt64 = 8"
| "used_bytes (Aligned n t) = used_bytes t"
| "used_bytes (Arr n t) = n * used_bytes t"
| "used_bytes (Struct ms) = used_sum ms"
| "used_bytes (Union ms) = used_max ms"
| "used_sum [] = 0"
| "used_sum ((x, t) # ms) = used_bytes t + used_sum ms"
| "used_max [] = 0"
| "used_max ((x, t) # ms) = max (used_bytes t) (used_max ms)"

section \<open>Version 2 of the interface\<close>

abbreviation (input) GPIO_MAX_NAME_SIZE :: nat where "GPIO_MAX_NAME_SIZE \<equiv> 32"

definition GPIO_V2_LINES_MAX :: nat where "GPIO_V2_LINES_MAX = 64"
definition GPIO_V2_LINE_NUM_ATTRS_MAX :: nat where "GPIO_V2_LINE_NUM_ATTRS_MAX = 10"

definition gpiochip_info_type :: ctype where
  "gpiochip_info_type = Struct
     [(''name'', Arr GPIO_MAX_NAME_SIZE Char), (''label'', Arr GPIO_MAX_NAME_SIZE Char), (''lines'', UInt32)]"

datatype gpio_v2_line_flag =
    GPIO_V2_LINE_FLAG_USED
  | GPIO_V2_LINE_FLAG_ACTIVE_LOW
  | GPIO_V2_LINE_FLAG_INPUT
  | GPIO_V2_LINE_FLAG_OUTPUT
  | GPIO_V2_LINE_FLAG_EDGE_RISING
  | GPIO_V2_LINE_FLAG_EDGE_FALLING
  | GPIO_V2_LINE_FLAG_OPEN_DRAIN
  | GPIO_V2_LINE_FLAG_OPEN_SOURCE
  | GPIO_V2_LINE_FLAG_BIAS_PULL_UP
  | GPIO_V2_LINE_FLAG_BIAS_PULL_DOWN
  | GPIO_V2_LINE_FLAG_BIAS_DISABLED
  | GPIO_V2_LINE_FLAG_EVENT_CLOCK_REALTIME
  | GPIO_V2_LINE_FLAG_EVENT_CLOCK_HTE

fun line_flag :: "gpio_v2_line_flag \<Rightarrow> u64" where
  "line_flag GPIO_V2_LINE_FLAG_USED = push_bit 0 1"
| "line_flag GPIO_V2_LINE_FLAG_ACTIVE_LOW = push_bit 1 1"
| "line_flag GPIO_V2_LINE_FLAG_INPUT = push_bit 2 1"
| "line_flag GPIO_V2_LINE_FLAG_OUTPUT = push_bit 3 1"
| "line_flag GPIO_V2_LINE_FLAG_EDGE_RISING = push_bit 4 1"
| "line_flag GPIO_V2_LINE_FLAG_EDGE_FALLING = push_bit 5 1"
| "line_flag GPIO_V2_LINE_FLAG_OPEN_DRAIN = push_bit 6 1"
| "line_flag GPIO_V2_LINE_FLAG_OPEN_SOURCE = push_bit 7 1"
| "line_flag GPIO_V2_LINE_FLAG_BIAS_PULL_UP = push_bit 8 1"
| "line_flag GPIO_V2_LINE_FLAG_BIAS_PULL_DOWN = push_bit 9 1"
| "line_flag GPIO_V2_LINE_FLAG_BIAS_DISABLED = push_bit 10 1"
| "line_flag GPIO_V2_LINE_FLAG_EVENT_CLOCK_REALTIME = push_bit 11 1"
| "line_flag GPIO_V2_LINE_FLAG_EVENT_CLOCK_HTE = push_bit 12 1"

definition gpio_v2_line_values_type :: ctype where
  "gpio_v2_line_values_type = Struct [(''bits'', Aligned 8 UInt64), (''mask'', Aligned 8 UInt64)]"

datatype gpio_v2_line_attr_id =
    GPIO_V2_LINE_ATTR_ID_FLAGS
  | GPIO_V2_LINE_ATTR_ID_OUTPUT_VALUES
  | GPIO_V2_LINE_ATTR_ID_DEBOUNCE

fun line_attr_id :: "gpio_v2_line_attr_id \<Rightarrow> u32" where
  "line_attr_id GPIO_V2_LINE_ATTR_ID_FLAGS = 1"
| "line_attr_id GPIO_V2_LINE_ATTR_ID_OUTPUT_VALUES = 2"
| "line_attr_id GPIO_V2_LINE_ATTR_ID_DEBOUNCE = 3"

text \<open>The union has no name.\<close>

definition gpio_v2_line_attribute_type :: ctype where
  "gpio_v2_line_attribute_type = Struct
     [(''id'', UInt32), (''padding'', UInt32),
      ('''', Union [(''flags'', Aligned 8 UInt64), (''values'', Aligned 8 UInt64), (''debounce_period_us'', UInt32)])]"

definition gpio_v2_line_config_attribute_type :: ctype where
  "gpio_v2_line_config_attribute_type = Struct
     [(''attr'', gpio_v2_line_attribute_type), (''mask'', Aligned 8 UInt64)]"

definition gpio_v2_line_config_type :: ctype where
  "gpio_v2_line_config_type = Struct
     [(''flags'', Aligned 8 UInt64), (''num_attrs'', UInt32), (''padding'', Arr 5 UInt32),
      (''attrs'', Arr GPIO_V2_LINE_NUM_ATTRS_MAX gpio_v2_line_config_attribute_type)]"

definition gpio_v2_line_request_type :: ctype where
  "gpio_v2_line_request_type = Struct
     [(''offsets'', Arr GPIO_V2_LINES_MAX UInt32), (''consumer'', Arr GPIO_MAX_NAME_SIZE Char),
      (''config'', gpio_v2_line_config_type), (''num_lines'', UInt32), (''event_buffer_size'', UInt32),
      (''padding'', Arr 5 UInt32), (''fd'', Int32)]"

definition gpio_v2_line_info_type :: ctype where
  "gpio_v2_line_info_type = Struct
     [(''name'', Arr GPIO_MAX_NAME_SIZE Char), (''consumer'', Arr GPIO_MAX_NAME_SIZE Char), (''offset'', UInt32),
      (''num_attrs'', UInt32), (''flags'', Aligned 8 UInt64),
      (''attrs'', Arr GPIO_V2_LINE_NUM_ATTRS_MAX gpio_v2_line_attribute_type), (''padding'', Arr 4 UInt32)]"

datatype gpio_v2_line_changed_type =
    GPIO_V2_LINE_CHANGED_REQUESTED
  | GPIO_V2_LINE_CHANGED_RELEASED
  | GPIO_V2_LINE_CHANGED_CONFIG

fun line_changed :: "gpio_v2_line_changed_type \<Rightarrow> u32" where
  "line_changed GPIO_V2_LINE_CHANGED_REQUESTED = 1"
| "line_changed GPIO_V2_LINE_CHANGED_RELEASED = 2"
| "line_changed GPIO_V2_LINE_CHANGED_CONFIG = 3"

definition gpio_v2_line_info_changed_type :: ctype where
  "gpio_v2_line_info_changed_type = Struct
     [(''info'', gpio_v2_line_info_type), (''timestamp_ns'', Aligned 8 UInt64), (''event_type'', UInt32),
      (''padding'', Arr 5 UInt32)]"

datatype gpio_v2_line_event_id = GPIO_V2_LINE_EVENT_RISING_EDGE | GPIO_V2_LINE_EVENT_FALLING_EDGE

fun line_event_id :: "gpio_v2_line_event_id \<Rightarrow> u32" where
  "line_event_id GPIO_V2_LINE_EVENT_RISING_EDGE = 1"
| "line_event_id GPIO_V2_LINE_EVENT_FALLING_EDGE = 2"

definition gpio_v2_line_event_type :: ctype where
  "gpio_v2_line_event_type = Struct
     [(''timestamp_ns'', Aligned 8 UInt64), (''id'', UInt32), (''offset'', UInt32), (''seqno'', UInt32),
      (''line_seqno'', UInt32), (''padding'', Arr 6 UInt32)]"

section \<open>Version 1 of the interface\<close>

definition GPIOHANDLES_MAX :: nat where "GPIOHANDLES_MAX = 64"

definition gpioline_info_type :: ctype where
  "gpioline_info_type = Struct
     [(''line_offset'', UInt32), (''flags'', UInt32), (''name'', Arr GPIO_MAX_NAME_SIZE Char),
      (''consumer'', Arr GPIO_MAX_NAME_SIZE Char)]"

definition gpioline_info_changed_type :: ctype where
  "gpioline_info_changed_type = Struct
     [(''info'', gpioline_info_type), (''timestamp'', UInt64), (''event_type'', UInt32), (''padding'', Arr 5 UInt32)]"

definition gpiohandle_request_type :: ctype where
  "gpiohandle_request_type = Struct
     [(''lineoffsets'', Arr GPIOHANDLES_MAX UInt32), (''flags'', UInt32), (''default_values'', Arr GPIOHANDLES_MAX UInt8),
      (''consumer_label'', Arr GPIO_MAX_NAME_SIZE Char), (''lines'', UInt32), (''fd'', Int32)]"

definition gpiohandle_config_type :: ctype where
  "gpiohandle_config_type = Struct
     [(''flags'', UInt32), (''default_values'', Arr GPIOHANDLES_MAX UInt8), (''padding'', Arr 4 UInt32)]"

definition gpiohandle_data_type :: ctype where
  "gpiohandle_data_type = Struct [(''values'', Arr GPIOHANDLES_MAX UInt8)]"

definition gpioevent_request_type :: ctype where
  "gpioevent_request_type = Struct
     [(''lineoffset'', UInt32), (''handleflags'', UInt32), (''eventflags'', UInt32),
      (''consumer_label'', Arr GPIO_MAX_NAME_SIZE Char), (''fd'', Int32)]"

definition gpioevent_data_type :: ctype where
  "gpioevent_data_type = Struct [(''timestamp'', UInt64), (''id'', UInt32)]"

text \<open>Flags of a line in the replies of version 1.\<close>

datatype gpioline_flag =
    GPIOLINE_FLAG_KERNEL
  | GPIOLINE_FLAG_IS_OUT
  | GPIOLINE_FLAG_ACTIVE_LOW
  | GPIOLINE_FLAG_OPEN_DRAIN
  | GPIOLINE_FLAG_OPEN_SOURCE
  | GPIOLINE_FLAG_BIAS_PULL_UP
  | GPIOLINE_FLAG_BIAS_PULL_DOWN
  | GPIOLINE_FLAG_BIAS_DISABLE

fun gpioline_flag_val :: "gpioline_flag \<Rightarrow> u64" where
  "gpioline_flag_val GPIOLINE_FLAG_KERNEL = push_bit 0 1"
| "gpioline_flag_val GPIOLINE_FLAG_IS_OUT = push_bit 1 1"
| "gpioline_flag_val GPIOLINE_FLAG_ACTIVE_LOW = push_bit 2 1"
| "gpioline_flag_val GPIOLINE_FLAG_OPEN_DRAIN = push_bit 3 1"
| "gpioline_flag_val GPIOLINE_FLAG_OPEN_SOURCE = push_bit 4 1"
| "gpioline_flag_val GPIOLINE_FLAG_BIAS_PULL_UP = push_bit 5 1"
| "gpioline_flag_val GPIOLINE_FLAG_BIAS_PULL_DOWN = push_bit 6 1"
| "gpioline_flag_val GPIOLINE_FLAG_BIAS_DISABLE = push_bit 7 1"

datatype gpioline_changed = GPIOLINE_CHANGED_REQUESTED | GPIOLINE_CHANGED_RELEASED | GPIOLINE_CHANGED_CONFIG

fun gpioline_changed_val :: "gpioline_changed \<Rightarrow> u32" where
  "gpioline_changed_val GPIOLINE_CHANGED_REQUESTED = 1"
| "gpioline_changed_val GPIOLINE_CHANGED_RELEASED = 2"
| "gpioline_changed_val GPIOLINE_CHANGED_CONFIG = 3"

datatype gpiohandle_flag =
    GPIOHANDLE_REQUEST_INPUT
  | GPIOHANDLE_REQUEST_OUTPUT
  | GPIOHANDLE_REQUEST_ACTIVE_LOW
  | GPIOHANDLE_REQUEST_OPEN_DRAIN
  | GPIOHANDLE_REQUEST_OPEN_SOURCE
  | GPIOHANDLE_REQUEST_BIAS_PULL_UP
  | GPIOHANDLE_REQUEST_BIAS_PULL_DOWN
  | GPIOHANDLE_REQUEST_BIAS_DISABLE

fun gpiohandle_flag_val :: "gpiohandle_flag \<Rightarrow> u64" where
  "gpiohandle_flag_val GPIOHANDLE_REQUEST_INPUT = push_bit 0 1"
| "gpiohandle_flag_val GPIOHANDLE_REQUEST_OUTPUT = push_bit 1 1"
| "gpiohandle_flag_val GPIOHANDLE_REQUEST_ACTIVE_LOW = push_bit 2 1"
| "gpiohandle_flag_val GPIOHANDLE_REQUEST_OPEN_DRAIN = push_bit 3 1"
| "gpiohandle_flag_val GPIOHANDLE_REQUEST_OPEN_SOURCE = push_bit 4 1"
| "gpiohandle_flag_val GPIOHANDLE_REQUEST_BIAS_PULL_UP = push_bit 5 1"
| "gpiohandle_flag_val GPIOHANDLE_REQUEST_BIAS_PULL_DOWN = push_bit 6 1"
| "gpiohandle_flag_val GPIOHANDLE_REQUEST_BIAS_DISABLE = push_bit 7 1"

datatype gpioevent_flag = GPIOEVENT_REQUEST_RISING_EDGE | GPIOEVENT_REQUEST_FALLING_EDGE | GPIOEVENT_REQUEST_BOTH_EDGES

fun gpioevent_flag_val :: "gpioevent_flag \<Rightarrow> u64" where
  "gpioevent_flag_val GPIOEVENT_REQUEST_RISING_EDGE = push_bit 0 1"
| "gpioevent_flag_val GPIOEVENT_REQUEST_FALLING_EDGE = push_bit 1 1"
| "gpioevent_flag_val GPIOEVENT_REQUEST_BOTH_EDGES = push_bit 0 1 OR push_bit 1 1"

datatype gpioevent_event = GPIOEVENT_EVENT_RISING_EDGE | GPIOEVENT_EVENT_FALLING_EDGE

fun gpioevent_event_val :: "gpioevent_event \<Rightarrow> u32" where
  "gpioevent_event_val GPIOEVENT_EVENT_RISING_EDGE = 0x01"
| "gpioevent_event_val GPIOEVENT_EVENT_FALLING_EDGE = 0x02"

section \<open>Commands\<close>

datatype gpio_ioctl =
    GPIO_GET_CHIPINFO_IOCTL
  | GPIO_V2_GET_LINEINFO_IOCTL
  | GPIO_GET_LINEINFO_UNWATCH_IOCTL
  | GPIO_V2_GET_LINEINFO_WATCH_IOCTL
  | GPIO_V2_GET_LINE_IOCTL
  | GPIO_V2_LINE_SET_CONFIG_IOCTL
  | GPIO_V2_LINE_GET_VALUES_IOCTL
  | GPIO_V2_LINE_SET_VALUES_IOCTL
  | GPIO_GET_LINEINFO_IOCTL
  | GPIO_GET_LINEHANDLE_IOCTL
  | GPIO_GET_LINEEVENT_IOCTL
  | GPIOHANDLE_GET_LINE_VALUES_IOCTL
  | GPIOHANDLE_SET_LINE_VALUES_IOCTL
  | GPIOHANDLE_SET_CONFIG_IOCTL
  | GPIO_GET_LINEINFO_WATCH_IOCTL
  | Other_ioctl u32

text \<open>
  The commands of the header: whether data goes to the driver, too (\<^verbatim>\<open>_IOWR\<close>) or only from it
  (\<^verbatim>\<open>_IOR\<close>), the number, and the type of the data.
\<close>

datatype ioc_dir = IOR | IOWR

fun ioctl_def :: "gpio_ioctl \<Rightarrow> (ioc_dir \<times> u8 \<times> ctype) option" where
  "ioctl_def GPIO_GET_CHIPINFO_IOCTL = Some (IOR, 0x01, gpiochip_info_type)"
| "ioctl_def GPIO_GET_LINEINFO_UNWATCH_IOCTL = Some (IOWR, 0x0C, UInt32)"
| "ioctl_def GPIO_V2_GET_LINEINFO_IOCTL = Some (IOWR, 0x05, gpio_v2_line_info_type)"
| "ioctl_def GPIO_V2_GET_LINEINFO_WATCH_IOCTL = Some (IOWR, 0x06, gpio_v2_line_info_type)"
| "ioctl_def GPIO_V2_GET_LINE_IOCTL = Some (IOWR, 0x07, gpio_v2_line_request_type)"
| "ioctl_def GPIO_V2_LINE_SET_CONFIG_IOCTL = Some (IOWR, 0x0D, gpio_v2_line_config_type)"
| "ioctl_def GPIO_V2_LINE_GET_VALUES_IOCTL = Some (IOWR, 0x0E, gpio_v2_line_values_type)"
| "ioctl_def GPIO_V2_LINE_SET_VALUES_IOCTL = Some (IOWR, 0x0F, gpio_v2_line_values_type)"
| "ioctl_def GPIO_GET_LINEINFO_IOCTL = Some (IOWR, 0x02, gpioline_info_type)"
| "ioctl_def GPIO_GET_LINEHANDLE_IOCTL = Some (IOWR, 0x03, gpiohandle_request_type)"
| "ioctl_def GPIO_GET_LINEEVENT_IOCTL = Some (IOWR, 0x04, gpioevent_request_type)"
| "ioctl_def GPIOHANDLE_GET_LINE_VALUES_IOCTL = Some (IOWR, 0x08, gpiohandle_data_type)"
| "ioctl_def GPIOHANDLE_SET_LINE_VALUES_IOCTL = Some (IOWR, 0x09, gpiohandle_data_type)"
| "ioctl_def GPIOHANDLE_SET_CONFIG_IOCTL = Some (IOWR, 0x0A, gpiohandle_config_type)"
| "ioctl_def GPIO_GET_LINEINFO_WATCH_IOCTL = Some (IOWR, 0x0B, gpioline_info_type)"
| "ioctl_def (Other_ioctl d) = None"

text \<open>
  The value of a command; \<open>ioc\<close> is the macro of \<^verbatim>\<open><sys/ioctl.h>\<close>, given the direction, the group, the number and
  the size.
\<close>

abbreviation sizeof :: "ctype \<Rightarrow> nat" where "sizeof \<equiv> size_of 8"

fun ioctl_code :: "(ioc_dir \<Rightarrow> u8 \<Rightarrow> u8 \<Rightarrow> nat \<Rightarrow> u32) \<Rightarrow> gpio_ioctl \<Rightarrow> u32" where
  "ioctl_code ioc (Other_ioctl d) = d"
| "ioctl_code ioc c = (case ioctl_def c of Some (dir, n, t) \<Rightarrow> ioc dir 0xB4 n (sizeof t))"

text \<open>What the commands rely on: the macro keeps the number in the low byte.\<close>

definition ioc_ok :: "(ioc_dir \<Rightarrow> u8 \<Rightarrow> u8 \<Rightarrow> nat \<Rightarrow> u32) \<Rightarrow> bool" where
  "ioc_ok ioc \<longleftrightarrow> (\<forall>dir n l. ucast (ioc dir 0xB4 n l) = n)"

text \<open>The commands that the resource manager knows.\<close>

definition ioctl_cases :: "gpio_ioctl list" where
  "ioctl_cases =
     [GPIO_GET_CHIPINFO_IOCTL, GPIO_V2_GET_LINEINFO_IOCTL, GPIO_GET_LINEINFO_UNWATCH_IOCTL,
      GPIO_V2_GET_LINEINFO_WATCH_IOCTL, GPIO_V2_GET_LINE_IOCTL, GPIO_V2_LINE_SET_CONFIG_IOCTL,
      GPIO_V2_LINE_GET_VALUES_IOCTL, GPIO_V2_LINE_SET_VALUES_IOCTL, GPIO_GET_LINEINFO_IOCTL,
      GPIO_GET_LINEHANDLE_IOCTL, GPIO_GET_LINEEVENT_IOCTL, GPIOHANDLE_GET_LINE_VALUES_IOCTL,
      GPIOHANDLE_SET_LINE_VALUES_IOCTL, GPIOHANDLE_SET_CONFIG_IOCTL, GPIO_GET_LINEINFO_WATCH_IOCTL]"

section \<open>Facts on layouts\<close>

lemma pad_ge: "0 < a \<Longrightarrow> n \<le> pad a n"
proof -
  assume "0 < a"
  have "n + (a - 1) = pad a n + (n + (a - 1)) mod a" by (simp add: pad_def)
  moreover have "(n + (a - 1)) mod a < a" using \<open>0 < a\<close> by simp
  ultimately show ?thesis using \<open>0 < a\<close> by linarith
qed

lemma pad_dvd: "a dvd pad a n"
  by (simp add: pad_def)

lemma pad_less: "0 < a \<Longrightarrow> pad a n < n + a"
proof -
  assume "0 < a"
  have "pad a n \<le> n + (a - 1)" unfolding pad_def by (metis div_times_less_eq_dividend)
  then show ?thesis using \<open>0 < a\<close> by linarith
qed

lemma align_max_pos: "0 < align_max w ms"
  by (induction ms rule: list.induct) auto

lemma align_pos: "0 < w \<Longrightarrow> 0 < align_of w t"
  by (induction t) (auto simp: align_max_pos)

lemma struct_end_ge: "0 < w \<Longrightarrow> off \<le> struct_end w off ms"
proof (induction ms arbitrary: off)
  case (Cons m ms)
  obtain x t where m: "m = (x, t)" by (cases m)
  have "off \<le> pad (align_of w t) off + size_of w t"
    using pad_ge [OF align_pos [OF Cons.prems]] by (simp add: trans_le_add1)
  also have "\<dots> \<le> struct_end w (pad (align_of w t) off + size_of w t) ms" by (rule Cons.IH [OF Cons.prems])
  finally show ?case by (simp add: m)
qed simp

text \<open>
  The members of a structure are in bounds and aligned, and a later one begins after an earlier one
  ends; so stores to one member do not reach another.
\<close>

lemma members_at_bounds:
  "0 < w \<Longrightarrow> (x, k, t) \<in> set (members_at w off ms) \<Longrightarrow>
   off \<le> k \<and> k + size_of w t \<le> struct_end w off ms \<and> align_of w t dvd k"
proof (induction ms arbitrary: off)
  case (Cons m ms)
  obtain y u where m: "m = (y, u)" by (cases m)
  let ?k = "pad (align_of w u) off"
  have k: "off \<le> ?k" by (rule pad_ge [OF align_pos [OF Cons.prems(1)]])
  show ?case
  proof (cases "(x, k, t) = (y, ?k, u)")
    case True
    then show ?thesis using k struct_end_ge [OF Cons.prems(1)] by (simp add: m pad_dvd)
  next
    case False
    with Cons.prems(2) have "(x, k, t) \<in> set (members_at w (?k + size_of w u) ms)" by (auto simp: m Let_def)
    from Cons.IH [OF Cons.prems(1) this] k show ?thesis by (simp add: m)
  qed
qed simp

lemma members_at_disjoint:
  "0 < w \<Longrightarrow> sorted_wrt (\<lambda>(_, k, t) (_, k', _). k + size_of w t \<le> k') (members_at w off ms)"
proof (induction ms arbitrary: off)
  case (Cons m ms)
  obtain x t where m: "m = (x, t)" by (cases m)
  show ?case using Cons members_at_bounds [OF Cons.prems] by (fastforce simp: m Let_def)
qed simp

lemma used_sum_le:
  assumes "0 < w" and "\<And>x t. (x, t) \<in> set ms \<Longrightarrow> used_bytes t \<le> size_of w t"
  shows "off + used_sum ms \<le> struct_end w off ms"
  using assms(2)
proof (induction ms arbitrary: off)
  case (Cons m ms)
  obtain x t where m: "m = (x, t)" by (cases m)
  have "off + used_bytes t \<le> pad (align_of w t) off + size_of w t"
    using pad_ge [OF align_pos [OF assms(1)]] Cons.prems [of x t] by (simp add: add_mono m)
  moreover have "pad (align_of w t) off + size_of w t + used_sum ms \<le> struct_end w (pad (align_of w t) off + size_of w t) ms"
    by (rule Cons.IH) (use Cons.prems in auto)
  ultimately show ?case by (simp add: m)
qed simp

lemma used_max_le: "(\<And>x t. (x, t) \<in> set ms \<Longrightarrow> used_bytes t \<le> size_of w t) \<Longrightarrow> used_max ms \<le> union_end w ms"
proof (induction ms)
  case (Cons m ms)
  then show ?case by (cases m) (fastforce intro: max.mono)
qed simp

lemma used_bytes_le: "0 < w \<Longrightarrow> used_bytes t \<le> size_of w t"
proof (induction t)
  case (Struct ms)
  have "0 + used_sum ms \<le> struct_end w 0 ms"
    by (rule used_sum_le) (use Struct in \<open>force+\<close>)
  then show ?case using pad_ge [OF align_max_pos] by (auto intro: order_trans)
next
  case (Union ms)
  have "used_max ms \<le> union_end w ms" by (rule used_max_le) (use Union in \<open>force+\<close>)
  then show ?case using pad_ge [OF align_max_pos] by (auto intro: order_trans)
qed auto

section \<open>The structures of the header\<close>

text \<open>The structures of version 2, and those of version 1 but the last one.\<close>

definition uapi_v2 :: "ctype list" where
  "uapi_v2 =
     [gpio_v2_line_values_type, gpio_v2_line_attribute_type, gpio_v2_line_config_attribute_type, gpio_v2_line_config_type,
      gpio_v2_line_request_type, gpio_v2_line_info_type, gpio_v2_line_info_changed_type, gpio_v2_line_event_type]"

definition uapi_v1 :: "ctype list" where
  "uapi_v1 =
     [gpiochip_info_type, gpioline_info_type, gpioline_info_changed_type, gpiohandle_request_type, gpiohandle_config_type,
      gpiohandle_data_type, gpioevent_request_type]"

lemmas uapi_types =
  gpiochip_info_type_def gpio_v2_line_values_type_def gpio_v2_line_attribute_type_def gpio_v2_line_config_attribute_type_def
  gpio_v2_line_config_type_def gpio_v2_line_request_type_def gpio_v2_line_info_type_def gpio_v2_line_info_changed_type_def
  gpio_v2_line_event_type_def gpioline_info_type_def gpioline_info_changed_type_def gpiohandle_request_type_def
  gpiohandle_config_type_def gpiohandle_data_type_def gpioevent_request_type_def gpioevent_data_type_def
  GPIO_V2_LINES_MAX_def GPIO_V2_LINE_NUM_ATTRS_MAX_def GPIOHANDLES_MAX_def


lemma sizeof_info [simp]: "sizeof gpiochip_info_type = 68" "sizeof gpio_v2_line_info_type = 256"
  by (simp_all add: uapi_types pad_def)

lemma offset_of_chipinfo [simp]:
  "offset_of 8 gpiochip_info_type ''name'' = Some 0" "offset_of 8 gpiochip_info_type ''label'' = Some 32"
  "offset_of 8 gpiochip_info_type ''lines'' = Some 64"
  by (simp_all add: uapi_types pad_def offset_of_def)

lemma offset_of_lineinfo [simp]:
  "offset_of 8 gpio_v2_line_info_type ''name'' = Some 0" "offset_of 8 gpio_v2_line_info_type ''consumer'' = Some 32"
  "offset_of 8 gpio_v2_line_info_type ''offset'' = Some 64" "offset_of 8 gpio_v2_line_info_type ''num_attrs'' = Some 68"
  "offset_of 8 gpio_v2_line_info_type ''flags'' = Some 72"
  by (simp_all add: uapi_types pad_def offset_of_def)

section \<open>The flags and the commands\<close>

text \<open>Every flag is one bit, and different flags are different bits.\<close>

lemma line_flag_disjoint: "line_flag a AND line_flag b = (if a = b then line_flag a else 0)"
  by (cases a; cases b) (simp_all add: push_bit_eq_mult)

lemma ioctl_cases_all: "c \<in> set ioctl_cases \<longleftrightarrow> (\<forall>d. c \<noteq> Other_ioctl d)"
  by (cases c) (simp_all add: ioctl_cases_def)

lemma ioctl_def_number:
  assumes "ioctl_def c = Some (dir, n, t)" and "ioctl_def c' = Some (dir', n, t')"
  shows "c = c'"
  using assms by (cases c; cases c') simp_all

lemma ioctl_code_case:
  "c \<in> set ioctl_cases \<Longrightarrow> \<exists>dir n t. ioctl_def c = Some (dir, n, t) \<and> ioctl_code ioc c = ioc dir 0xB4 n (sizeof t)"
  by (cases c) (simp_all add: ioctl_cases_def)

text \<open>The commands differ in their numbers, which the macro keeps in the low byte.\<close>

lemma ioctl_code_inject:
  assumes "ioc_ok ioc" and "c \<in> set ioctl_cases" and "c' \<in> set ioctl_cases"
  shows "ioctl_code ioc c = ioctl_code ioc c' \<longleftrightarrow> c = c'"
  using ioctl_code_case [OF assms(2), of ioc] ioctl_code_case [OF assms(3), of ioc] assms(1) ioctl_def_number unfolding ioc_ok_def by metis

end
