(* ===== verification/Resmgr.thy ===== *)
theory Resmgr
  imports Gpio_System C_String Gpio_Uapi
begin

text \<open>
  \<^verbatim>\<open>src/gpio/resmgr.c\<close>: the resource manager that makes the lines files under \<^verbatim>\<open>/dev\<close>. The handlers of write, read and
  devctl messages call the driver of \<^theory_text>\<open>Gpio\<close>; \<open>resmgr_run\<close> attaches the files and serves messages. The
  QNX dispatch library is the platform's: what a message carries and what its default handlers answer are
  arguments, its calls in \<open>resmgr_run\<close> are events with results from \<open>rm_env\<close>.
\<close>

section \<open>Attributes and messages\<close>

text \<open>
  \<open>struct gpio_iofunc_attr\<close>, without the pointer to the driver's device, which is the same for every
  file. \<open>attr_nbytes\<close> is the field of the embedded attribute.
\<close>

record gpio_iofunc_attr =
  attr_nbytes :: u64
  attr_index :: size_t
  attr_value :: u8

text \<open>
  What a handler returns: a status, a number of parts of the reply (\<open>_RESMGR_NPARTS\<close>), or a reply of that many bytes
  after the header (\<open>_RESMGR_PTR\<close>).
\<close>

datatype io_result = Status rc | Nparts nat | Reply_ptr nat

section \<open>Writing\<close>

text \<open>
  A write message: the answer of \<open>iofunc_write_verify\<close>, the number of bytes it claims, and what \<open>resmgr_msgget\<close>
  copies: an error, nothing, or a byte.
\<close>

record write_msg =
  w_verify :: rc
  w_nbytes :: size_t
  w_data :: "rc + u8 option"

text \<open>\<open>c\<close> is the address of the context the driver's call puts on the stack; the result has the count of bytes written, if set.\<close>

definition resmgr_write ::
  "env \<Rightarrow> gpio_state others \<Rightarrow> 'p virtio_gpio_device \<Rightarrow> ptr \<Rightarrow> write_msg \<Rightarrow> gpio_iofunc_attr \<Rightarrow> gpio_state \<Rightarrow> hist \<Rightarrow>
   (io_result \<times> nat option \<times> gpio_state \<times> hist) option" where
  "resmgr_write env others dev c msg attr s h =
     (if w_verify msg \<noteq> EOK then Some (Status (w_verify msg), None, s, h)
      else if w_nbytes msg \<noteq> 1 then Some (Status EINVAL, None, s, h)
      else
        case w_data msg of
          Inl e \<Rightarrow> Some (Status e, None, s, h)
        | Inr data \<Rightarrow>
            let v = (case data of Some b \<Rightarrow> b | None \<Rightarrow> ucast (env_uninit env h));
                v = (if v = 0x30 then 0 else 1)
            in do {
              (rc, s, h) \<leftarrow> virtio_gpio_set_value env others dev (ucast (attr_index attr)) v c s h;
              Some (Status rc, if rc = EOK then Some 1 else None, s, h)
            })"

section \<open>Reading\<close>

record read_msg =
  r_verify :: rc
  r_nbytes :: size_t

text \<open>
  The reply of a read: the count set, and the extent of the part that starts at the attribute's value.
\<close>

record read_reply =
  read_nbytes :: "size_t option"
  read_iov :: "size_t option"

definition resmgr_read ::
  "env \<Rightarrow> gpio_state others \<Rightarrow> 'p virtio_gpio_device \<Rightarrow> ptr \<Rightarrow> read_msg \<Rightarrow> gpio_iofunc_attr \<Rightarrow> u64 \<Rightarrow> gpio_state \<Rightarrow> hist \<Rightarrow>
   (io_result \<times> read_reply \<times> gpio_iofunc_attr \<times> u64 \<times> gpio_state \<times> hist) option" where
  "resmgr_read env others dev c msg attr offset s h =
     (if r_verify msg \<noteq> EOK
      then Some (Status (r_verify msg), \<lparr> read_nbytes = None, read_iov = None \<rparr>, attr, offset, s, h)
      else
        let nleft = attr_nbytes attr - offset;
            nbytes = min (r_nbytes msg) nleft
        in if 0 < nbytes then do {
             (rc, v, s, h) \<leftarrow>
               virtio_gpio_get_value env others dev (ucast (attr_index attr)) (Some (attr_value attr)) c s h;
             v \<leftarrow> v;
             (if rc \<noteq> EOK
              then Some (Status rc, \<lparr> read_nbytes = None, read_iov = None \<rparr>, attr\<lparr> attr_value := v \<rparr>, offset, s, h)
              else Some (Nparts 1, \<lparr> read_nbytes = Some nbytes, read_iov = Some nbytes \<rparr>,
                         attr\<lparr> attr_value := v + 0x30 \<rparr>, offset + nbytes, s, h))
           }
           else Some (Nparts 0, \<lparr> read_nbytes = Some 0, read_iov = None \<rparr>, attr, offset, s, h))"

section \<open>Device control\<close>

record gpiochip_info =
  chip_name :: string
  chip_label :: string
  chip_lines :: u32

text \<open>The fields of \<open>struct gpio_v2_line_info\<close> that are not cleared: name, offset and flags.\<close>

record gpio_v2_line_info =
  line_name :: string
  line_offset :: u32
  line_flags :: u64

datatype payload = Chip_payload gpiochip_info | Line_payload gpio_v2_line_info

text \<open>\<open>snprintf\<close> to an array of \<open>n\<close> characters keeps the first \<open>n - 1\<close>.\<close>

definition snprintf :: "nat \<Rightarrow> string \<Rightarrow> string" where
  "snprintf n s = take (n - 1) s"

definition chip_file :: "nat \<Rightarrow> string" where
  "chip_file index = ''gpiochip'' @ dec index"

definition line_file :: "nat \<Rightarrow> nat \<Rightarrow> string" where
  "line_file index n = ''gpio'' @ dec index @ ''.'' @ dec n"

text \<open>
  A devctl message: the answer of \<open>iofunc_devctl_default\<close> (\<open>None\<close> for \<open>_RESMGR_DEFAULT\<close>), the command, and the
  offset field of its input.
\<close>

record devctl_msg =
  d_default :: "rc option"
  d_dcmd :: gpio_ioctl
  d_offset :: u32

definition devctl_chipinfo ::
  "env \<Rightarrow> 'p virtio_gpio_device \<Rightarrow> gpio_state \<Rightarrow> hist \<Rightarrow> (io_result \<times> payload option \<times> gpio_state \<times> hist) option" where
  "devctl_chipinfo env dev s h =
     (let (status, lines) = virtio_gpio_num_gpios (Some dev) (Some (ucast (env_uninit env h)))
      in if status \<noteq> EOK then Some (Status status, None, s, h)
      else
        let (status, index) = virtio_gpio_get_chip_index (Some dev) (Some (env_uninit env h))
        in if status \<noteq> EOK then Some (Status status, None, s, h)
        else do {
          lines \<leftarrow> lines;
          index \<leftarrow> index;
          let info = \<lparr> chip_name = snprintf GPIO_MAX_NAME_SIZE (chip_file (unat index)), chip_label = ''virtio'',
                       chip_lines = ucast lines \<rparr>
          in Some (Reply_ptr (sizeof gpiochip_info_type), Some (Chip_payload info), s, h)
        })"

definition devctl_lineinfo ::
  "env \<Rightarrow> gpio_state others \<Rightarrow> 'p virtio_gpio_device \<Rightarrow> ptr \<Rightarrow> u32 \<Rightarrow> gpio_state \<Rightarrow> hist \<Rightarrow>
   (io_result \<times> payload option \<times> gpio_state \<times> hist) option" where
  "devctl_lineinfo env others dev c offset s h =
     (let (status, lines) = virtio_gpio_num_gpios (Some dev) (Some (ucast (env_uninit env h)))
      in if status \<noteq> EOK then Some (Status status, None, s, h)
      else
        let (status, index) = virtio_gpio_get_chip_index (Some dev) (Some (env_uninit env h))
        in if status \<noteq> EOK then Some (Status status, None, s, h)
        else do {
          lines \<leftarrow> lines;
          index \<leftarrow> index;
          (if ucast lines \<le> offset then Some (Status ENOENT, None, s, h)
           else
             let info = \<lparr> line_name = snprintf GPIO_MAX_NAME_SIZE (line_file (unat index) (unat offset)),
                          line_offset = offset, line_flags = 0 \<rparr>
             in do {
               (status, direction, s, h) \<leftarrow>
                 virtio_gpio_get_direction env others dev (ucast offset) (Some (ucast (env_uninit env h))) c s h;
               (if status \<noteq> EOK then Some (Status status, None, s, h)
                else do {
                  direction \<leftarrow> direction;
                  let info = info\<lparr> line_flags := line_flags info OR
                        line_flag (if direction = 0 then GPIO_V2_LINE_FLAG_INPUT else GPIO_V2_LINE_FLAG_OUTPUT) \<rparr>
                  in Some (Reply_ptr (sizeof gpio_v2_line_info_type), Some (Line_payload info), s, h)
                })
             })
        })"

definition resmgr_devctl ::
  "env \<Rightarrow> gpio_state others \<Rightarrow> 'p virtio_gpio_device \<Rightarrow> ptr \<Rightarrow> devctl_msg \<Rightarrow> gpio_state \<Rightarrow> hist \<Rightarrow>
   (io_result \<times> payload option \<times> gpio_state \<times> hist) option" where
  "resmgr_devctl env others dev c msg s h =
     (case d_default msg of
        Some status \<Rightarrow> Some (Status status, None, s, h)
      | None \<Rightarrow>
          case d_dcmd msg of
            GPIO_GET_CHIPINFO_IOCTL \<Rightarrow> devctl_chipinfo env dev s h
          | GPIO_V2_GET_LINEINFO_IOCTL \<Rightarrow> devctl_lineinfo env others dev c (d_offset msg) s h
          | Other_ioctl _ \<Rightarrow> Some (Status ENOSYS, None, s, h)
          | _ \<Rightarrow> Some (Status ENOTSUP, None, s, h))"

section \<open>Attaching the files\<close>

text \<open>
  The calls of \<open>resmgr_run\<close>. A pointer result carries the \<open>errno\<close> of a failure; \<open>Attach\<close> has the path, the attribute
  as configured for it, and the identifier or \<open>-1\<close>.
\<close>

datatype rm_event =
    Dispatch_create "rc + ptr"
  | Rm_calloc nat string "rc + ptr"
  | Attach string gpio_iofunc_attr int
  | Detach int
  | Rm_free ptr
  | Dispatch_destroy ptr
  | Context_alloc "rc + ptr"
  | Dispatch_block ptr "rc + ptr"
  | Dispatch_handler ptr

type_synonym rm_hist = "rm_event list"

record rm_env =
  rme_dispatch_create :: "rm_hist \<Rightarrow> rc + ptr"
  rme_calloc :: "rm_hist \<Rightarrow> nat \<Rightarrow> string \<Rightarrow> rc + ptr"
  rme_attach :: "rm_hist \<Rightarrow> string \<Rightarrow> int \<times> rc"
  rme_context_alloc :: "rm_hist \<Rightarrow> rc + ptr"
  rme_dispatch_block :: "rm_hist \<Rightarrow> ptr \<Rightarrow> rc + ptr"
  rme_uninit :: "rm_hist \<Rightarrow> u16"

definition rm_calloc :: "rm_env \<Rightarrow> nat \<Rightarrow> string \<Rightarrow> rm_hist \<Rightarrow> (rc + ptr) \<times> rm_hist" where
  "rm_calloc env n ty h = (let r = rme_calloc env h n ty in (r, Rm_calloc n ty r # h))"

definition rm_attach :: "rm_env \<Rightarrow> string \<Rightarrow> gpio_iofunc_attr \<Rightarrow> rm_hist \<Rightarrow> int \<times> rc \<times> rm_hist" where
  "rm_attach env path attr h = (let (i, e) = rme_attach env h path in (i, e, Attach path attr i # h))"

definition chip_path :: "u16 \<Rightarrow> string" where
  "chip_path index = snprintf 32 (''/dev/'' @ chip_file (unat index))"

definition line_path :: "u16 \<Rightarrow> nat \<Rightarrow> string" where
  "line_path index n = snprintf 32 (''/dev/'' @ line_file (unat index) n)"

definition line_attr :: "nat \<Rightarrow> gpio_iofunc_attr" where
  "line_attr n = \<lparr> attr_nbytes = 1, attr_index = of_nat n, attr_value = 0 \<rparr>"

definition chip_attr :: gpio_iofunc_attr where
  "chip_attr = \<lparr> attr_nbytes = 0, attr_index = -1, attr_value = 0 \<rparr>"

text \<open>
  The loop over the lines, from line \<open>n\<close>, with \<open>k\<close> to go. The result has the \<open>errno\<close> of the attach that
  failed, if any.
\<close>

fun attach_lines :: "rm_env \<Rightarrow> u16 \<Rightarrow> nat \<Rightarrow> nat \<Rightarrow> int list \<Rightarrow> rm_hist \<Rightarrow> rc option \<times> int list \<times> rm_hist" where
  "attach_lines env index n 0 ids h = (None, ids, h)"
| "attach_lines env index n (Suc k) ids h =
     (let (i, e, h) = rm_attach env (line_path index n) (line_attr n) h;
          ids = ids[n := i]
      in if i = -1 then (Some e, ids, h) else attach_lines env index (Suc n) k ids h)"

text \<open>The loop at the label \<open>detach\<close>, over the identifiers of the lines.\<close>

fun detach_lines :: "int list \<Rightarrow> rm_hist \<Rightarrow> rm_hist" where
  "detach_lines [] h = h"
| "detach_lines (i # ids) h = detach_lines ids (if i \<noteq> -1 then Detach i # h else h)"

text \<open>The labels, each falling through to the next.\<close>

definition rm_free_dpp :: "rc \<Rightarrow> ptr \<Rightarrow> rm_hist \<Rightarrow> rc \<times> rm_hist" where
  "rm_free_dpp rc dpp h = (rc, Dispatch_destroy dpp # h)"

definition rm_free_resmgr :: "rc \<Rightarrow> ptr \<Rightarrow> ptr \<Rightarrow> rm_hist \<Rightarrow> rc \<times> rm_hist" where
  "rm_free_resmgr rc dpp resmgr h = rm_free_dpp rc dpp (Rm_free resmgr # h)"

definition rm_free_attrs :: "rc \<Rightarrow> ptr \<Rightarrow> ptr \<Rightarrow> ptr \<Rightarrow> rm_hist \<Rightarrow> rc \<times> rm_hist" where
  "rm_free_attrs rc dpp resmgr attrs h = rm_free_resmgr rc dpp resmgr (Rm_free attrs # h)"

definition rm_detach :: "rc \<Rightarrow> ptr \<Rightarrow> ptr \<Rightarrow> ptr \<Rightarrow> ptr \<Rightarrow> nat \<Rightarrow> int list \<Rightarrow> rm_hist \<Rightarrow> rc \<times> rm_hist" where
  "rm_detach rc dpp resmgr attrs idp ngpio ids h =
     rm_free_attrs rc dpp resmgr attrs (Rm_free idp # detach_lines (take ngpio ids) h)"

section \<open>Serving\<close>

text \<open>The dispatch loop. It may go on for ever, then it has no result.\<close>

partial_function (option) dispatch_loop :: "rm_env \<Rightarrow> ptr \<Rightarrow> rm_hist \<Rightarrow> (rc \<times> rm_hist) option" where
  "dispatch_loop env ctp h =
     (case rme_dispatch_block env h ctp of
        Inl e \<Rightarrow> Some (e, Dispatch_block ctp (Inl e) # h)
      | Inr ctp' \<Rightarrow> dispatch_loop env ctp' (Dispatch_handler ctp' # Dispatch_block ctp (Inr ctp') # h))"

text \<open>
  From the table of identifiers on: the files of the chip and of the lines are attached, then messages
  are served. The table has a last entry for the chip.
\<close>

definition resmgr_serve ::
  "rm_env \<Rightarrow> u16 \<Rightarrow> nat \<Rightarrow> ptr \<Rightarrow> ptr \<Rightarrow> ptr \<Rightarrow> ptr \<Rightarrow> rm_hist \<Rightarrow> (rc \<times> rm_hist) option" where
  "resmgr_serve env index ngpio dpp resmgr attrs idp h =
     (let ids = replicate ngpio (-1) @ [0];
          (i, e, h) = rm_attach env (chip_path index) chip_attr h;
          ids = ids[ngpio := i]
      in if i = -1 then Some (rm_detach e dpp resmgr attrs idp ngpio ids h)
      else
        let (err, ids, h) = attach_lines env index 0 ngpio ids h
        in case err of
             Some e \<Rightarrow> Some (rm_detach e dpp resmgr attrs idp ngpio ids h)
           | None \<Rightarrow>
               let r = rme_context_alloc env h; h = Context_alloc r # h
               in case r of
                    Inl e \<Rightarrow> Some (rm_detach e dpp resmgr attrs idp ngpio ids h)
                  | Inr ctp \<Rightarrow> dispatch_loop env ctp h)"

definition resmgr_run ::
  "rm_env \<Rightarrow> 'p virtio_gpio_device option \<Rightarrow> u16 \<Rightarrow> rm_hist \<Rightarrow> (rc \<times> rm_hist) option" where
  "resmgr_run env dev index h =
     (if dev = None then Some (EINVAL, h)
      else
        let (rc, n) = virtio_gpio_num_gpios dev (Some (rme_uninit env h))
        in if rc \<noteq> EOK then Some (rc, h)
        else do {
          n \<leftarrow> n;
          let ngpio = unat n;
              r = rme_dispatch_create env h; h = Dispatch_create r # h
          in case r of
               Inl e \<Rightarrow> Some (e, h)
             | Inr dpp \<Rightarrow>
          let (r, h) = rm_calloc env 1 ''struct gpio_resmgr'' h
          in case r of
               Inl e \<Rightarrow> Some (rm_free_dpp e dpp h)
             | Inr resmgr \<Rightarrow>
          let (r, h) = rm_calloc env (ngpio + 1) ''struct gpio_iofunc_attr'' h
          in case r of
               Inl e \<Rightarrow> Some (rm_free_resmgr e dpp resmgr h)
             | Inr attrs \<Rightarrow>
          let (r, h) = rm_calloc env (ngpio + 1) ''int'' h
          in case r of
               Inl e \<Rightarrow> Some (rm_free_attrs e dpp resmgr attrs h)
             | Inr idp \<Rightarrow> resmgr_serve env index ngpio dpp resmgr attrs idp h
        })"

section \<open>The file of a line\<close>

text \<open>
  A state in which a client call can be made from the stack address \<open>c\<close>: driver and device satisfy the
  invariant of the system, and waiting is not interrupted.
\<close>

definition callable :: "env \<Rightarrow> 'p virtio_gpio_device \<Rightarrow> ptr \<Rightarrow> gpio_sys \<Rightarrow> bool" where
  "callable env dev c sys \<longleftrightarrow>
     gpio_inv sys \<and> platform_ok env dev \<and> c \<noteq> 0 \<and> gs_ctx (sys_state sys) c = None \<and> (\<forall>h. env_sem_wait env h c = 0)"

lemma set_value_served:
  assumes "callable env dev c sys" and "sends env dev VIRTIO_GPIO_MSG_SET_VALUE gpio (ucast v) c sys"
  shows "\<exists>s h. virtio_gpio_set_value env (serve env st w) dev gpio v c (sys_state sys) (sys_hist sys) =
           Some (answer_of st, s, h) \<and> settled c sys s h"
  using gpio_call_served [OF _ _ _ _ _ _ assms(2), where out = None and out' = None and st = st and v = w] assms(1)
  by (auto simp: callable_def virtio_gpio_set_value_def client_types_def)

lemma get_value_served:
  assumes "callable env dev c sys" and "sends env dev VIRTIO_GPIO_MSG_GET_VALUE gpio 0 c sys"
  shows "\<exists>s h. virtio_gpio_get_value env (serve env st v) dev gpio (Some x) c (sys_state sys) (sys_hist sys) =
           Some (answer_of st, Some v, s, h) \<and> settled c sys s h"
  using gpio_call_served [OF _ _ _ _ _ _ assms(2), where out = "Some (Some x)" and out' = "Some (Some v)" and st = st and v = v
      and x = x] assms(1)
  by (auto simp: callable_def virtio_gpio_get_value_def client_types_def)

lemma get_direction_served:
  assumes "callable env dev c sys" and "sends env dev VIRTIO_GPIO_MSG_GET_DIRECTION gpio 0 c sys"
  shows "\<exists>s h. virtio_gpio_get_direction env (serve env st v) dev gpio (Some x) c (sys_state sys) (sys_hist sys) =
           Some (answer_of st, Some v, s, h) \<and> settled c sys s h"
  using gpio_call_served [OF _ _ _ _ _ _ assms(2), where out = "Some (Some x)" and out' = "Some (Some v)" and st = st and v = v
      and x = x] assms(1)
  by (auto simp: callable_def virtio_gpio_get_direction_def client_types_def)

lemma line_index: "n < 65536 \<Longrightarrow> ucast (attr_index (line_attr n)) = (of_nat n :: u16)"
  by (simp add: line_attr_def word_unat_eq_iff unsigned_ucast_eq unsigned_of_nat min_def)

lemma line_attr_sel [simp]: "attr_nbytes (line_attr n) = 1" "attr_value (line_attr n) = 0"
  by (simp_all add: line_attr_def)

lemma resmgr_read_line_run:
  assumes "callable env dev c sys" and "sends env dev VIRTIO_GPIO_MSG_GET_VALUE (of_nat n) 0 c sys" and "n < 65536"
    and "r_verify msg = EOK" and "0 < r_nbytes msg"
  shows "\<exists>s h. settled c sys s h \<and>
     resmgr_read env (serve env st v) dev c msg (line_attr n) 0 (sys_state sys) (sys_hist sys) =
       Some (if st = VIRTIO_GPIO_STATUS_OK
             then (Nparts 1, \<lparr> read_nbytes = Some 1, read_iov = Some 1 \<rparr>, (line_attr n)\<lparr> attr_value := v + 0x30 \<rparr>, 1, s, h)
             else (Status EIO, \<lparr> read_nbytes = None, read_iov = None \<rparr>, (line_attr n)\<lparr> attr_value := v \<rparr>, 0, s, h)) \<and>
     resmgr_read env others dev c msg ((line_attr n)\<lparr> attr_value := v + 0x30 \<rparr>) 1 s h =
       Some (Nparts 0, \<lparr> read_nbytes = Some 0, read_iov = None \<rparr>, (line_attr n)\<lparr> attr_value := v + 0x30 \<rparr>, 1, s, h)"
proof -
  obtain s h where g: "virtio_gpio_get_value env (serve env st v) dev (of_nat n) (Some (attr_value (line_attr n))) c
      (sys_state sys) (sys_hist sys) = Some (answer_of st, Some v, s, h)" "settled c sys s h"
    using get_value_served [OF assms(1,2)] by blast
  have m: "min (r_nbytes msg) 1 = 1"
    using assms(5) by (intro min_absorb2) (simp add: word_le_nat_alt word_less_nat_alt)
  show ?thesis
    using g assms(4,5) m line_index [OF assms(3)]
    by (intro exI [of _ s] exI [of _ h]) (simp add: resmgr_read_def answer_of_def Let_def)
qed

text \<open>
  C30: reading the file of a line. With a device that answers status \<open>st\<close> and value \<open>v\<close>, a read from the
  beginning gives one byte, the character \<open>v\<close> above the digit zero, and moves the offset to the
  end; reading on there gives no byte and asks the device nothing. If the device refuses, the read
  fails with \<open>EIO\<close> and the offset stays.
\<close>

theorem resmgr_read_line:
  assumes "callable env dev c sys" and "sends env dev VIRTIO_GPIO_MSG_GET_VALUE (of_nat n) 0 c sys" and "n < 65536"
    and "r_verify msg = EOK" and "0 < r_nbytes msg"
  shows "\<exists>s h. settled c sys s h \<and>
     resmgr_read env (serve env st v) dev c msg (line_attr n) 0 (sys_state sys) (sys_hist sys) =
       Some (if st = VIRTIO_GPIO_STATUS_OK
             then (Nparts 1, \<lparr> read_nbytes = Some 1, read_iov = Some 1 \<rparr>, (line_attr n)\<lparr> attr_value := v + 0x30 \<rparr>, 1, s, h)
             else (Status EIO, \<lparr> read_nbytes = None, read_iov = None \<rparr>, (line_attr n)\<lparr> attr_value := v \<rparr>, 0, s, h)) \<and>
     resmgr_read env others dev c msg ((line_attr n)\<lparr> attr_value := v + 0x30 \<rparr>) 1 s h =
       Some (Nparts 0, \<lparr> read_nbytes = Some 0, read_iov = None \<rparr>, (line_attr n)\<lparr> attr_value := v + 0x30 \<rparr>, 1, s, h)"
  by (rule resmgr_read_line_run [OF assms])

text \<open>
  Reading past the end. The bytes left are computed without regard to the sign: at an offset
  beyond the end of a line's file, the whole request is taken to be left. The read then answers with as many
  bytes as were asked for, starting at an attribute field that is one byte.
\<close>

theorem resmgr_read_past_end:
  assumes "callable env dev c sys" and "sends env dev VIRTIO_GPIO_MSG_GET_VALUE (of_nat n) 0 c sys" and "n < 65536"
    and "r_verify msg = EOK" and "0 < r_nbytes msg" and "1 < offset" and "r_nbytes msg \<le> 1 - offset"
  shows "\<exists>s h. resmgr_read env (serve env VIRTIO_GPIO_STATUS_OK v) dev c msg (line_attr n) offset (sys_state sys) (sys_hist sys) =
       Some (Nparts 1, \<lparr> read_nbytes = Some (r_nbytes msg), read_iov = Some (r_nbytes msg) \<rparr>,
         (line_attr n)\<lparr> attr_value := v + 0x30 \<rparr>, offset + r_nbytes msg, s, h)"
proof -
  obtain s h where g: "virtio_gpio_get_value env (serve env VIRTIO_GPIO_STATUS_OK v) dev (of_nat n) (Some (attr_value (line_attr n))) c
      (sys_state sys) (sys_hist sys) = Some (answer_of VIRTIO_GPIO_STATUS_OK, Some v, s, h)" "settled c sys s h"
    using get_value_served [OF assms(1,2)] by blast
  have m: "min (r_nbytes msg) (1 - offset) = r_nbytes msg" "0 < 1 - offset"
    using assms(7) order.strict_trans2 [OF assms(5,7)] by (simp_all add: min_def)
  show ?thesis
    using g assms(4,5) m line_index [OF assms(3)]
    by (intro exI [of _ s] exI [of _ h]) (simp add: resmgr_read_def answer_of_def Let_def)
qed

text \<open>
  C31: writing the file of a line. The character zero clears the line and any other character sets
  it; the write counts one byte when the device answers \<open>OK\<close> and fails with \<open>EIO\<close> otherwise. A message of any
  other length is refused and asks the device nothing.
\<close>

theorem resmgr_write_line:
  assumes "callable env dev c sys" and "n < 65536" and "w_verify msg = EOK" and "w_data msg = Inr (Some b)"
    and "w_nbytes msg = 1 \<longrightarrow> sends env dev VIRTIO_GPIO_MSG_SET_VALUE (of_nat n) (if b = 0x30 then 0 else 1) c sys"
  shows "if w_nbytes msg = 1
     then \<exists>s h. settled c sys s h \<and>
       resmgr_write env (serve env st v) dev c msg (line_attr n) (sys_state sys) (sys_hist sys) =
         Some (Status (answer_of st), if st = VIRTIO_GPIO_STATUS_OK then Some 1 else None, s, h)
     else resmgr_write env others dev c msg (line_attr n) (sys_state sys) (sys_hist sys) =
         Some (Status EINVAL, None, sys_state sys, sys_hist sys)"
proof (cases "w_nbytes msg = 1")
  case True
  let ?v = "if b = 0x30 then 0 else 1 :: u8"
  have "sends env dev VIRTIO_GPIO_MSG_SET_VALUE (of_nat n) (ucast ?v) c sys" using assms(5) True by auto
  from set_value_served [OF assms(1) this, of st v] obtain s h where
    g: "virtio_gpio_set_value env (serve env st v) dev (of_nat n) ?v c (sys_state sys) (sys_hist sys) =
          Some (answer_of st, s, h)" "settled c sys s h" by blast
  show ?thesis
    using g assms(3,4) True line_index [OF assms(2)]
    by (auto simp: resmgr_write_def answer_of_def Let_def intro!: exI [of _ s] exI [of _ h])
qed (use assms(3) in \<open>simp add: resmgr_write_def\<close>)

text \<open>Writing the file of the chip, whose index is \<open>-1\<close>, sets or clears line 65535.\<close>

lemma resmgr_write_chip:
  assumes "w_verify msg = EOK" and "w_nbytes msg = 1" and "w_data msg = Inr (Some b)"
  shows "resmgr_write env others dev c msg chip_attr s h =
     do { (rc, s, h) \<leftarrow> virtio_gpio_set_value env others dev 65535 (if b = 0x30 then 0 else 1) c s h;
          Some (Status rc, if rc = EOK then Some 1 else None, s, h) }"
proof -
  have "ucast (attr_index chip_attr) = (65535 :: u16)" unfolding chip_attr_def by code_simp
  then show ?thesis using assms by (simp add: resmgr_write_def Let_def)
qed

section \<open>Device control\<close>

text \<open>Names of files and lines are short enough for their arrays.\<close>

lemma length_dec16: "length (dec (unat (i::u16))) \<le> 5"
  using unsigned_less [of i, where 'a = nat] by (intro length_dec) simp_all

lemma length_dec64: "length (dec (unat (i::u64))) \<le> 20"
  using unsigned_less [of i, where 'a = nat] by (intro length_dec) simp_all

lemma length_dec_line: "n < 65536 \<Longrightarrow> length (dec n) \<le> 5"
  by (rule length_dec) simp_all

lemma chip_name_fits: "snprintf 32 (chip_file (unat (i::u64))) = chip_file (unat i)"
  using length_dec64 [of i] by (simp add: snprintf_def chip_file_def)

lemma line_name_fits: "n < 65536 \<Longrightarrow> snprintf 32 (line_file (unat (i::u64)) n) = line_file (unat i) n"
  using length_dec64 [of i] length_dec_line [of n] by (simp add: snprintf_def line_file_def)

text \<open>
  The information on a line. An offset that is not below the number of lines is refused without asking
  the device. Otherwise the reply names the line in full, and its direction is what the device
  answers: 0 counts as input and every other value as output, also the value 2, which VirtIO uses for
  input.
\<close>

lemma line_info_answer:
  assumes "callable env dev c sys" and "d_default msg = None" and "d_dcmd msg = GPIO_V2_GET_LINEINFO_IOCTL"
    and "d_offset msg < ucast (cfg_ngpio (gd_config dev)) \<longrightarrow>
           sends env dev VIRTIO_GPIO_MSG_GET_DIRECTION (ucast (d_offset msg)) 0 c sys"
  shows "if d_offset msg < ucast (cfg_ngpio (gd_config dev))
     then \<exists>s h. settled c sys s h \<and>
       resmgr_devctl env (serve env VIRTIO_GPIO_STATUS_OK v) dev c msg (sys_state sys) (sys_hist sys) =
         Some (Reply_ptr 256, Some (Line_payload \<lparr> line_name = line_file (unat (gd_idx dev)) (unat (d_offset msg)),
           line_offset = d_offset msg,
           line_flags = line_flag (if v = VIRTIO_GPIO_DIRECTION_NONE then GPIO_V2_LINE_FLAG_INPUT else GPIO_V2_LINE_FLAG_OUTPUT) \<rparr>), s, h)
     else resmgr_devctl env others dev c msg (sys_state sys) (sys_hist sys) =
         Some (Status ENOENT, None, sys_state sys, sys_hist sys)"
proof (cases "d_offset msg < ucast (cfg_ngpio (gd_config dev))")
  case True
  have "unat (d_offset msg) < unat (cfg_ngpio (gd_config dev))"
    using True by (simp add: word_less_nat_alt)
  then have n: "unat (d_offset msg) < 65536" using unat_u16_less [of "cfg_ngpio (gd_config dev)"] by simp
  from get_direction_served [OF assms(1), of "ucast (d_offset msg)" VIRTIO_GPIO_STATUS_OK v
      "ucast (env_uninit env (sys_hist sys))"] assms(4) True
  obtain s h where g: "virtio_gpio_get_direction env (serve env VIRTIO_GPIO_STATUS_OK v) dev (ucast (d_offset msg))
      (Some (ucast (env_uninit env (sys_hist sys)))) c (sys_state sys) (sys_hist sys) =
      Some (EOK, Some v, s, h)" "settled c sys s h" by (auto simp: answer_of_def)
  have le: "\<not> ucast (cfg_ngpio (gd_config dev)) \<le> d_offset msg" using True by simp
  show ?thesis
    unfolding if_P [OF True]
    using g assms(2,3) le line_name_fits [OF n, of "gd_idx dev"]
    by (intro exI [of _ s] exI [of _ h])
      (simp add: resmgr_devctl_def devctl_lineinfo_def virtio_gpio_num_gpios_def virtio_gpio_get_chip_index_def
        VIRTIO_GPIO_DIRECTION_NONE_def)
next
  case False
  then have "ucast (cfg_ngpio (gd_config dev)) \<le> d_offset msg" by simp
  then show ?thesis
    unfolding if_not_P [OF False] using assms(2,3)
    by (simp add: resmgr_devctl_def devctl_lineinfo_def virtio_gpio_num_gpios_def virtio_gpio_get_chip_index_def)
qed

text \<open>
  The paths of all files fit the buffer, and different lines of one or several chips, and the
  chips themselves, have different paths.
\<close>

lemma no_dot_dec [simp]: "CHR ''.'' \<notin> set (dec n)"
  using dec_digits by (fastforce simp: is_digit_def digit_val_def)

lemma dec_dot: "dec i @ ''.'' @ s = dec j @ ''.'' @ t \<longleftrightarrow> i = j \<and> s = t"
proof
  assume e: "dec i @ ''.'' @ s = dec j @ ''.'' @ t"
  have tw: "takeWhile (\<lambda>c. c \<noteq> CHR ''.'') (dec n @ ''.'' @ u) = dec n" for n u
  proof -
    have "\<And>c. c \<in> set (dec n) \<Longrightarrow> c \<noteq> CHR ''.''" by auto
    then show ?thesis by (simp add: takeWhile_append2)
  qed
  from tw [of i s] tw [of j t] e have "dec i = dec j" by metis
  then show "i = j \<and> s = t" using e by simp
qed simp

theorem resmgr_paths:
  assumes "n < 65536" and "m < 65536"
  shows "chip_path i = ''/dev/gpiochip'' @ dec (unat i) \<and> line_path i n = ''/dev/gpio'' @ dec (unat i) @ ''.'' @ dec n \<and>
     (line_path i n = line_path j m \<longleftrightarrow> i = j \<and> n = m) \<and> line_path i n \<noteq> chip_path j"
proof -
  have c: "chip_path i = ''/dev/gpiochip'' @ dec (unat i)" for i
    using length_dec16 [of i] by (simp add: chip_path_def snprintf_def chip_file_def)
  have l: "line_path i n = ''/dev/gpio'' @ dec (unat i) @ ''.'' @ dec n" if "n < 65536" for i n
    using length_dec16 [of i] length_dec_line [OF that] by (simp add: line_path_def snprintf_def line_file_def)
  obtain d u where d: "dec (unat i) = d # u" "is_digit 10 d"
    using dec_not_Nil [of "unat i"] dec_digits [of _ "unat i"] by (cases "dec (unat i)") auto
  have "d \<noteq> CHR ''c''" using d(2) by (auto simp: is_digit_def digit_val_def)
  then have "line_path i n \<noteq> chip_path j" using l [OF assms(1)] c d(1) by simp
  moreover have "line_path i n = line_path j m \<longleftrightarrow> i = j \<and> n = m"
    using l [OF assms(1), of i] l [OF assms(2), of j] dec_dot [of "unat i" "dec n" "unat j" "dec m"]
    by (simp add: unat_inject)
  ultimately show ?thesis using c l [OF assms(1)] by simp
qed

section \<open>Attaching and cleaning up\<close>

text \<open>The identifiers attached and not detached; those of the chip; blocks and dispatch structures not released.\<close>

fun attached :: "rm_hist \<Rightarrow> int multiset" where
  "attached [] = {#}"
| "attached (Attach p a i # h) = (if i = -1 then attached h else add_mset i (attached h))"
| "attached (Detach i # h) = attached h - {#i#}"
| "attached (_ # h) = attached h"

fun chip_attached :: "rm_hist \<Rightarrow> int multiset" where
  "chip_attached [] = {#}"
| "chip_attached (Attach p a i # h) = (if i = -1 \<or> a \<noteq> chip_attr then chip_attached h else add_mset i (chip_attached h))"
| "chip_attached (_ # h) = chip_attached h"

fun rm_blocks :: "rm_hist \<Rightarrow> ptr multiset" where
  "rm_blocks [] = {#}"
| "rm_blocks (Rm_calloc n ty (Inr p) # h) = add_mset p (rm_blocks h)"
| "rm_blocks (Rm_free p # h) = rm_blocks h - {#p#}"
| "rm_blocks (Dispatch_create (Inr p) # h) = add_mset p (rm_blocks h)"
| "rm_blocks (Dispatch_destroy p # h) = rm_blocks h - {#p#}"
| "rm_blocks (_ # h) = rm_blocks h"

definition is_block :: "rm_event \<Rightarrow> bool" where
  "is_block e \<longleftrightarrow> (case e of Dispatch_block _ _ \<Rightarrow> True | _ \<Rightarrow> False)"

abbreviation blocks :: "rm_hist \<Rightarrow> nat" where
  "blocks h \<equiv> length (filter is_block h)"

lemma is_block_simps [simp]:
  "is_block (Dispatch_block p r)" "\<not> is_block (Dispatch_handler p)" "\<not> is_block (Attach path a i)" "\<not> is_block (Detach i)"
  "\<not> is_block (Dispatch_create r)" "\<not> is_block (Rm_calloc n ty r)" "\<not> is_block (Rm_free p)" "\<not> is_block (Dispatch_destroy p)"
  "\<not> is_block (Context_alloc r)"
  by (simp_all add: is_block_def)

lemma line_not_chip [simp]: "line_attr n \<noteq> chip_attr"
  by (simp add: line_attr_def chip_attr_def)

text \<open>The identifiers of lines among the first \<open>n\<close>.\<close>

abbreviation line_ids :: "nat \<Rightarrow> int list \<Rightarrow> int multiset" where
  "line_ids n is \<equiv> filter_mset (\<lambda>i. i \<noteq> -1) (mset (take n is))"

lemma line_ids_update:
  assumes "n < m" and "m \<le> length is" and "is ! n = -1"
  shows "line_ids m (is[n := i]) = (if i = -1 then line_ids m is else add_mset i (line_ids m is))"
proof -
  have "n < length (take m is)" "take m is ! n = -1" using assms by simp_all
  then have "mset ((take m is)[n := i]) = add_mset i (mset (take m is) - {#-1#})" by (simp add: mset_update)
  then show ?thesis by (simp add: take_update_swap)
qed

lemma attach_lines_run:
  assumes "attach_lines env index n k is h = (err, is', h')" and "n + k < length is"
    and "\<And>j. n \<le> j \<Longrightarrow> j < n + k \<Longrightarrow> is ! j = -1"
  shows "attached h' + line_ids (n + k) is = attached h + line_ids (n + k) is' \<and>
     chip_attached h' = chip_attached h \<and> rm_blocks h' = rm_blocks h \<and> length is' = length is"
  using assms
proof (induction k arbitrary: n "is" h)
  case 0
  then show ?case by auto
next
  case (Suc k)
  obtain i e where a: "rme_attach env h (line_path index n) = (i, e)" by fastforce
  let ?h = "Attach (line_path index n) (line_attr n) i # h" and ?is = "is[n := i]"
  have up: "line_ids (n + Suc k) ?is = (if i = -1 then line_ids (n + Suc k) is else add_mset i (line_ids (n + Suc k) is))"
    using Suc.prems(2,3) by (intro line_ids_update) auto
  show ?case
  proof (cases "i = -1")
    case True
    then show ?thesis using Suc.prems(1) a up by (auto simp: rm_attach_def)
  next
    case False
    then have r: "attach_lines env index (Suc n) k ?is ?h = (err, is', h')"
      using Suc.prems(1) a by (simp add: rm_attach_def)
    have "attached h' + line_ids (Suc n + k) ?is = attached ?h + line_ids (Suc n + k) is' \<and>
        chip_attached h' = chip_attached ?h \<and> rm_blocks h' = rm_blocks ?h \<and> length is' = length ?is"
      by (rule Suc.IH [OF r]) (use Suc.prems(2,3) in auto)
    then show ?thesis using False up by simp
  qed
qed

lemma detach_lines_run:
  "attached (detach_lines is h) = attached h - filter_mset (\<lambda>i. i \<noteq> -1) (mset is)"
  "chip_attached (detach_lines is h) = chip_attached h" "rm_blocks (detach_lines is h) = rm_blocks h"
  by (induction "is" arbitrary: h) (auto simp: diff_diff_add_mset)

lemma dispatch_loop_blocks:
  assumes "dispatch_loop env ctp h = Some (rc, h')"
  shows "0 < blocks h'"
proof -
  have "0 < blocks (snd (rc, h'))"
    by (rule dispatch_loop.raw_induct [where P = "\<lambda>env ctp h r. 0 < blocks (snd r)", OF _ assms])
      (auto split: sum.splits)
  then show ?thesis by simp
qed

lemma rm_detach_run:
  assumes "rm_detach rc dpp resmgr attrs idp n is h = (rc', h')"
  shows "rc' = rc" "attached h' = attached h - line_ids n is" "chip_attached h' = chip_attached h"
    "rm_blocks h' = rm_blocks h - {#idp#} - {#attrs#} - {#resmgr#} - {#dpp#}"
  using assms by (auto simp: rm_detach_def rm_free_attrs_def rm_free_resmgr_def rm_free_dpp_def detach_lines_run)

lemma no_ids [simp]: "filter_mset (\<lambda>i. i \<noteq> -1) (replicate_mset n (-1 :: int)) = {#}"
  by (induction n) simp_all

lemma line_ids_start: "line_ids n ((replicate n (-1) @ [0])[n := i]) = {#}"
  by (simp add: list_update_append)

text \<open>From the attachment of the chip's file on.\<close>

lemma resmgr_serve_run:
  assumes "resmgr_serve env index n dpp resmgr attrs idp h = Some (rc, h')"
    and "attached h = {#}" "chip_attached h = {#}" and "rm_blocks h = {#idp, attrs, resmgr, dpp#}"
  shows "0 < blocks h' \<or> (attached h' = chip_attached h' \<and> size (attached h') \<le> 1 \<and> rm_blocks h' = {#})"
proof -
  obtain i e where a: "rme_attach env h (chip_path index) = (i, e)" by fastforce
  let ?h1 = "Attach (chip_path index) chip_attr i # h" and ?is = "(replicate n (-1) @ [0])[n := i]"
  show ?thesis
  proof (cases "i = -1")
    case True
    then have "rm_detach e dpp resmgr attrs idp n ?is ?h1 = (rc, h')"
      using assms(1) a by (simp add: resmgr_serve_def rm_attach_def)
    from rm_detach_run [OF this] True assms(2-4) line_ids_start show ?thesis by simp
  next
    case False
    obtain err is' h2 where l: "attach_lines env index 0 n ?is ?h1 = (err, is', h2)" by (metis prod_cases3)
    have run: "attached h2 + line_ids (0 + n) ?is = attached ?h1 + line_ids (0 + n) is' \<and>
        chip_attached h2 = chip_attached ?h1 \<and> rm_blocks h2 = rm_blocks ?h1 \<and> length is' = length ?is"
      by (rule attach_lines_run [OF l]) (simp_all add: nth_append nth_list_update)
    then have h2: "attached h2 = {#i#} + line_ids n is'" "chip_attached h2 = {#i#}"
        "rm_blocks h2 = {#idp, attrs, resmgr, dpp#}"
      using False assms(2-4) line_ids_start [of n i] by simp_all
    have fin: "attached h' = chip_attached h' \<and> size (attached h') \<le> 1 \<and> rm_blocks h' = {#}"
      if "rm_detach e' dpp resmgr attrs idp n is' h3 = (rc, h')" and "h3 = h2 \<or> h3 = Context_alloc r # h2" for e' h3 r
      using rm_detach_run [OF that(1)] that(2) h2 by auto
    show ?thesis
    proof (cases err)
      case (Some e')
      then have "rm_detach e' dpp resmgr attrs idp n is' h2 = (rc, h')"
        using assms(1) a False l by (simp add: resmgr_serve_def rm_attach_def)
      from fin [OF this disjI1 [OF refl]] show ?thesis ..
    next
      case None
      let ?r = "rme_context_alloc env h2"
      show ?thesis
      proof (cases ?r)
        case (Inl e')
        then have "rm_detach e' dpp resmgr attrs idp n is' (Context_alloc ?r # h2) = (rc, h')"
          using assms(1) a False l None by (simp add: resmgr_serve_def rm_attach_def)
        from fin [OF this disjI2 [OF refl]] show ?thesis ..
      next
        case (Inr ctp)
        then have "dispatch_loop env ctp (Context_alloc ?r # h2) = Some (rc, h')"
          using assms(1) a False l None by (simp add: resmgr_serve_def rm_attach_def)
        from dispatch_loop_blocks [OF this] show ?thesis ..
      qed
    qed
  qed
qed

text \<open>
  C34: the error path of \<open>resmgr_run\<close>. Whenever it returns without having entered the dispatch loop, whatever call
  failed, every identifier that a line got is detached, every block is freed and the dispatch structure is
  destroyed. What stays attached is the file of the chip, if it was attached.
\<close>

theorem resmgr_run_cleanup:
  assumes "resmgr_run env (Some dev) index [] = Some (rc, h')"
  shows "0 < blocks h' \<or> (attached h' = chip_attached h' \<and> size (attached h') \<le> 1 \<and> rm_blocks h' = {#})"
proof -
  let ?n = "unat (cfg_ngpio (gd_config dev))"
  note defs = resmgr_run_def virtio_gpio_num_gpios_def rm_calloc_def Let_def
  let ?r0 = "rme_dispatch_create env []" let ?h0 = "[Dispatch_create ?r0]"
  show ?thesis
  proof (cases ?r0)
    case (Inl e)
    then show ?thesis using assms by (auto simp: defs)
  next
    case dpp: (Inr dpp)
    let ?r1 = "rme_calloc env ?h0 1 ''struct gpio_resmgr''" let ?h1 = "Rm_calloc 1 ''struct gpio_resmgr'' ?r1 # ?h0"
    show ?thesis
    proof (cases ?r1)
      case (Inl e)
      then show ?thesis using assms dpp by (auto simp: defs rm_free_dpp_def)
    next
      case rm: (Inr resmgr)
      let ?r2 = "rme_calloc env ?h1 (?n + 1) ''struct gpio_iofunc_attr''"
      let ?h2 = "Rm_calloc (?n + 1) ''struct gpio_iofunc_attr'' ?r2 # ?h1"
      show ?thesis
      proof (cases ?r2)
        case (Inl e)
        then show ?thesis using assms dpp rm by (auto simp: defs rm_free_dpp_def rm_free_resmgr_def)
      next
        case at: (Inr attrs)
        let ?r3 = "rme_calloc env ?h2 (?n + 1) ''int''" let ?h3 = "Rm_calloc (?n + 1) ''int'' ?r3 # ?h2"
        show ?thesis
        proof (cases ?r3)
          case (Inl e)
          then show ?thesis using assms dpp rm at
            by (auto simp: defs rm_free_dpp_def rm_free_resmgr_def rm_free_attrs_def)
        next
          case idp: (Inr idp)
          then have "resmgr_serve env index ?n dpp resmgr attrs idp ?h3 = Some (rc, h')"
            using assms dpp rm at by (simp add: defs)
          then show ?thesis by (rule resmgr_serve_run) (use dpp rm at idp in simp_all)
        qed
      qed
    qed
  qed
qed

text \<open>The messages handled.\<close>

fun handled :: "rm_hist \<Rightarrow> nat" where
  "handled [] = 0"
| "handled (Dispatch_handler p # h) = Suc (handled h)"
| "handled (_ # h) = handled h"

lemma dispatch_loop_never:
  assumes "\<And>h p. \<exists>q. rme_dispatch_block env h p = Inr q"
  shows "dispatch_loop env ctp h = None"
proof (cases "dispatch_loop env ctp h")
  case (Some r)
  have no: "rme_dispatch_block env h p \<noteq> Inl e" for h p e by (metis assms Inl_Inr_False)
  have "False"
    by (rule dispatch_loop.raw_induct [where P = "\<lambda>env' ctp h r. env' = env \<longrightarrow> False", OF _ Some, simplified])
      (auto simp: no split: sum.splits)
  then show ?thesis ..
qed simp

lemma dispatch_loop_after:
  assumes "\<And>h p. n \<le> blocks h \<Longrightarrow> \<exists>e. rme_dispatch_block env h p = Inl e"
  shows "\<exists>rc p es. dispatch_loop env ctp h = Some (rc, Dispatch_block p (Inl rc) # es @ h) \<and>
           handled (es @ h) + blocks h = blocks (es @ h) + handled h"
proof (induction "n - blocks h" arbitrary: ctp h rule: less_induct)
  case less
  show ?case
  proof (cases "rme_dispatch_block env h ctp")
    case (Inl e)
    then show ?thesis
      by (subst dispatch_loop.simps) (auto intro!: exI [of _ e] exI [of _ ctp] exI [of _ "[]"])
  next
    case (Inr q)
    let ?h = "Dispatch_handler q # Dispatch_block ctp (Inr q) # h"
    have "blocks h < n" using assms [of h ctp] Inr by (metis Inl_Inr_False not_le)
    then have "n - blocks ?h < n - blocks h" by simp
    from less [OF this, of q] obtain rc p es where
      r: "dispatch_loop env q ?h = Some (rc, Dispatch_block p (Inl rc) # es @ ?h)"
        "handled (es @ ?h) + blocks ?h = blocks (es @ ?h) + handled ?h" by blast
    show ?thesis
      using r Inr by (subst dispatch_loop.simps)
        (auto intro!: exI [of _ rc] exI [of _ p] exI [of _ "es @ [Dispatch_handler q, Dispatch_block ctp (Inr q)]"])
  qed
qed

text \<open>
  How long \<open>resmgr_run\<close> serves. The dispatch loop ends with the first \<open>dispatch_block\<close> that fails, and with its
  \<open>errno\<close>: if none ever fails it never returns; if, after \<open>n\<close> messages at most, one does, it returns, every
  message before that one handled.
\<close>

theorem dispatch_loop_ends:
  "((\<forall>h p. \<exists>q. rme_dispatch_block env h p = Inr q) \<longrightarrow> dispatch_loop env ctp h = None) \<and>
   ((\<forall>h p. n \<le> blocks h \<longrightarrow> (\<exists>e. rme_dispatch_block env h p = Inl e)) \<longrightarrow>
    (\<exists>rc p es. dispatch_loop env ctp h = Some (rc, Dispatch_block p (Inl rc) # es @ h) \<and>
       handled (es @ h) + blocks h = blocks (es @ h) + handled h))"
  using dispatch_loop_never [of env ctp h] dispatch_loop_after [of n env ctp h] by blast

section \<open>Concrete inputs\<close>

text \<open>The example of \<^theory_text>\<open>Gpio_System\<close>, line 3.\<close>

lemma callable_example: "callable env_fresh gpio_example_dev 0x7000 gpio_example"
  using gpio_start_inv [OF gpio_example_start] platform_ok_example gpio_example_sel by (simp add: callable_def)

lemma sends_line_example:
  "type \<in> client_types \<Longrightarrow> sends env_fresh gpio_example_dev type gpio val 0x7000 gpio_example"
proof (rule sends_if_buffers)
  show "gs_vq (sys_state gpio_example) = Some gpio_example_queue" by (simp add: gpio_example_def)
  show "buffers_ok env_fresh gpio_example_queue (SemInit 0x7000 0 # sys_hist gpio_example)" by code_simp
qed (use virtq_inv_gpio_example platform_ok_example in \<open>simp_all add: env_fresh_def\<close>)

lemma client_types_simps [simp]:
  "VIRTIO_GPIO_MSG_GET_VALUE \<in> client_types" "VIRTIO_GPIO_MSG_GET_DIRECTION \<in> client_types"
  "VIRTIO_GPIO_MSG_SET_VALUE \<in> client_types" "VIRTIO_GPIO_MSG_SET_DIRECTION \<in> client_types"
  by (simp_all add: client_types_def)

theorem resmgr_read_line_witness:
  "\<exists>s h. resmgr_read env_fresh (serve env_fresh 0 1) gpio_example_dev 0x7000 \<lparr> r_verify = 0, r_nbytes = 16 \<rparr> (line_attr 3) 0
     (sys_state gpio_example) (sys_hist gpio_example) =
     Some (Nparts 1, \<lparr> read_nbytes = Some 1, read_iov = Some 1 \<rparr>, (line_attr 3)\<lparr> attr_value := 0x31 \<rparr>, 1, s, h)"
  using resmgr_read_line [OF callable_example sends_line_example [OF client_types_simps(1)], where n = 3 and st = 0 and v = 1
      and msg = "\<lparr> r_verify = 0, r_nbytes = 16 \<rparr>"]
  by (simp add: VIRTIO_GPIO_STATUS_OK_def) blast

theorem resmgr_read_past_end_witness:
  "\<exists>s h. resmgr_read env_fresh (serve env_fresh 0 1) gpio_example_dev 0x7000 \<lparr> r_verify = 0, r_nbytes = 4096 \<rparr> (line_attr 3) 2
     (sys_state gpio_example) (sys_hist gpio_example) =
     Some (Nparts 1, \<lparr> read_nbytes = Some 4096, read_iov = Some 4096 \<rparr>, (line_attr 3)\<lparr> attr_value := 0x31 \<rparr>, 4098, s, h)"
proof -
  have "(1::u64) < 2" "r_nbytes \<lparr> r_verify = 0, r_nbytes = 4096 \<rparr> \<le> 1 - 2" by simp_all
  from resmgr_read_past_end [OF callable_example sends_line_example [OF client_types_simps(1)] _ _ _ this, where n = 3 and v = 1]
  show ?thesis by (simp add: VIRTIO_GPIO_STATUS_OK_def)
qed

theorem resmgr_write_line_witness:
  "\<exists>s h. resmgr_write env_fresh (serve env_fresh 0 0) gpio_example_dev 0x7000
     \<lparr> w_verify = 0, w_nbytes = 1, w_data = Inr (Some 0x31) \<rparr> (line_attr 3)
     (sys_state gpio_example) (sys_hist gpio_example) = Some (Status EOK, Some 1, s, h)"
  using resmgr_write_line [OF callable_example, where n = 3 and st = 0 and v = 0 and b = "0x31" and others = "\<lambda>s h. None"
      and msg = "\<lparr> w_verify = 0, w_nbytes = 1, w_data = Inr (Some 0x31) \<rparr>"] sends_line_example [OF client_types_simps(3)]
  by (simp add: VIRTIO_GPIO_STATUS_OK_def answer_of_def) blast

theorem resmgr_paths_witness: "line_path 0 3 = ''/dev/gpio'' @ dec 0 @ ''.'' @ dec 3 \<and> line_path 0 3 \<noteq> chip_path 0 \<and> line_path 0 3 \<noteq> line_path 0 4"
  using resmgr_paths [of 3 4 0 0] by auto

text \<open>A platform where the third line cannot be attached, and where the fourth message fails.\<close>

definition rm_env0 :: rm_env where
  "rm_env0 = \<lparr> rme_dispatch_create = (\<lambda>h. Inr 0x1000), rme_calloc = (\<lambda>h n ty. Inr (0x2000 * (1 + of_nat (length h)))),
     rme_attach = (\<lambda>h p. if 6 < length h then (-1, ENOMEM) else (int (length h), 0)),
     rme_context_alloc = (\<lambda>h. Inr 0x3000), rme_dispatch_block = (\<lambda>h p. if 3 \<le> blocks h then Inl EINTR else Inr p),
     rme_uninit = (\<lambda>h. 0) \<rparr>"

theorem resmgr_run_cleanup_witness:
  "\<exists>h'. resmgr_run rm_env0 (Some gpio_example_dev) 0 [] = Some (ENOMEM, h') \<and> (0 < blocks h' \<or> rm_blocks h' = {#})"
proof -
  have "map_option fst (resmgr_run rm_env0 (Some gpio_example_dev) 0 []) = Some ENOMEM" by code_simp
  then obtain h' where "resmgr_run rm_env0 (Some gpio_example_dev) 0 [] = Some (ENOMEM, h')" by auto
  with resmgr_run_cleanup [OF this] show ?thesis by blast
qed

theorem dispatch_loop_ends_witness:
  "\<exists>rc p es. dispatch_loop rm_env0 0x3000 [] = Some (rc, Dispatch_block p (Inl rc) # es) \<and> handled es = blocks es"
  using dispatch_loop_ends [of rm_env0 "0x3000" "[]" 3] by (simp add: rm_env0_def)

end
