(* ===== verification/Driver.thy ===== *)
theory Driver
  imports Gpio_Init Options Logging Resmgr
begin

text \<open>
  \<^verbatim>\<open>src/gpio/main.c\<close>: the program. It parses the command line, initialises the log, sets up the driver and serves the
  files. \<open>env\<close>, \<open>log_env\<close> and \<open>rm_env\<close> are the platform of the three parts; the log lines and the raising of I/O
  privileges are left out.
\<close>

section \<open>The program\<close>

text \<open>The initial value of \<open>virtio_args\<close>.\<close>

definition virtio_args0 :: virtio_args where
  "virtio_args0 = \<lparr> args_idx = 0, args_mem = 0, args_irq = 0, args_qsize = 0 \<rparr>"

fun resmgr_run_on :: "rm_env \<Rightarrow> gpio_handle option \<Rightarrow> u16 \<Rightarrow> rm_hist \<Rightarrow> (rc \<times> rm_hist) option" where
  "resmgr_run_on renv (Some (Over_mmio d)) index rh = resmgr_run renv (Some d) index rh"
| "resmgr_run_on renv (Some (Over_pci d)) index rh = resmgr_run renv (Some d) index rh"
| "resmgr_run_on renv None index rh = resmgr_run renv (None :: unit virtio_gpio_device option) index rh"

text \<open>
  The exit status, the log's context, and the histories. \<open>dev\<close> is the uninitialised variable for the
  device.
\<close>

definition driver_main ::
  "env \<Rightarrow> log_env \<Rightarrow> rm_env \<Rightarrow> string \<Rightarrow> getopt list \<Rightarrow> gpio_handle option \<Rightarrow> (int \<times> logging_ctx \<times> hist \<times> rm_hist) option" where
  "driver_main env lenv renv prog opts dev =
     (let (rc, args, _) = parse_options prog opts virtio_args0
      in if rc \<noteq> 0 then Some (-1, g_log_ctx, [], [])
      else
        let (_, ctx, _) = logging_init lenv (Some ''dev-virtio-gpio'') LOG_FLAG_NONE g_log_ctx []
        in do {
          (rc, dev, _, h) \<leftarrow>
            virtio_gpio_init env (ucast (args_idx args)) (args_mem args) (args_irq args) (ucast (args_qsize args)) (Some dev) [];
          (if rc \<noteq> 0 then Some (-1, ctx, h, [])
           else do {
             dev \<leftarrow> dev;
             (rc, rh) \<leftarrow> resmgr_run_on renv dev 0 [];
             Some (rc, ctx, h, rh)
           })
        })"


text \<open>
  The file of a line and the name that a devctl reports for it agree for the device with index 0 only.
\<close>

lemma line_names_differ:
  assumes "n < 65536"
  shows "line_path 0 n = ''/dev/'' @ snprintf GPIO_MAX_NAME_SIZE (line_file (unat (i::size_t)) n) \<longleftrightarrow> i = 0"
proof -
  have "line_path 0 n = ''/dev/'' @ line_file 0 n"
    using length_dec_line [OF assms] length_dec16 [of 0] by (simp add: line_path_def snprintf_def line_file_def)
  then show ?thesis
    using dec_dot [of 0 "dec n" "unat i" "dec n"] line_name_fits [OF assms, of i]
    by (auto simp: line_file_def unat_eq_0)
qed

end
