(* ===== verification/Gpio_Threads.thy ===== *)
theory Gpio_Threads
  imports Gpio_System
begin

text \<open>
  The driver's threads interleaved. \<^theory_text>\<open>Gpio_System\<close> runs a client up to its wait, and the interrupt
  callback to its end, in one step; here every call into the virtqueue is a step of its own, and
  any number of clients, the interrupt thread and the device take turns between them.

  A thread's place in the code is a program counter that carries the locals it still needs. The
  first section shows that the steps, run one after the other, are the functions of \<^theory_text>\<open>Gpio\<close>. The
  invariant says whose each descriptor is: a client's that is still building its request, a
  request's in flight, or the interrupt thread's that is taking an answer apart. What one thread
  does is a change to its own descriptors, so the others' assertions survive it.
\<close>

section \<open>A client, call by call\<close>

text \<open>
  The places of a client in \<open>virtio_gpio_request\<close>, before each of its calls, and its wait after it.
  They carry the parameters \<open>type\<close>, \<open>gpio\<close> and \<open>value\<close> and the two descriptors. The code has no
  more use for the parameters after the store and for the head after the notification; they are
  kept to speak about the request that was sent.
\<close>

datatype request = Request (req_type: u16) (req_gpio: u16) (req_value: u16)

datatype client_pc =
    At_alloc0 request
  | At_alloc1 request u16
  | At_free1 rc u16 u16
  | At_free0 rc u16
  | At_store request u16 u16
  | At_context request u16 u16
  | At_put request u16 u16
  | At_notify request u16
  | At_wait request u16
  | At_return rc

fun client_step ::
  "env \<Rightarrow> 'p virtio_gpio_device \<Rightarrow> ptr \<Rightarrow> client_pc \<Rightarrow> gpio_state \<Rightarrow> hist \<Rightarrow> (client_pc \<times> gpio_state \<times> hist) option" where
  "client_step env dev c (At_alloc0 r) s h = do {
     (rc, vq, i, h) \<leftarrow> virtq_alloc_desc env (gs_vq s) 8 False (Some (ucast (env_uninit env h))) h;
     i \<leftarrow> i;
     Some (if rc \<noteq> EOK then At_return rc else At_alloc1 r i, s\<lparr> gs_vq := vq \<rparr>, h)
   }"
| "client_step env dev c (At_alloc1 r i) s h = do {
     (rc, vq, j, h) \<leftarrow>
       virtq_alloc_desc env (gs_vq s) (ucast (virtio_gpio_response_size dev (req_type r))) True
         (Some (ucast (env_uninit env h))) h;
     j \<leftarrow> j;
     Some (if rc \<noteq> EOK then At_free0 rc i else At_store r i j, s\<lparr> gs_vq := vq \<rparr>, h)
   }"
| "client_step env dev c (At_free1 rc i j) s h = do {
     q \<leftarrow> gs_vq s;
     (_, q, h) \<leftarrow> virtq_free_desc env q j h;
     Some (At_free0 rc i, s\<lparr> gs_vq := Some q \<rparr>, h)
   }"
| "client_step env dev c (At_free0 rc i) s h = do {
     (rc, s, h) \<leftarrow> gpio_free_desc0 env rc i s h;
     Some (At_return rc, s, h)
   }"
| "client_step env dev c (At_store r i j) s h = do {
     (rc, request) \<leftarrow> virtq_get_desc_vaddr (gs_vq s) i (Some (env_uninit env h));
     (if rc \<noteq> EOK then Some (At_free1 rc i j, s, h)
      else do {
        request \<leftarrow> request;
        s \<leftarrow> store_request s h request (req_type r) (req_gpio r) (req_value r);
        Some (At_context r i j, s, h)
      })
   }"
| "client_step env dev c (At_context r i j) s h = do {
     (_, vq) \<leftarrow> virtq_set_desc_context (gs_vq s) i c;
     q \<leftarrow> vq;
     Some (At_put r i j, s\<lparr> gs_vq := Some q \<rparr>, h)
   }"
| "client_step env dev c (At_put r i j) s h = do {
     q \<leftarrow> gs_vq s;
     (_, q, h) \<leftarrow> virtq_put_desc_chain env q 2 [i, j] h;
     Some (At_notify r i, s\<lparr> gs_vq := Some q \<rparr>, h)
   }"
| "client_step env dev c (At_notify r i) s h = do {
     (_, h) \<leftarrow> virtio_notify_queue env (Some (gd_dev dev)) 0 h;
     Some (At_wait r i, s, h)
   }"
| "client_step env dev c (At_wait r i) s h = None"
| "client_step env dev c (At_return rc) s h = None"

text \<open>The result of \<open>virtio_gpio_request\<close> once it has returned.\<close>

fun request_result :: "client_pc \<Rightarrow> rc option" where
  "request_result (At_wait r i) = Some EOK"
| "request_result (At_return rc) = Some rc"
| "request_result _ = None"

text \<open>A client alone, up to \<open>n\<close> steps; it stops when the request has returned.\<close>

fun client_steps ::
  "env \<Rightarrow> 'p virtio_gpio_device \<Rightarrow> ptr \<Rightarrow> nat \<Rightarrow> client_pc \<Rightarrow> gpio_state \<Rightarrow> hist \<Rightarrow>
   (client_pc \<times> gpio_state \<times> hist) option" where
  "client_steps env dev c 0 pc s h = Some (pc, s, h)"
| "client_steps env dev c (Suc n) pc s h =
     (if request_result pc \<noteq> None then Some (pc, s, h)
      else do {
        (pc, s, h) \<leftarrow> client_step env dev c pc s h;
        client_steps env dev c n pc s h
      })"

section \<open>The interrupt thread, call by call\<close>

text \<open>
  The places of the callback: outside, before \<open>virtq_get_desc_chain\<close>, before the completion, and
  before each of the two calls of \<open>virtq_free_desc\<close>. The argument is the array of the callback.
\<close>

datatype irq_pc =
    Irq_idle
  | Irq_fetch "u16 list"
  | Irq_got "u16 list"
  | Irq_free0 "u16 list"
  | Irq_free1 "u16 list"

fun irq_step :: "env \<Rightarrow> irq_pc \<Rightarrow> gpio_state \<Rightarrow> hist \<Rightarrow> (irq_pc \<times> gpio_state \<times> hist) option" where
  "irq_step env Irq_idle s h = Some (Irq_fetch (replicate 2 (ucast (env_uninit env h))), s, h)"
| "irq_step env (Irq_fetch idxs) s h = do {
     (rc, idxs, s, h) \<leftarrow> virtq_callback_get env idxs s h;
     Some (if rc \<noteq> 0 then Irq_idle else Irq_got idxs, s, h)
   }"
| "irq_step env (Irq_got idxs) s h = do {
     i \<leftarrow> arr_get idxs 0;
     j \<leftarrow> arr_get idxs 1;
     r \<leftarrow> virtq_get_desc_vaddr (gs_vq s) i (Some (env_uninit env h));
     request \<leftarrow> pointer_of r;
     r \<leftarrow> virtq_get_desc_vaddr (gs_vq s) j (Some (env_uninit env h));
     response \<leftarrow> pointer_of r;
     r \<leftarrow> virtq_get_desc_context (gs_vq s) i (Some (env_uninit env h));
     context \<leftarrow> pointer_of r;
     ctx \<leftarrow> gs_ctx s context;
     (s, h) \<leftarrow>
       (case ctx_callback (ctx_header ctx) of
          None \<Rightarrow> None
        | Some Virtio_gpio_callback \<Rightarrow> virtio_gpio_callback request response context s h);
     Some (Irq_free0 idxs, s, h)
   }"
| "irq_step env (Irq_free0 idxs) s h = do {
     i \<leftarrow> arr_get idxs 0;
     q \<leftarrow> gs_vq s;
     (_, q, h) \<leftarrow> virtq_free_desc env q i h;
     Some (Irq_free1 idxs, s\<lparr> gs_vq := Some q \<rparr>, h)
   }"
| "irq_step env (Irq_free1 idxs) s h = do {
     j \<leftarrow> arr_get idxs 1;
     q \<leftarrow> gs_vq s;
     (_, q, h) \<leftarrow> virtq_free_desc env q j h;
     Some (Irq_fetch idxs, s\<lparr> gs_vq := Some q \<rparr>, h)
   }"

text \<open>The interrupt thread alone, up to \<open>n\<close> steps of one callback.\<close>

fun irq_steps :: "env \<Rightarrow> nat \<Rightarrow> irq_pc \<Rightarrow> gpio_state \<Rightarrow> hist \<Rightarrow> (irq_pc \<times> gpio_state \<times> hist) option" where
  "irq_steps env 0 pc s h = Some (pc, s, h)"
| "irq_steps env (Suc n) pc s h =
     (if pc = Irq_idle then Some (pc, s, h)
      else do {
        (pc, s, h) \<leftarrow> irq_step env pc s h;
        irq_steps env n pc s h
      })"

section \<open>The steps are the functions\<close>

lemma client_steps_free0:
  "client_steps env dev c (Suc n) (At_free0 rc i) s h =
     Option.bind (gpio_free_desc0 env rc i s h) (\<lambda>(rc, s, h). Some (At_return rc, s, h))"
  by (cases n) (auto split: bind_splits)

lemma virtio_gpio_request_steps:
  "virtio_gpio_request env dev type gpio value c s h =
     Option.bind (client_steps env dev c 6 (At_alloc0 (Request type gpio value)) s h)
       (\<lambda>(pc, s, h). Option.bind (request_result pc) (\<lambda>rc. Some (rc, s, h)))"
  apply (simp add: numeral_eq_Suc virtio_gpio_request_def)
  apply (auto simp: gpio_free_desc1_def client_steps_free0 split: bind_splits)
  done
text \<open>One turn of the callback's loop is three steps, and the callback returns when the steps reach its end.\<close>

lemma virtq_callback_body_steps:
  "irq_steps env 3 (Irq_got idxs) s h =
     Option.bind (virtq_callback_body env idxs s h) (\<lambda>(s, h). Some (Irq_fetch idxs, s, h))"
  by (auto simp: numeral_eq_Suc virtq_callback_body_def split: bind_splits)

lemma irq_steps_idle [simp]: "irq_steps env n Irq_idle s h = Some (Irq_idle, s, h)"
  by (cases n) simp_all

lemma irq_steps_add:
  "irq_steps env (m + n) pc s h = Option.bind (irq_steps env m pc s h) (\<lambda>(pc, s, h). irq_steps env n pc s h)"
  by (induction m arbitrary: pc s h) (auto split: bind_splits)

lemma irq_steps_short:
  "irq_steps env n (Irq_got idxs) s h = Some (Irq_idle, s', h') \<Longrightarrow> 3 \<le> n"
  by (cases n; cases "n - 1"; cases "n - 2") (auto split: bind_splits)

lemma irq_steps_returns:
  "irq_steps env n (Irq_fetch idxs) s h = Some (Irq_idle, s', h') \<Longrightarrow>
   \<exists>rc. virtq_callback_from env idxs s h = Some (rc, s', h')"
proof (induction n arbitrary: idxs s h rule: less_induct)
  case (less n)
  then obtain m where n: "n = Suc m" by (cases n) simp_all
  with less.prems obtain rc idxs1 s1 h1 where g: "virtq_callback_get env idxs s h = Some (rc, idxs1, s1, h1)"
      "irq_steps env m (if rc \<noteq> 0 then Irq_idle else Irq_got idxs1) s1 h1 = Some (Irq_idle, s', h')"
    by (auto split: bind_splits)
  show ?case
  proof (cases "rc = 0")
    case False
    then show ?thesis using g by (simp add: virtq_callback_from_def virtq_callback_loop.simps)
  next
    case True
    then have got: "irq_steps env m (Irq_got idxs1) s1 h1 = Some (Irq_idle, s', h')" using g(2) by simp
    then obtain k where k: "m = 3 + k" using irq_steps_short le_Suc_ex by blast
    obtain s2 h2 where b: "virtq_callback_body env idxs1 s1 h1 = Some (s2, h2)"
        "irq_steps env k (Irq_fetch idxs1) s2 h2 = Some (Irq_idle, s', h')"
      using got unfolding k irq_steps_add virtq_callback_body_steps by (auto split: bind_splits)
    obtain rc' where "virtq_callback_from env idxs1 s2 h2 = Some (rc', s', h')"
      using less.IH [of k, OF _ b(2)] n k by auto
    then show ?thesis
      using g(1) b(1) True by (simp add: virtq_callback_from_def virtq_callback_loop.simps [of _ 0])
  qed
qed

lemma virtq_callback_loop_steps:
  assumes "virtq_callback_loop env rc idxs s h = Some r"
  shows "\<exists>n. irq_steps env n (if rc \<noteq> 0 then Irq_idle else Irq_got idxs) s h = Some (Irq_idle, snd r)"
proof (rule virtq_callback_loop.raw_induct
    [of "\<lambda>env rc idxs s h r. \<exists>n. irq_steps env n (if rc \<noteq> 0 then Irq_idle else Irq_got idxs) s h = Some (Irq_idle, snd r)",
    OF _ assms], goal_cases)
  case (1 loop env rc idxs s h r)
  show ?case
  proof (cases "rc = 0")
    case False
    then show ?thesis using 1(2) by auto
  next
    case True
    then obtain s1 h1 rc1 idxs1 s2 h2 where b: "virtq_callback_body env idxs s h = Some (s1, h1)"
        "virtq_callback_get env idxs s1 h1 = Some (rc1, idxs1, s2, h2)" "loop env rc1 idxs1 s2 h2 = Some r"
      using 1(2) by (auto simp: bind_eq_Some_conv)
    then obtain n where "irq_steps env n (if rc1 \<noteq> 0 then Irq_idle else Irq_got idxs1) s2 h2 = Some (Irq_idle, snd r)"
      using 1(1) by blast
    then have "irq_steps env (3 + Suc n) (Irq_got idxs) s h = Some (Irq_idle, snd r)"
      using b(1,2) unfolding irq_steps_add virtq_callback_body_steps by simp
    then show ?thesis using True by auto
  qed
qed

lemma virtq_callback_steps_iff:
  "(\<exists>rc. virtq_callback env s h = Some (rc, s', h')) \<longleftrightarrow>
   (\<exists>n. irq_steps env n (Irq_fetch (replicate 2 (ucast (env_uninit env h)))) s h = Some (Irq_idle, s', h'))"
    (is "?run \<longleftrightarrow> (\<exists>n. irq_steps env n (Irq_fetch ?idxs) s h = _)")
proof
  assume ?run
  then obtain rc rc1 idxs1 s1 h1 where g: "virtq_callback_get env ?idxs s h = Some (rc1, idxs1, s1, h1)"
      "virtq_callback_loop env rc1 idxs1 s1 h1 = Some (rc, s', h')"
    by (auto simp: virtq_callback_def bind_eq_Some_conv)
  from virtq_callback_loop_steps [OF g(2)]
  obtain n where "irq_steps env n (if rc1 \<noteq> 0 then Irq_idle else Irq_got idxs1) s1 h1 = Some (Irq_idle, s', h')" by auto
  then have "irq_steps env (Suc n) (Irq_fetch ?idxs) s h = Some (Irq_idle, s', h')" using g(1) by simp
  then show "\<exists>n. irq_steps env n (Irq_fetch ?idxs) s h = Some (Irq_idle, s', h')" by blast
next
  assume "\<exists>n. irq_steps env n (Irq_fetch ?idxs) s h = Some (Irq_idle, s', h')"
  then show ?run using irq_steps_returns unfolding virtq_callback_eq by blast
qed

section \<open>All threads\<close>

text \<open>
  The clients by the address of their context, the interrupt thread, and, for the statements only,
  what the device answered to the request of each context.
\<close>

record gpio_threads =
  th_sys :: gpio_sys
  th_clients :: "ptr \<Rightarrow> client_pc option"
  th_irq :: irq_pc
  th_answers :: "ptr \<Rightarrow> (u8 \<times> u8) option"

abbreviation th_state :: "gpio_threads \<Rightarrow> gpio_state" where
  "th_state t \<equiv> sys_state (th_sys t)"

abbreviation th_hist :: "gpio_threads \<Rightarrow> hist" where
  "th_hist t \<equiv> sys_hist (th_sys t)"

definition put_threads ::
  "gpio_threads \<Rightarrow> (ptr \<Rightarrow> client_pc option) \<Rightarrow> irq_pc \<Rightarrow> gpio_state \<Rightarrow> hist \<Rightarrow> gpio_threads" where
  "put_threads t clients irq s h =
     t\<lparr> th_sys := put_state (th_sys t) s h, th_clients := clients, th_irq := irq \<rparr>"

lemma put_threads_sel [simp]:
  "th_state (put_threads t cl irq s h) = s" "th_hist (put_threads t cl irq s h) = h"
  "th_clients (put_threads t cl irq s h) = cl" "th_irq (put_threads t cl irq s h) = irq"
  "th_answers (put_threads t cl irq s h) = th_answers t"
  "outstanding (th_sys (put_threads t cl irq s h)) q = outstanding (th_sys t) q"
  by (simp_all add: put_threads_def put_state_def outstanding_def)

inductive thread_step :: "env \<Rightarrow> 'p virtio_gpio_device \<Rightarrow> gpio_threads \<Rightarrow> gpio_threads \<Rightarrow> bool"
  for env dev where
  enter: "thread_step env dev t
      (if rc = EOK then (put_threads t ((th_clients t)(c \<mapsto> At_alloc0 r)) (th_irq t) s h)\<lparr> th_answers := (th_answers t)(c := None) \<rparr>
       else put_threads t (th_clients t) (th_irq t) (gpio_leave c s) h)"
    if "c \<noteq> 0" "th_clients t c = None" "gs_ctx (th_state t) c = None" "req_type r \<in> client_types"
      "virtio_gpio_context_init env c (gpio_enter env c (th_state t) (th_hist t)) (th_hist t) = Some (rc, s, h)"
| client: "thread_step env dev t (put_threads t ((th_clients t)(c \<mapsto> pc')) (th_irq t) s h)"
    if "th_clients t c = Some pc" "client_step env dev c pc (th_state t) (th_hist t) = Some (pc', s, h)"
| failed: "thread_step env dev t (put_threads t ((th_clients t)(c := None)) (th_irq t) s h)"
    if "th_clients t c = Some (At_return rc)" "gpio_deinit env rc c (th_state t) (th_hist t) = (rc', s, h)"
| return: "thread_step env dev t (put_threads t ((th_clients t)(c := None)) (th_irq t) s h)"
    if "th_clients t c = Some (At_wait r i)"
      "sem_wait_others env (\<lambda>s h. Some (s, h)) c (th_state t) (th_hist t) = Some (0, s1, h1)"
      "gpio_end env 0 c out s1 h1 = Some (rc, out', s, h)"
| irq: "thread_step env dev t (put_threads t (th_clients t) pc' s h)"
    if "irq_step env (th_irq t) (th_state t) (th_hist t) = Some (pc', s, h)"
| take: "thread_step env dev t (t\<lparr> th_sys := sys' \<rparr>)" if "device_take (th_sys t) = Some sys'"
| answer: "thread_step env dev t (t\<lparr> th_sys := sys', th_answers := (th_answers t)(context_of q i \<mapsto> (st, v)) \<rparr>)"
    if "gs_vq (th_state t) = Some q" "device_answer i st v (th_sys t) = Some sys'"

inductive_cases thread_stepE: "thread_step env dev t t'"

section \<open>Who owns a descriptor\<close>

datatype agent = Client ptr | Head u16 | Irq

fun client_descs :: "client_pc \<Rightarrow> u16 list" where
  "client_descs (At_alloc1 r i) = [i]"
| "client_descs (At_free1 rc i j) = [i, j]"
| "client_descs (At_free0 rc i) = [i]"
| "client_descs (At_store r i j) = [i, j]"
| "client_descs (At_context r i j) = [i, j]"
| "client_descs (At_put r i j) = [i, j]"
| "client_descs _ = []"

fun irq_descs :: "irq_pc \<Rightarrow> u16 list" where
  "irq_descs (Irq_got idxs) = idxs"
| "irq_descs (Irq_free0 idxs) = idxs"
| "irq_descs (Irq_free1 idxs) = tl idxs"
| "irq_descs _ = []"

fun owned :: "gpio_threads \<Rightarrow> virtq \<Rightarrow> agent \<Rightarrow> u16 list" where
  "owned t q (Client c) = (case th_clients t c of None \<Rightarrow> [] | Some pc \<Rightarrow> client_descs pc)"
| "owned t q (Head i) = (if i \<in> set (outstanding (th_sys t) q) then [i, next_of q i] else [])"
| "owned t q Irq = irq_descs (th_irq t)"

text \<open>Every element of \<open>D\<close> has one owner and appears once.\<close>

definition shares :: "('a \<Rightarrow> 'b list) \<Rightarrow> 'b set \<Rightarrow> bool" where
  "shares own D \<longleftrightarrow>
     (\<forall>a. distinct (own a)) \<and> (\<forall>a b. a \<noteq> b \<longrightarrow> set (own a) \<inter> set (own b) = {}) \<and> (\<Union>a. set (own a)) = D"

lemma sharesD:
  assumes "shares own D"
  shows "distinct (own a)" "a \<noteq> b \<Longrightarrow> k \<in> set (own a) \<Longrightarrow> k \<notin> set (own b)" "k \<in> set (own a) \<Longrightarrow> k \<in> D"
  using assms by (auto simp: shares_def)

lemma shares_gain:
  assumes "shares own D" and "k \<notin> D" and "set ks = insert k (set (own a))" "distinct ks"
  shows "shares (own(a := ks)) (insert k D)"
  using assms unfolding shares_def by (auto 0 3 split: if_splits)

lemma shares_drop:
  assumes "shares own D" and "own a = k # ks"
  shows "shares (own(a := ks)) (D - {k})"
proof -
  have d: "k \<notin> set ks" "distinct ks" using sharesD(1) [OF assms(1), of a] assms(2) by simp_all
  have o: "b \<noteq> a \<Longrightarrow> x \<in> set (own b) \<Longrightarrow> x \<noteq> k \<and> x \<notin> set ks" for b x
    using sharesD(2) [OF assms(1), of b a x] assms(2) by auto
  have "(\<Union>b. set ((own(a := ks)) b)) = D - {k}"
  proof (rule equalityI; rule subsetI)
    fix x assume "x \<in> (\<Union>b. set ((own(a := ks)) b))"
    then obtain b where b: "x \<in> set ((own(a := ks)) b)" by blast
    show "x \<in> D - {k}"
    proof (cases "b = a")
      case True
      then show ?thesis using b d sharesD(3) [OF assms(1), of x a] assms(2) by auto
    next
      case False
      then show ?thesis using b o sharesD(3) [OF assms(1), of x b] by auto
    qed
  next
    fix x assume x: "x \<in> D - {k}"
    then obtain b where "x \<in> set (own b)" using assms(1) by (auto simp: shares_def)
    then have "x \<in> set ((own(a := ks)) b)" using x assms(2) by (cases "b = a") auto
    then show "x \<in> (\<Union>b. set ((own(a := ks)) b))" by blast
  qed
  moreover have "distinct ((own(a := ks)) b)" for b using sharesD(1) [OF assms(1), of b] d by simp
  moreover have "set ((own(a := ks)) b) \<inter> set ((own(a := ks)) b') = {}" if "b \<noteq> b'" for b b'
    using that o [of b] o [of b'] sharesD(2) [OF assms(1), of b b'] by (auto split: if_splits)
  ultimately show ?thesis by (simp add: shares_def)
qed

lemma shares_pass:
  assumes "shares own D" and "own a = ks" "own b = []" "a \<noteq> b"
  shows "shares (own(a := [], b := ks)) D"
proof -
  have "(\<Union>x. set ((own(a := [], b := ks)) x)) = (\<Union>x. set (own x))"
  proof (rule equalityI; rule subsetI)
    fix y assume "y \<in> (\<Union>x. set ((own(a := [], b := ks)) x))"
    then obtain x where "y \<in> set ((own(a := [], b := ks)) x)" by blast
    then have "y \<in> set (own x) \<or> y \<in> set (own a)" using assms(2) by (auto split: if_splits)
    then show "y \<in> (\<Union>x. set (own x))" by blast
  next
    fix y assume "y \<in> (\<Union>x. set (own x))"
    then obtain x where x: "y \<in> set (own x)" by blast
    then have "y \<in> set ((own(a := [], b := ks)) (if x = a then b else x))" using assms(2-4) by auto
    then show "y \<in> (\<Union>x. set ((own(a := [], b := ks)) x))" by blast
  qed
  moreover have "distinct ((own(a := [], b := ks)) x)" for x
    using sharesD(1) [OF assms(1), of x] sharesD(1) [OF assms(1), of a] assms(2) by auto
  moreover have "set ((own(a := [], b := ks)) x) \<inter> set ((own(a := [], b := ks)) y) = {}" if "x \<noteq> y" for x y
    using that sharesD(2) [OF assms(1), of x y] sharesD(2) [OF assms(1), of a y]
      sharesD(2) [OF assms(1), of x a] assms(2) by auto
  ultimately show ?thesis using assms(1) by (simp add: shares_def)
qed

section \<open>The invariant\<close>

abbreviation dlen_of :: "virtq \<Rightarrow> u16 \<Rightarrow> u32" where
  "dlen_of q i \<equiv> desc_len (vq_desc q ! unat i)"

text \<open>The mappings alive: those of \<open>B\<close> and one for each descriptor in use, no two at one address.\<close>

definition buffers :: "(ptr \<times> size_t) multiset \<Rightarrow> hist \<Rightarrow> virtq \<Rightarrow> bool" where
  "buffers B h q \<longleftrightarrow>
     live h = B + image_mset (\<lambda>k. (vaddr_of q k, ucast (dlen_of q k))) (mset_set (allocated q)) \<and>
     inj_on (vaddr_of q) (allocated q)"

definition fresh_ctx :: "gpio_threads \<Rightarrow> ptr \<Rightarrow> bool" where
  "fresh_ctx t c \<longleftrightarrow> (\<exists>v. gs_ctx (th_state t) c = Some (Context fresh_header v))"

definition posted :: "gpio_threads \<Rightarrow> ptr \<Rightarrow> bool" where
  "posted t c \<longleftrightarrow>
     (\<exists>hdr v. gs_ctx (th_state t) c = Some (Context hdr v) \<and> ctx_sem hdr = 1 \<and>
        th_answers t c = Some (ctx_status hdr, v))"

definition waits_for :: "gpio_threads \<Rightarrow> ptr \<Rightarrow> request \<Rightarrow> u16 \<Rightarrow> bool" where
  "waits_for t c r i \<longleftrightarrow> th_clients t c = Some (At_notify r i) \<or> th_clients t c = Some (At_wait r i)"

text \<open>The bytes of a request, as the device reads them.\<close>

definition holds_request :: "gpio_threads \<Rightarrow> virtq \<Rightarrow> u16 \<Rightarrow> request \<Rightarrow> bool" where
  "holds_request t q i r \<longleftrightarrow>
     req_type r \<in> client_types \<and>
     map (gs_mem (th_state t) (vaddr_of q i)) [0..<8] = request_bytes (req_type r) (req_gpio r) (req_value r)"

lemma holds_request_type:
  assumes "holds_request t q i r"
  shows "request_type (th_state t) (vaddr_of q i) \<noteq> VIRTIO_GPIO_MSG_GET_LINE_NAMES"
proof -
  have m: "map (gs_mem (th_state t) (vaddr_of q i)) [0..<8] = request_bytes (req_type r) (req_gpio r) (req_value r)"
    using assms by (simp add: holds_request_def)
  have "request_type (th_state t) (vaddr_of q i) = req_type r"
    using arg_cong [OF m, of "take 2"] take_request_bytes [of "req_type r" "req_gpio r" "req_value r"]
    by (simp add: request_type_def take_map upt_rec)
  then show ?thesis using assms client_typesD by (simp add: holds_request_def)
qed

text \<open>The requests not completed yet: in flight, or in the interrupt thread's hands.\<close>

definition heads :: "gpio_threads \<Rightarrow> virtq \<Rightarrow> u16 set" where
  "heads t q = set (outstanding (th_sys t) q) \<union> (case th_irq t of Irq_got idxs \<Rightarrow> set (take 1 idxs) | _ \<Rightarrow> {})"

definition head_ok :: "gpio_threads \<Rightarrow> virtq \<Rightarrow> u16 \<Rightarrow> bool \<Rightarrow> bool" where
  "head_ok t q i answered \<longleftrightarrow>
     (let j = next_of q i; c = context_of q i in
      chain (vq_desc q) [i, j] \<and> dlen_of q i = 8 \<and> dlen_of q j = 2 \<and>
      fresh_ctx t c \<and> (\<exists>r. waits_for t c r i \<and> holds_request t q i r) \<and>
      (answered \<longrightarrow> th_answers t c = Some (gs_mem (th_state t) (vaddr_of q j) 0, gs_mem (th_state t) (vaddr_of q j) 1)))"

text \<open>What holds at each place of a client.\<close>

definition sent_ok :: "gpio_threads \<Rightarrow> virtq \<Rightarrow> ptr \<Rightarrow> u16 \<Rightarrow> bool" where
  "sent_ok t q c i \<longleftrightarrow> fresh_ctx t c \<and> i \<in> heads t q \<and> context_of q i = c \<or> posted t c"

fun client_ok :: "gpio_threads \<Rightarrow> virtq \<Rightarrow> ptr \<Rightarrow> client_pc \<Rightarrow> bool" where
  "client_ok t q c (At_alloc0 r) = (req_type r \<in> client_types \<and> fresh_ctx t c)"
| "client_ok t q c (At_alloc1 r i) = (req_type r \<in> client_types \<and> fresh_ctx t c \<and> dlen_of q i = 8)"
| "client_ok t q c (At_free1 rc i j) = False"
| "client_ok t q c (At_free0 rc i) = (rc \<noteq> EOK \<and> fresh_ctx t c)"
| "client_ok t q c (At_store r i j) =
     (req_type r \<in> client_types \<and> fresh_ctx t c \<and> dlen_of q i = 8 \<and> dlen_of q j = 2 \<and> \<not> has_next (vq_desc q ! unat j))"
| "client_ok t q c (At_context r i j) =
     (fresh_ctx t c \<and> dlen_of q i = 8 \<and> dlen_of q j = 2 \<and> \<not> has_next (vq_desc q ! unat j) \<and>
      holds_request t q i r)"
| "client_ok t q c (At_put r i j) =
     (fresh_ctx t c \<and> dlen_of q i = 8 \<and> dlen_of q j = 2 \<and> \<not> has_next (vq_desc q ! unat j) \<and>
      holds_request t q i r \<and> context_of q i = c)"
| "client_ok t q c (At_notify r i) = sent_ok t q c i"
| "client_ok t q c (At_wait r i) = sent_ok t q c i"
| "client_ok t q c (At_return rc) = (rc \<noteq> EOK \<and> fresh_ctx t c)"

fun irq_ok :: "gpio_threads \<Rightarrow> virtq \<Rightarrow> irq_pc \<Rightarrow> bool" where
  "irq_ok t q Irq_idle = True"
| "irq_ok t q (Irq_got idxs) = (\<exists>i. idxs = [i, next_of q i] \<and> head_ok t q i True)"
| "irq_ok t q (Irq_fetch idxs) = (length idxs = 2)"
| "irq_ok t q (Irq_free0 idxs) = (length idxs = 2)"
| "irq_ok t q (Irq_free1 idxs) = (length idxs = 2)"

definition threads_at :: "(ptr \<times> size_t) multiset \<Rightarrow> gpio_threads \<Rightarrow> virtq \<Rightarrow> bool" where
  "threads_at B t q \<longleftrightarrow>
     gs_vq (th_state t) = Some q \<and> virtq_inv q \<and> unat (vq_num q) dvd 65536 \<and>
     distinct (outstanding (th_sys t) q) \<and> shares (owned t q) (allocated q) \<and> buffers B (th_hist t) q \<and>
     (\<forall>c. th_clients t c = None \<longrightarrow> gs_ctx (th_state t) c = None) \<and>
     (\<forall>c pc. th_clients t c = Some pc \<longrightarrow> c \<noteq> 0 \<and> client_ok t q c pc) \<and>
     (\<forall>i \<in> set (outstanding (th_sys t) q). head_ok t q i (i \<in> set (used_pending q))) \<and>
     irq_ok t q (th_irq t)"

lemma threads_atD:
  assumes "threads_at B t q"
  shows "gs_vq (th_state t) = Some q" "virtq_inv q" "unat (vq_num q) dvd 65536"
    "distinct (outstanding (th_sys t) q)" "shares (owned t q) (allocated q)" "buffers B (th_hist t) q"
    "th_clients t c = None \<Longrightarrow> gs_ctx (th_state t) c = None"
    "th_clients t c = Some pc \<Longrightarrow> c \<noteq> 0 \<and> client_ok t q c pc"
    "i \<in> set (outstanding (th_sys t) q) \<Longrightarrow> head_ok t q i (i \<in> set (used_pending q))"
    "irq_ok t q (th_irq t)"
  using assms by (auto simp: threads_at_def)

text \<open>What a thread may leave alone: descriptors outside \<open>K\<close>, contexts outside \<open>X\<close>.\<close>

definition keeps :: "gpio_threads \<Rightarrow> virtq \<Rightarrow> gpio_threads \<Rightarrow> virtq \<Rightarrow> u16 set \<Rightarrow> ptr set \<Rightarrow> bool" where
  "keeps t q t' q' K X \<longleftrightarrow>
     length (vq_desc q') = length (vq_desc q) \<and>
     (\<forall>k \<in> allocated q. k \<notin> K \<longrightarrow>
        vq_desc q' ! unat k = vq_desc q ! unat k \<and> vq_extras q' ! unat k = vq_extras q ! unat k \<and>
        gs_mem (th_state t') (vaddr_of q k) = gs_mem (th_state t) (vaddr_of q k)) \<and>
     (\<forall>c. c \<notin> X \<longrightarrow>
        gs_ctx (th_state t') c = gs_ctx (th_state t) c \<and> th_answers t' c = th_answers t c \<and>
        (\<forall>r i. waits_for t c r i \<longrightarrow> waits_for t' c r i))"

lemma keepsD:
  assumes "keeps t q t' q' K X"
  shows "length (vq_desc q') = length (vq_desc q)"
    "k \<in> allocated q \<Longrightarrow> k \<notin> K \<Longrightarrow> vq_desc q' ! unat k = vq_desc q ! unat k"
    "k \<in> allocated q \<Longrightarrow> k \<notin> K \<Longrightarrow> vq_extras q' ! unat k = vq_extras q ! unat k"
    "k \<in> allocated q \<Longrightarrow> k \<notin> K \<Longrightarrow> gs_mem (th_state t') (vaddr_of q k) = gs_mem (th_state t) (vaddr_of q k)"
    "c \<notin> X \<Longrightarrow> gs_ctx (th_state t') c = gs_ctx (th_state t) c" "c \<notin> X \<Longrightarrow> th_answers t' c = th_answers t c"
    "c \<notin> X \<Longrightarrow> waits_for t c r i \<Longrightarrow> waits_for t' c r i"
  using assms by (auto simp: keeps_def)

lemma head_ok_frame:
  assumes "keeps t q t' q' K X" and "head_ok t q i a" and "a' \<Longrightarrow> a"
    and "i \<in> allocated q" "next_of q i \<in> allocated q" "i \<notin> K" "next_of q i \<notin> K" "context_of q i \<notin> X"
  shows "head_ok t' q' i a'"
proof -
  note k = keepsD [OF assms(1)]
  have eqs: "vq_desc q' ! unat i = vq_desc q ! unat i" "vq_extras q' ! unat i = vq_extras q ! unat i"
    "vq_desc q' ! unat (next_of q i) = vq_desc q ! unat (next_of q i)"
    "vq_extras q' ! unat (next_of q i) = vq_extras q ! unat (next_of q i)"
    "gs_mem (th_state t') (vaddr_of q i) = gs_mem (th_state t) (vaddr_of q i)"
    "gs_mem (th_state t') (vaddr_of q (next_of q i)) = gs_mem (th_state t) (vaddr_of q (next_of q i))"
    using k(2-4) assms(4-7) by blast+
  have c: "fresh_ctx t' (context_of q i) = fresh_ctx t (context_of q i)"
    "th_answers t' (context_of q i) = th_answers t (context_of q i)"
    "\<And>r. waits_for t (context_of q i) r i \<Longrightarrow> waits_for t' (context_of q i) r i"
    using k(5-7) [OF assms(8)] by (simp_all add: fresh_ctx_def)
  have "holds_request t' q' i r = holds_request t q i r" for r
    by (simp add: holds_request_def eqs)
  show ?thesis
    using assms(2,3) k(1) c \<open>\<And>r. holds_request t' q' i r = holds_request t q i r\<close>
    by (auto simp: head_ok_def Let_def eqs)
qed

text \<open>A client that does not act, and that no other thread works for.\<close>

lemma client_ok_frame:
  assumes "keeps t q t' q' K X" and "client_ok t q c pc" and "c \<notin> X"
    and "set (client_descs pc) \<subseteq> allocated q" "set (client_descs pc) \<inter> K = {}"
    and "\<And>i. i \<in> heads t q \<Longrightarrow> context_of q i = c \<Longrightarrow> i \<in> heads t' q' \<and> context_of q' i = c"
  shows "client_ok t' q' c pc"
proof -
  note k = keepsD [OF assms(1)]
  have eqs: "vq_desc q' ! unat i = vq_desc q ! unat i" "vq_extras q' ! unat i = vq_extras q ! unat i"
      "gs_mem (th_state t') (vaddr_of q i) = gs_mem (th_state t) (vaddr_of q i)" if "i \<in> set (client_descs pc)" for i
    using k(2-4) assms(4,5) that by blast+
  have c: "fresh_ctx t' c = fresh_ctx t c" "posted t' c = posted t c"
    using k(5,6) [OF assms(3)] by (simp_all add: fresh_ctx_def posted_def)
  have sent: "sent_ok t q c i \<Longrightarrow> sent_ok t' q' c i" for i
    using assms(6) c by (auto simp: sent_ok_def)
  show ?thesis
    using assms(2) eqs c sent by (cases pc) (simp_all add: holds_request_def)
qed

lemma irq_ok_frame:
  assumes "keeps t q t' q' K X" and "irq_ok t q pc"
    and "set (irq_descs pc) \<subseteq> allocated q" "set (irq_descs pc) \<inter> K = {}"
    and "\<And>i. pc = Irq_got [i, next_of q i] \<Longrightarrow> context_of q i \<notin> X"
  shows "irq_ok t' q' pc"
proof (cases pc)
  case (Irq_got idxs)
  then obtain i where i: "idxs = [i, next_of q i]" "head_ok t q i True" using assms(2) by auto
  have "head_ok t' q' i True"
    by (rule head_ok_frame [OF assms(1) i(2)]) (use assms(3-5) Irq_got i(1) in auto)
  moreover have "next_of q' i = next_of q i"
    using keepsD(2) [OF assms(1), of i] assms(3,4) Irq_got i(1) by auto
  ultimately show ?thesis using Irq_got i(1) by simp
qed (use assms(2) in simp_all)

lemma head_descs:
  assumes "threads_at B t q" and "i \<in> set (outstanding (th_sys t) q)"
  shows "i \<in> allocated q" "next_of q i \<in> allocated q" "i \<noteq> next_of q i"
    "a \<noteq> Head i \<Longrightarrow> i \<notin> set (owned t q a) \<and> next_of q i \<notin> set (owned t q a)"
proof -
  note sh = threads_atD(5) [OF assms(1)]
  have o: "owned t q (Head i) = [i, next_of q i]" using assms(2) by simp
  show "i \<in> allocated q" "next_of q i \<in> allocated q"
    using sharesD(3) [OF sh, of _ "Head i"] unfolding o by auto
  show "i \<noteq> next_of q i" using sharesD(1) [OF sh, of "Head i"] o by simp
  show "a \<noteq> Head i \<Longrightarrow> i \<notin> set (owned t q a) \<and> next_of q i \<notin> set (owned t q a)"
    using sharesD(2) [OF sh, of "Head i" a] unfolding o by auto
qed

lemma client_owns:
  assumes "threads_at B t q" and "th_clients t c = Some pc"
  shows "set (client_descs pc) \<subseteq> allocated q" "distinct (client_descs pc)"
    "a \<noteq> Client c \<Longrightarrow> set (client_descs pc) \<inter> set (owned t q a) = {}"
proof -
  note sh = threads_atD(5) [OF assms(1)]
  have o: "owned t q (Client c) = client_descs pc" using assms(2) by simp
  show "set (client_descs pc) \<subseteq> allocated q" "distinct (client_descs pc)"
    using sharesD(3) [OF sh, of _ "Client c"] sharesD(1) [OF sh, of "Client c"] unfolding o by blast+
  show "a \<noteq> Client c \<Longrightarrow> set (client_descs pc) \<inter> set (owned t q a) = {}"
    using sharesD(2) [OF sh, of "Client c" a] unfolding o by blast
qed

lemma irq_owns:
  assumes "threads_at B t q"
  shows "set (irq_descs (th_irq t)) \<subseteq> allocated q" "distinct (irq_descs (th_irq t))"
    "a \<noteq> Irq \<Longrightarrow> set (irq_descs (th_irq t)) \<inter> set (owned t q a) = {}"
proof -
  note sh = threads_atD(5) [OF assms]
  show "set (irq_descs (th_irq t)) \<subseteq> allocated q" "distinct (irq_descs (th_irq t))"
    using sharesD(3) [OF sh, of _ Irq] sharesD(1) [OF sh, of Irq] by auto
  show "a \<noteq> Irq \<Longrightarrow> set (irq_descs (th_irq t)) \<inter> set (owned t q a) = {}"
    using sharesD(2) [OF sh, of Irq a] unfolding owned.simps by blast
qed

text \<open>The invariant after a step: what the acting threads establish, the others keep.\<close>

lemma threads_at_step:
  assumes at: "threads_at B t q"
    and q': "gs_vq (th_state t') = Some q'" "virtq_inv q'" "vq_num q' = vq_num q"
    and out: "distinct (outstanding (th_sys t') q')"
    and own: "shares (owned t' q') (allocated q')" and buf: "buffers B (th_hist t') q'"
    and kp: "keeps t q t' q' K X"
    and none: "\<And>c. th_clients t' c = None \<Longrightarrow> gs_ctx (th_state t') c = None"
    and cl: "\<And>c pc. th_clients t' c = Some pc \<Longrightarrow> c \<notin> A \<Longrightarrow>
      th_clients t c = Some pc \<and> c \<notin> X \<and> set (client_descs pc) \<inter> K = {}"
    and acts: "\<And>c pc. c \<in> A \<Longrightarrow> th_clients t' c = Some pc \<Longrightarrow> c \<noteq> 0 \<and> client_ok t' q' c pc"
    and hs: "\<And>i. i \<in> heads t q \<Longrightarrow> context_of q i \<notin> X \<Longrightarrow> i \<in> heads t' q' \<and> context_of q' i = context_of q i"
    and hd: "\<And>i. i \<in> set (outstanding (th_sys t') q') \<Longrightarrow>
      (i \<in> set (outstanding (th_sys t) q) \<and> i \<notin> K \<and> next_of q i \<notin> K \<and> context_of q i \<notin> X \<and>
         (i \<in> set (used_pending q') \<longrightarrow> i \<in> set (used_pending q))) \<or>
      head_ok t' q' i (i \<in> set (used_pending q'))"
    and irq: "irq_ok t' q' (th_irq t')"
  shows "threads_at B t' q'"
proof -
  note t = threads_atD [OF at]
  have "c \<noteq> 0 \<and> client_ok t' q' c pc" if c: "th_clients t' c = Some pc" for c pc
  proof (cases "c \<in> A")
    case True
    then show ?thesis using acts c by blast
  next
    case False
    then have c': "th_clients t c = Some pc" "c \<notin> X" "set (client_descs pc) \<inter> K = {}" using cl [OF c] by blast+
    have "client_ok t' q' c pc"
      by (rule client_ok_frame [OF kp _ c'(2) client_owns(1) [OF at c'(1)] c'(3)])
        (use t(8) [OF c'(1)] hs c'(2) in auto)
    then show ?thesis using t(8) [OF c'(1)] by blast
  qed
  moreover have "head_ok t' q' i (i \<in> set (used_pending q'))" if i: "i \<in> set (outstanding (th_sys t') q')" for i
  proof (cases "head_ok t' q' i (i \<in> set (used_pending q'))")
    case False
    with hd [OF i] have o: "i \<in> set (outstanding (th_sys t) q)" "i \<notin> K" "next_of q i \<notin> K" "context_of q i \<notin> X"
      "i \<in> set (used_pending q') \<longrightarrow> i \<in> set (used_pending q)" by blast+
    show ?thesis
      by (rule head_ok_frame [OF kp t(9) [OF o(1)] _ head_descs(1,2) [OF at o(1)] o(2-4)]) (use o(5) in blast)
  qed
  ultimately show ?thesis
    unfolding threads_at_def using q' t(3) out own buf none irq by simp
qed

text \<open>A client at work on descriptors of its own; no head and no context moves.\<close>

lemma same_rings_outstanding:
  assumes "same_rings q q'"
  shows "outstanding sys q' = outstanding sys q" "used_pending q' = used_pending q"
  using assms by (simp_all add: outstanding_def same_rings_def used_pending_def avail_since_def)

lemma own_step:
  fixes a :: agent
  defines "D \<equiv> \<lambda>t q. set (owned t q a)"
  assumes at: "threads_at B t q" and t': "t' = put_threads t cl irq s h" and a: "\<And>i. a \<noteq> Head i"
    and q': "gs_vq s = Some q'" "virtq_inv q'" "same_rings q q'" and ctx: "gs_ctx s = gs_ctx (th_state t)"
    and ch: "\<And>k. k \<in> allocated q \<Longrightarrow> k \<notin> D t q \<Longrightarrow>
      vq_desc q' ! unat k = vq_desc q ! unat k \<and> vq_extras q' ! unat k = vq_extras q ! unat k \<and>
      gs_mem s (vaddr_of q k) = gs_mem (th_state t) (vaddr_of q k)"
    and own: "shares ((owned t q)(a := owned t' q' a)) (allocated q')" and buf: "buffers B h q'"
    and cl: "\<And>c. a \<noteq> Client c \<Longrightarrow> cl c = th_clients t c" "\<And>c. a = Client c \<Longrightarrow> cl c \<noteq> None"
    and irq: "a \<noteq> Irq \<Longrightarrow> irq = th_irq t" "\<And>idxs. a = Irq \<Longrightarrow> th_irq t \<noteq> Irq_got idxs"
    and ok: "\<And>c pc. a = Client c \<Longrightarrow> cl c = Some pc \<Longrightarrow> c \<noteq> 0 \<and> client_ok t' q' c pc"
      "a = Irq \<Longrightarrow> irq_ok t' q' irq"
    and wt: "\<And>c r i. a = Client c \<Longrightarrow> waits_for t c r i \<Longrightarrow> waits_for t' c r i"
  shows "threads_at B t' q'"
proof (rule threads_at_step [OF at, where K = "D t q" and X = "{}" and A = "{c. a = Client c}"])
  note t = threads_atD [OF at]
  have num: "vq_num q' = vq_num q" using q'(3) by (simp add: same_rings_def)
  have len: "length (vq_desc q') = length (vq_desc q)" using q'(2) t(2) num by (simp add: virtq_inv_def)
  note out = same_rings_outstanding [OF q'(3)]
  have w: "waits_for t c r i \<Longrightarrow> waits_for t' c r i" for c r i
    using wt [of c r i] cl(1) [of c] by (cases "a = Client c") (auto simp: waits_for_def t')
  show kp: "keeps t q t' q' (D t q) {}"
    unfolding keeps_def using len ch w by (simp add: ctx t')
  have nx: "next_of q' i = next_of q i" "context_of q' i = context_of q i" "i \<notin> D t q" "next_of q i \<notin> D t q"
    if "i \<in> set (outstanding (th_sys t) q)" for i
    using ch [of i] head_descs(1) [OF at that] head_descs(4) [OF at that a] by (simp_all add: D_def)
  have "owned t' q' = (owned t q)(a := owned t' q' a)"
  proof
    fix b show "owned t' q' b = ((owned t q)(a := owned t' q' a)) b"
    proof (cases "b = a")
      case False
      then show ?thesis using cl(1) irq(1) by (cases b) (simp_all add: t' out nx)
    qed simp
  qed
  then show "shares (owned t' q') (allocated q')" using own by simp
  show "vq_num q' = vq_num q" by (rule num)
  show "i \<in> heads t' q' \<and> context_of q' i = context_of q i" if i: "i \<in> heads t q" for i
  proof (cases "i \<in> set (outstanding (th_sys t) q)")
    case True
    then show ?thesis by (simp add: heads_def out nx t')
  next
    case False
    with i obtain idxs where g: "th_irq t = Irq_got idxs" "i \<in> set (take 1 idxs)"
      by (auto simp: heads_def split: irq_pc.splits)
    then have "i \<in> set (owned t q Irq)" "a \<noteq> Irq" using in_set_takeD [OF g(2)] irq(2) by auto
    then have "i \<in> allocated q" "i \<notin> D t q"
      using irq_owns(1) [OF at] sharesD(2) [OF t(5), of Irq a] by (auto simp: D_def)
    then show ?thesis using ch [of i] g irq(1) \<open>a \<noteq> Irq\<close> by (simp add: heads_def t')
  qed
  show "irq_ok t' q' (th_irq t')"
  proof (cases "a = Irq")
    case True
    then show ?thesis using ok(2) by (simp add: t')
  next
    case False
    then have "irq_ok t' q' (th_irq t)"
      by (intro irq_ok_frame [OF kp t(10) irq_owns(1) [OF at]])
        (use irq_owns(3) [OF at, of a] in \<open>auto simp: D_def\<close>)
    then show ?thesis using irq(1) False by (simp add: t')
  qed
  show "gs_ctx (th_state t') c = None" if "th_clients t' c = None" for c
    using that t(7) [of c] cl(1,2) [of c] by (cases "a = Client c") (auto simp: ctx t')
  show "th_clients t c = Some pc \<and> c \<notin> {} \<and> set (client_descs pc) \<inter> D t q = {}"
    if "th_clients t' c = Some pc" "c \<notin> {c. a = Client c}" for c pc
  proof -
    have ne: "a \<noteq> Client c" using that(2) by simp
    then have c: "th_clients t c = Some pc" using that(1) cl(1) [of c] by (simp add: t')
    then show ?thesis using client_owns(3) [OF at c ne] by (simp add: D_def)
  qed
  show "(i \<in> set (outstanding (th_sys t) q) \<and> i \<notin> D t q \<and> next_of q i \<notin> D t q \<and>
      context_of q i \<notin> {} \<and> (i \<in> set (used_pending q') \<longrightarrow> i \<in> set (used_pending q))) \<or>
      head_ok t' q' i (i \<in> set (used_pending q'))" if "i \<in> set (outstanding (th_sys t') q')" for i
    using that nx(3,4) by (simp add: out t')
  show "c \<noteq> 0 \<and> client_ok t' q' c pc" if "c \<in> {c. a = Client c}" "th_clients t' c = Some pc" for c pc
    using that ok(1) [of c pc] by (simp add: t')
qed (use threads_atD [OF at] q' buf same_rings_outstanding [OF q'(3)] t' in simp_all)

lemma client_local:
  assumes at: "threads_at B t q" and c: "th_clients t c = Some pc"
    and q': "gs_vq s = Some q'" "virtq_inv q'" "same_rings q q'" and ctx: "gs_ctx s = gs_ctx (th_state t)"
    and ch: "\<And>k. k \<in> allocated q \<Longrightarrow> k \<notin> set (client_descs pc) \<Longrightarrow>
      vq_desc q' ! unat k = vq_desc q ! unat k \<and> vq_extras q' ! unat k = vq_extras q ! unat k \<and>
      gs_mem s (vaddr_of q k) = gs_mem (th_state t) (vaddr_of q k)"
    and own: "shares ((owned t q)(Client c := client_descs pc')) (allocated q')" and buf: "buffers B h q'"
    and ok: "client_ok (put_threads t ((th_clients t)(c \<mapsto> pc')) (th_irq t) s h) q' c pc'"
    and wt: "\<And>r i. pc = At_notify r i \<or> pc = At_wait r i \<Longrightarrow> pc' = At_notify r i \<or> pc' = At_wait r i"
  shows "threads_at B (put_threads t ((th_clients t)(c \<mapsto> pc')) (th_irq t) s h) q'"
  by (rule own_step [where a = "Client c", OF at refl _ q' ctx])
    (use c ch own buf ok wt threads_atD(8) [OF at c] in \<open>auto simp: waits_for_def\<close>)

text \<open>The interrupt thread at work on descriptors of its own.\<close>

lemma irq_local:
  assumes at: "threads_at B t q" and irq: "\<And>idxs. th_irq t \<noteq> Irq_got idxs"
    and q': "gs_vq s = Some q'" "virtq_inv q'" "same_rings q q'" and ctx: "gs_ctx s = gs_ctx (th_state t)"
    and ch: "\<And>k. k \<in> allocated q \<Longrightarrow> k \<notin> set (irq_descs (th_irq t)) \<Longrightarrow>
      vq_desc q' ! unat k = vq_desc q ! unat k \<and> vq_extras q' ! unat k = vq_extras q ! unat k \<and>
      gs_mem s (vaddr_of q k) = gs_mem (th_state t) (vaddr_of q k)"
    and own: "shares ((owned t q)(Irq := irq_descs pc')) (allocated q')" and buf: "buffers B h q'"
    and ok: "irq_ok (put_threads t (th_clients t) pc' s h) q' pc'"
  shows "threads_at B (put_threads t (th_clients t) pc' s h) q'"
  by (rule own_step [where a = Irq, OF at refl _ q' ctx]) (use irq ch own buf ok in auto)

end
