(* ===== verification/Gpio_Interleaving.thy ===== *)
theory Gpio_Interleaving
  imports Gpio_Threads
begin

text \<open>
  The invariant of \<^theory_text>\<open>Gpio_Threads\<close> under every step of every thread: for each place in the code, that
  the step there is defined and leads to a state with the invariant again.
\<close>

section \<open>Buffers\<close>

lemma buffers_cong:
  assumes "buffers B h q" and "live h' = live h" and "allocated q' = allocated q"
    and "\<And>k. k \<in> allocated q \<Longrightarrow> vaddr_of q' k = vaddr_of q k \<and> dlen_of q' k = dlen_of q k"
  shows "buffers B h' q'"
proof -
  have "image_mset (\<lambda>k. (vaddr_of q' k, ucast (dlen_of q' k) :: size_t)) (mset_set (allocated q)) =
      image_mset (\<lambda>k. (vaddr_of q k, ucast (dlen_of q k))) (mset_set (allocated q))"
    by (rule image_mset_cong) (use assms(4) in simp)
  moreover have "inj_on (vaddr_of q') (allocated q)"
    using assms(1,4) by (simp add: buffers_def cong: inj_on_cong)
  ultimately show ?thesis using assms(1-3) by (simp add: buffers_def)
qed

lemma buffers_alloc:
  assumes "buffers B h q" and "alloc_result q len wr h EOK q' i h'"
  shows "buffers B h' q'"
proof -
  have r: "i \<notin> allocated q" "allocated q' = insert i (allocated q)" "dlen_of q' i = len" "vaddr_of q' i \<notin> bases h"
    "live h' = add_mset (vaddr_of q' i, ucast len) (live h)"
    "\<And>k. k \<noteq> i \<Longrightarrow> vq_desc q' ! unat k = vq_desc q ! unat k \<and> vq_extras q' ! unat k = vq_extras q ! unat k"
    using assms(2) unfolding alloc_result_def by simp_all
  have same: "vaddr_of q' k = vaddr_of q k" "dlen_of q' k = dlen_of q k" if "k \<in> allocated q" for k
  proof -
    have "k \<noteq> i" using r(1) that by blast
    from r(6) [OF this] show "vaddr_of q' k = vaddr_of q k" "dlen_of q' k = dlen_of q k" by simp_all
  qed
  have "image_mset (\<lambda>k. (vaddr_of q' k, ucast (dlen_of q' k) :: size_t)) (mset_set (allocated q)) =
      image_mset (\<lambda>k. (vaddr_of q k, ucast (dlen_of q k))) (mset_set (allocated q))"
    by (rule image_mset_cong) (use same in simp)
  then have lv: "live h' = B + image_mset (\<lambda>k. (vaddr_of q' k, ucast (dlen_of q' k))) (mset_set (allocated q'))"
    using assms(1) r(1,2,3,5) by (simp add: buffers_def)
  have "vaddr_of q' i \<notin> vaddr_of q' ` allocated q"
  proof
    assume "vaddr_of q' i \<in> vaddr_of q' ` allocated q"
    then obtain k where k: "k \<in> allocated q" "vaddr_of q' i = vaddr_of q k" using same(1) by auto
    have "(vaddr_of q k, ucast (dlen_of q k)) \<in># live h" using assms(1) k(1) by (simp add: buffers_def)
    then show False using r(4) k(2) by force
  qed
  moreover have "inj_on (vaddr_of q') (allocated q)"
    using assms(1) same(1) by (simp add: buffers_def cong: inj_on_cong)
  ultimately have "inj_on (vaddr_of q') (allocated q')"
    using r(1) unfolding r(2) inj_on_insert by simp
  then show ?thesis using lv by (simp add: buffers_def)
qed

lemma buffers_alloc_failed:
  assumes "buffers B h q" and "alloc_result q len wr h rc q' i h'" "rc \<noteq> EOK"
  shows "buffers B h' q'"
  by (rule buffers_cong [OF assms(1)]) (use assms(2,3) in \<open>simp_all add: alloc_result_def\<close>)

lemma buffers_free:
  assumes "buffers B h q" and "i \<in> allocated q" and "allocated (virtq_free_post q f i) = allocated q - {i}"
    and "live h' = live h - {#(vaddr_of q i, ucast (dlen_of q i))#}"
  shows "buffers B h' (virtq_free_post q f i)"
proof -
  let ?q = "virtq_free_post q f i" and ?g = "\<lambda>q k. (vaddr_of q k, ucast (dlen_of q k) :: size_t)"
  have same: "?g ?q k = ?g q k" if "k \<noteq> i" for k using that by (simp add: virtq_free_post_other)
  have "mset_set (allocated q) = add_mset i (mset_set (allocated q - {i}))"
    using assms(2) by (simp add: mset_set.remove)
  moreover have "image_mset (?g ?q) (mset_set (allocated q - {i})) = image_mset (?g q) (mset_set (allocated q - {i}))"
    by (rule image_mset_cong) (use same in auto)
  ultimately have "live h' = B + image_mset (?g ?q) (mset_set (allocated ?q))"
    using assms(1,3,4) by (simp add: buffers_def)
  moreover have "inj_on (vaddr_of ?q) (allocated q - {i})"
    using assms(1) same by (auto simp: buffers_def inj_on_def virtq_free_post_other)
  ultimately show ?thesis using assms(3) by (simp add: buffers_def)
qed

lemma buffers_live: "buffers B h q \<Longrightarrow> k \<in> allocated q \<Longrightarrow> (vaddr_of q k, ucast (dlen_of q k)) \<in># live h"
  by (simp add: buffers_def)

lemma buffers_apart: "buffers B h q \<Longrightarrow> k \<in> allocated q \<Longrightarrow> l \<in> allocated q \<Longrightarrow> vaddr_of q k = vaddr_of q l \<longleftrightarrow> k = l"
  by (auto simp: buffers_def inj_on_def)

section \<open>A client's own steps\<close>

text \<open>A step of client \<open>c\<close> that is defined and keeps the invariant.\<close>

definition client_steps_on :: "(ptr \<times> size_t) multiset \<Rightarrow> env \<Rightarrow> 'p virtio_gpio_device \<Rightarrow> gpio_threads \<Rightarrow> ptr \<Rightarrow> client_pc \<Rightarrow> bool" where
  "client_steps_on B env dev t c pc \<longleftrightarrow>
     (\<exists>pc' s h q'. client_step env dev c pc (th_state t) (th_hist t) = Some (pc', s, h) \<and>
        threads_at B (put_threads t ((th_clients t)(c \<mapsto> pc')) (th_irq t) s h) q')"

lemma platform_okD:
  assumes "platform_ok env dev"
  shows "locks_ok env" "errnos_ok env" "unmaps_ok env" "mmap_fresh env" "notifies env (gd_dev dev)"
  using assms by (simp_all add: platform_ok_def)

lemma fresh_ctx_put: "gs_ctx s = gs_ctx (th_state t) \<Longrightarrow> fresh_ctx (put_threads t cl irq s h) c = fresh_ctx t c"
  by (simp add: fresh_ctx_def)

lemma client_alloc0:
  assumes at: "threads_at B t q" and c: "th_clients t c = Some (At_alloc0 r)" and env: "platform_ok env dev"
  shows "client_steps_on B env dev t c (At_alloc0 r)"
proof -
  note t = threads_atD [OF at] and e = platform_okD [OF env]
  obtain rc q' i h' where r: "virtq_alloc_desc env (Some q) 8 False (Some (ucast (env_uninit env (th_hist t)))) (th_hist t) =
        Some (rc, Some q', Some i, h')" "alloc_result q 8 False (th_hist t) rc q' i h'"
    using virtq_alloc_desc_fresh [OF t(2) e(1-4)] by blast
  let ?pc = "if rc \<noteq> EOK then At_return rc else At_alloc1 r i"
  let ?s = "(th_state t)\<lparr> gs_vq := Some q' \<rparr>"
  have run: "client_step env dev c (At_alloc0 r) (th_state t) (th_hist t) = Some (?pc, ?s, h')"
    using r(1) t(1) by simp
  have inv: "virtq_inv q'" "same_rings q q'" using r(2) by (simp_all add: alloc_result_def)
  have ok: "req_type r \<in> client_types" "fresh_ctx t c" using t(8) [OF c] by simp_all
  have "threads_at B (put_threads t ((th_clients t)(c \<mapsto> ?pc)) (th_irq t) ?s h') q'"
  proof (rule client_local [OF at c _ inv])
    show "shares ((owned t q)(Client c := client_descs ?pc)) (allocated q')"
    proof (cases "rc = EOK")
      case True
      then show ?thesis
        using shares_gain [OF t(5), of i "[i]" "Client c"] r(2) c by (simp add: alloc_result_def)
    next
      case False
      then show ?thesis using t(5) r(2) c by (simp add: alloc_result_def fun_upd_idem)
    qed
    show "buffers B h' q'"
      using buffers_alloc [OF t(6)] buffers_alloc_failed [OF t(6)] r(2) by (cases "rc = EOK") auto
    show "vq_desc q' ! unat k = vq_desc q ! unat k \<and> vq_extras q' ! unat k = vq_extras q ! unat k \<and>
        gs_mem ?s (vaddr_of q k) = gs_mem (th_state t) (vaddr_of q k)" if "k \<in> allocated q" for k
      using r(2) that by (cases "rc = EOK") (auto simp: alloc_result_def)
    show "client_ok (put_threads t ((th_clients t)(c \<mapsto> ?pc)) (th_irq t) ?s h') q' c ?pc"
      using ok r(2) by (simp add: fresh_ctx_put alloc_result_def)
  qed simp_all
  then show ?thesis using run unfolding client_steps_on_def by blast
qed

lemma client_alloc1:
  assumes at: "threads_at B t q" and c: "th_clients t c = Some (At_alloc1 r i)" and env: "platform_ok env dev"
  shows "client_steps_on B env dev t c (At_alloc1 r i)"
proof -
  note t = threads_atD [OF at] and e = platform_okD [OF env]
  obtain rc q' j h' where r: "virtq_alloc_desc env (Some q) 2 True (Some (ucast (env_uninit env (th_hist t)))) (th_hist t) =
        Some (rc, Some q', Some j, h')" "alloc_result q 2 True (th_hist t) rc q' j h'"
    using virtq_alloc_desc_fresh [OF t(2) e(1-4)] by blast
  let ?pc = "if rc \<noteq> EOK then At_free0 rc i else At_store r i j"
  let ?s = "(th_state t)\<lparr> gs_vq := Some q' \<rparr>"
  have ok: "req_type r \<in> client_types" "fresh_ctx t c" "dlen_of q i = 8" using t(8) [OF c] by simp_all
  have sz: "ucast (virtio_gpio_response_size dev (req_type r)) = (2::u32)"
    using client_typesD [OF ok(1)] by (simp add: virtio_gpio_response_size_def)
  have run: "client_step env dev c (At_alloc1 r i) (th_state t) (th_hist t) = Some (?pc, ?s, h')"
    using r(1) t(1) sz by simp
  have inv: "virtq_inv q'" "same_rings q q'" using r(2) by (simp_all add: alloc_result_def)
  have i: "i \<in> allocated q" using client_owns(1) [OF at c] by simp
  have "threads_at B (put_threads t ((th_clients t)(c \<mapsto> ?pc)) (th_irq t) ?s h') q'"
  proof (rule client_local [OF at c _ inv])
    show "shares ((owned t q)(Client c := client_descs ?pc)) (allocated q')"
    proof (cases "rc = EOK")
      case True
      then show ?thesis
        using shares_gain [OF t(5), of j "[i, j]" "Client c"] r(2) c i by (auto simp: alloc_result_def)
    next
      case False
      then show ?thesis using t(5) r(2) c by (simp add: alloc_result_def fun_upd_idem)
    qed
    show "buffers B h' q'"
      using buffers_alloc [OF t(6)] buffers_alloc_failed [OF t(6)] r(2) by (cases "rc = EOK") auto
    show "vq_desc q' ! unat k = vq_desc q ! unat k \<and> vq_extras q' ! unat k = vq_extras q ! unat k \<and>
        gs_mem ?s (vaddr_of q k) = gs_mem (th_state t) (vaddr_of q k)" if "k \<in> allocated q" for k
      using r(2) that by (cases "rc = EOK") (auto simp: alloc_result_def)
    have "dlen_of q' i = 8" if "rc = EOK" using r(2) i ok(3) that by (auto simp: alloc_result_def)
    then show "client_ok (put_threads t ((th_clients t)(c \<mapsto> ?pc)) (th_irq t) ?s h') q' c ?pc"
      using ok r(2)
      by (simp add: fresh_ctx_put alloc_result_def has_next_def VIRTQ_DESC_F_WRITE_def VIRTQ_DESC_F_NEXT_def)
  qed simp_all
  then show ?thesis using run unfolding client_steps_on_def by blast
qed

lemma virtq_free_own:
  assumes "threads_at B t q" and "platform_ok env dev" and "i \<in> allocated q"
  shows "\<exists>f h'. virtq_free_desc env q i (th_hist t) = Some (EOK, virtq_free_post q f i, h') \<and>
      virtq_inv (virtq_free_post q f i) \<and> allocated (virtq_free_post q f i) = allocated q - {i} \<and>
      buffers B h' (virtq_free_post q f i)"
proof -
  note t = threads_atD [OF assms(1)] and e = platform_okD [OF assms(2)]
  have "env_munmap env (th_hist t) (vaddr_of q i) (ucast (dlen_of q i)) = 0"
    using e(3) buffers_live [OF t(6) assms(3)] by (simp add: unmaps_ok_def)
  from virtq_free_desc_run [OF t(2) e(1) assms(3) this] show ?thesis
    using buffers_free [OF t(6) assms(3)] by blast
qed

lemma client_free0:
  assumes at: "threads_at B t q" and c: "th_clients t c = Some (At_free0 rc i)" and env: "platform_ok env dev"
  shows "client_steps_on B env dev t c (At_free0 rc i)"
proof -
  note t = threads_atD [OF at]
  have ok: "rc \<noteq> EOK" "fresh_ctx t c" using t(8) [OF c] by simp_all
  have i: "i \<in> allocated q" using client_owns(1) [OF at c] by simp
  obtain f h' where r: "virtq_free_desc env q i (th_hist t) = Some (EOK, virtq_free_post q f i, h')"
      "virtq_inv (virtq_free_post q f i)" "allocated (virtq_free_post q f i) = allocated q - {i}"
      "buffers B h' (virtq_free_post q f i)"
    using virtq_free_own [OF at env i] by blast
  let ?q = "virtq_free_post q f i" and ?s = "(th_state t)\<lparr> gs_vq := Some (virtq_free_post q f i) \<rparr>"
  have run: "client_step env dev c (At_free0 rc i) (th_state t) (th_hist t) = Some (At_return rc, ?s, h')"
    using r(1) t(1) by (simp add: gpio_free_desc0_def)
  have "threads_at B (put_threads t ((th_clients t)(c \<mapsto> At_return rc)) (th_irq t) ?s h') ?q"
  proof (rule client_local [OF at c _ r(2)])
    show "shares ((owned t q)(Client c := client_descs (At_return rc))) (allocated ?q)"
      using shares_drop [OF t(5), of "Client c" i "[]"] c r(3) by simp
    show "buffers B h' ?q" by (rule r(4))
    show "client_ok (put_threads t ((th_clients t)(c \<mapsto> At_return rc)) (th_irq t) ?s h') ?q c (At_return rc)"
      using ok by (simp add: fresh_ctx_put)
  qed (simp_all add: virtq_free_post_other)
  then show ?thesis using run unfolding client_steps_on_def by blast
qed

lemma client_store:
  assumes at: "threads_at B t q" and c: "th_clients t c = Some (At_store r i j)"
  shows "client_steps_on B env dev t c (At_store r i j)"
proof -
  note t = threads_atD [OF at]
  have ok: "req_type r \<in> client_types" "fresh_ctx t c" "dlen_of q i = 8" "dlen_of q j = 2" "\<not> has_next (vq_desc q ! unat j)"
    using t(8) [OF c] by simp_all
  have ij: "i \<in> allocated q" "j \<in> allocated q" "i \<noteq> j"
    using client_owns(1,2) [OF at c] by simp_all
  then have i: "i < vq_num q" by (simp add: allocated_def)
  have "mapped (th_hist t) (vaddr_of q i) 8"
    using mapped_in [OF buffers_live [OF t(6) ij(1)]] ok(3) by simp
  then obtain f where f: "store_request (th_state t) (th_hist t) (vaddr_of q i) (req_type r) (req_gpio r) (req_value r) =
        Some ((th_state t)\<lparr> gs_mem := (gs_mem (th_state t))(vaddr_of q i := f) \<rparr>)"
      "map f [0..<8] = request_bytes (req_type r) (req_gpio r) (req_value r)"
    using store_request_run by blast
  let ?s = "(th_state t)\<lparr> gs_mem := (gs_mem (th_state t))(vaddr_of q i := f) \<rparr>"
  have run: "client_step env dev c (At_store r i j) (th_state t) (th_hist t) =
      Some (At_context r i j, ?s, th_hist t)"
    using f(1) t(1) virtq_get_desc_vaddr_run [OF t(2) i] by simp
  have "threads_at B (put_threads t ((th_clients t)(c \<mapsto> At_context r i j)) (th_irq t) ?s (th_hist t)) q"
  proof (rule client_local [OF at c _ t(2)])
    show "shares ((owned t q)(Client c := client_descs (At_context r i j))) (allocated q)"
      using t(5) c by (simp add: fun_upd_idem)
    show "vq_desc q ! unat k = vq_desc q ! unat k \<and> vq_extras q ! unat k = vq_extras q ! unat k \<and>
        gs_mem ?s (vaddr_of q k) = gs_mem (th_state t) (vaddr_of q k)"
      if "k \<in> allocated q" "k \<notin> set (client_descs (At_store r i j))" for k
      using buffers_apart [OF t(6) that(1) ij(1)] that(2) by simp
    show "client_ok (put_threads t ((th_clients t)(c \<mapsto> At_context r i j)) (th_irq t) ?s (th_hist t)) q c (At_context r i j)"
      using ok f(2) by (simp add: fresh_ctx_put holds_request_def)
  qed (use t in simp_all)
  then show ?thesis using run unfolding client_steps_on_def by blast
qed

lemma client_context:
  assumes at: "threads_at B t q" and c: "th_clients t c = Some (At_context r i j)"
  shows "client_steps_on B env dev t c (At_context r i j)"
proof -
  note t = threads_atD [OF at]
  have ok: "fresh_ctx t c" "dlen_of q i = 8" "dlen_of q j = 2" "\<not> has_next (vq_desc q ! unat j)"
    "holds_request t q i r"
    using t(8) [OF c] by simp_all
  have c0: "c \<noteq> 0" using t(8) [OF c] by blast
  have i: "i < vq_num q" using client_owns(1) [OF at c] by (simp add: allocated_def)
  let ?q = "q\<lparr> vq_extras := (vq_extras q)[unat i := (vq_extras q ! unat i)\<lparr> extras_context := c \<rparr>] \<rparr>"
  let ?s = "(th_state t)\<lparr> gs_vq := Some ?q \<rparr>"
  have run: "client_step env dev c (At_context r i j) (th_state t) (th_hist t) = Some (At_put r i j, ?s, th_hist t)"
    using t(1) virtq_set_desc_context_run [OF t(2) c0 i] by simp
  have inv: "virtq_inv ?q" using t(2) by (rule virtq_inv_extras) simp
  have rng: "unat i < length (vq_extras q)" using virtq_inv_in_range [OF t(2) i] by simp
  have ext: "vq_extras ?q ! unat k = (if k = i then (vq_extras q ! unat i)\<lparr> extras_context := c \<rparr> else vq_extras q ! unat k)" for k :: u16
    using rng by (simp add: nth_list_update unat_inject)
  have al: "allocated ?q = allocated q" by (simp add: allocated_def free_list_def)
  have "threads_at B (put_threads t ((th_clients t)(c \<mapsto> At_put r i j)) (th_irq t) ?s (th_hist t)) ?q"
  proof (rule client_local [OF at c _ inv])
    show "shares ((owned t q)(Client c := client_descs (At_put r i j))) (allocated ?q)"
      using t(5) c unfolding al by (simp add: fun_upd_idem)
    show "buffers B (th_hist t) ?q"
    proof (rule buffers_cong [OF t(6) refl al])
      show "vaddr_of ?q k = vaddr_of q k \<and> dlen_of ?q k = dlen_of q k" for k unfolding ext by simp
    qed
    show "vq_desc ?q ! unat k = vq_desc q ! unat k \<and> vq_extras ?q ! unat k = vq_extras q ! unat k \<and>
        gs_mem ?s (vaddr_of q k) = gs_mem (th_state t) (vaddr_of q k)"
      if "k \<notin> set (client_descs (At_context r i j))" for k
      using that unfolding ext by simp
    show "client_ok (put_threads t ((th_clients t)(c \<mapsto> At_put r i j)) (th_irq t) ?s (th_hist t)) ?q c (At_put r i j)"
      using ok rng by (simp add: fresh_ctx_put holds_request_def)
  qed (simp_all add: same_rings_def)
  then show ?thesis using run unfolding client_steps_on_def by blast
qed

lemma client_notify:
  assumes at: "threads_at B t q" and c: "th_clients t c = Some (At_notify r i)" and env: "platform_ok env dev"
  shows "client_steps_on B env dev t c (At_notify r i)"
proof -
  note t = threads_atD [OF at]
  obtain rc h' where n: "virtio_notify_queue env (Some (gd_dev dev)) 0 (th_hist t) = Some (rc, h')" "quiet (th_hist t) h'"
    using platform_okD(5) [OF env] unfolding notifies_def by blast
  have run: "client_step env dev c (At_notify r i) (th_state t) (th_hist t) = Some (At_wait r i, th_state t, h')"
    using n(1) by simp
  have "threads_at B (put_threads t ((th_clients t)(c \<mapsto> At_wait r i)) (th_irq t) (th_state t) h') q"
  proof (rule client_local [OF at c t(1,2)])
    show "shares ((owned t q)(Client c := client_descs (At_wait r i))) (allocated q)"
      using t(5) c by (simp add: fun_upd_idem)
    show "buffers B h' q" by (rule buffers_cong [OF t(6)]) (use n(2) in \<open>simp_all add: quiet_def\<close>)
    show "client_ok (put_threads t ((th_clients t)(c \<mapsto> At_wait r i)) (th_irq t) (th_state t) h') q c (At_wait r i)"
      using t(8) [OF c] by (simp add: sent_ok_def fresh_ctx_put posted_def heads_def)
  qed simp_all
  then show ?thesis using run unfolding client_steps_on_def by blast
qed

text \<open>Publishing the chain: its two descriptors pass from the client to the request.\<close>

lemma put_published:
  assumes at: "threads_at B t q" and c: "th_clients t c = Some (At_put r i j)"
    and ds: "chain ds [i, j]" "length ds = length (vq_desc q)" "\<forall>k. k \<noteq> i \<and> k \<noteq> j \<longrightarrow> ds ! unat k = vq_desc q ! unat k"
    and t': "t' = put_threads t ((th_clients t)(c \<mapsto> At_notify r i)) (th_irq t) ((th_state t)\<lparr> gs_vq := Some q' \<rparr>) h'"
    and q': "q' = virtq_put_post q ds i"
  shows "i \<notin> set (outstanding (th_sys t) q)" and "outstanding (th_sys t) q' = outstanding (th_sys t) q @ [i]"
    and "owned t' q' = (owned t q)(Client c := [], Head i := [i, j])" and "keeps t q t' q' {i, j} {}"
proof -
  note t = threads_atD [OF at]
  have i: "i < vq_num q" using client_owns(1) [OF at c] by (simp add: allocated_def)
  have sel: "vq_desc q' = ds" "vq_extras q' = vq_extras q" "used_pending q' = used_pending q"
    by (simp_all add: q' virtq_put_post_def used_pending_def)
  show new: "i \<notin> set (outstanding (th_sys t) q)"
    using head_descs(4) [OF at, of i "Client c"] c by auto
  have "set (outstanding (th_sys t) q) \<subseteq> allocated q - {i}" using head_descs(1) [OF at] new by blast
  then have "distinct (i # outstanding (th_sys t) q)" "\<forall>k \<in> set (i # outstanding (th_sys t) q). k < vq_num q"
    using new t(4) i by (auto simp: allocated_def)
  from distinct_words_length [OF this]
  have "unat (vq_avail_idx q - dev_seen (th_sys t)) < unat (vq_num q)"
    using length_avail_since [of q "dev_seen (th_sys t)"] by (simp add: outstanding_def)
  from avail_since_put_post [OF t(2,3) this]
  show out: "outstanding (th_sys t) q' = outstanding (th_sys t) q @ [i]"
    by (simp add: outstanding_def sel(3) [unfolded q'] q')
  have nx: "next_of q' k = next_of q k" if "k \<in> set (outstanding (th_sys t) q)" for k
    using head_descs(4) [OF at that, of "Client c"] c ds(3) by (simp add: sel)
  show "owned t' q' = (owned t q)(Client c := [], Head i := [i, j])"
  proof
    fix a show "owned t' q' a = ((owned t q)(Client c := [], Head i := [i, j])) a"
      using ds(1) new nx unfolding t' by (cases a) (auto simp: out sel)
  qed
  show "keeps t q t' q' {i, j} {}"
    using ds(2,3) c unfolding t' by (simp add: keeps_def sel waits_for_def)
qed

lemma client_put:
  assumes at: "threads_at B t q" and c: "th_clients t c = Some (At_put r i j)" and env: "platform_ok env dev"
  shows "client_steps_on B env dev t c (At_put r i j)"
proof -
  note t = threads_atD [OF at]
  have ok: "fresh_ctx t c" "dlen_of q i = 8" "dlen_of q j = 2" "\<not> has_next (vq_desc q ! unat j)"
    "holds_request t q i r" "context_of q i = c"
    using t(8) [OF c] by simp_all
  have "i \<in> allocated q" "j \<in> allocated q" and ij: "i \<noteq> j" using client_owns(1,2) [OF at c] by simp_all
  then have lt: "i < vq_num q" "j < vq_num q" by (simp_all add: allocated_def)
  obtain rc ds h' where put: "virtq_put_desc_chain env q 2 [i, j] (th_hist t) = Some (rc, virtq_put_post q ds i, h')"
      "chain ds [i, j]" "length ds = length (vq_desc q)"
      "\<forall>k. k \<noteq> i \<and> k \<noteq> j \<longrightarrow> ds ! unat k = vq_desc q ! unat k"
      "\<And>k::u16. desc_len (ds ! unat k) = dlen_of q k" "quiet (th_hist t) h'"
    using virtq_put_desc_chain_run [OF t(2), where cnt = 2 and idx = "[i, j]" and env = env and h = "th_hist t"]
      lt ij ok(4) platform_okD(1) [OF env]
    by (auto simp del: chain.simps)
  let ?q = "virtq_put_post q ds i" and ?s = "(th_state t)\<lparr> gs_vq := Some (virtq_put_post q ds i) \<rparr>"
  let ?t = "put_threads t ((th_clients t)(c \<mapsto> At_notify r i)) (th_irq t) ?s h'"
  have run: "client_step env dev c (At_put r i j) (th_state t) (th_hist t) = Some (At_notify r i, ?s, h')"
    using put(1) t(1) by simp
  have sel: "vq_desc ?q = ds" "vq_extras ?q = vq_extras q" "vq_num ?q = vq_num q" "used_pending ?q = used_pending q"
    "allocated ?q = allocated q"
    by (simp_all add: virtq_put_post_def used_pending_def allocated_def free_list_def)
  note pub = put_published [where h' = h', OF at c put(2-4) refl refl]
  note new = pub(1) and out = pub(2) and own = pub(3) and kp = pub(4)
  have "threads_at B ?t ?q"
  proof (rule threads_at_step [OF at _ _ sel(3) _ _ _ kp, where A = "{c}"])
    show "virtq_inv ?q" by (rule virtq_put_post_inv [OF t(2) put(3)])
    show "distinct (outstanding (th_sys ?t) ?q)" using t(4) new unfolding put_threads_sel out by simp
    show "shares (owned ?t ?q) (allocated ?q)"
      unfolding own sel by (rule shares_pass [OF t(5)]) (use c new in simp_all)
    show "buffers B (th_hist ?t) ?q"
      by (rule buffers_cong [OF t(6)]) (use put(5,6) in \<open>simp_all add: sel quiet_def\<close>)
    show "gs_ctx (th_state ?t) c' = None" if "th_clients ?t c' = None" for c'
      using that t(7) [of c'] by (simp split: if_splits)
    show "th_clients t c' = Some pc \<and> c' \<notin> {} \<and> set (client_descs pc) \<inter> {i, j} = {}"
      if "th_clients ?t c' = Some pc" "c' \<notin> {c}" for c' pc
      using that client_owns(3) [OF at, of c' pc "Client c"] c by auto
    have "sent_ok ?t ?q c i"
      using ok(1,6) by (simp add: sent_ok_def fresh_ctx_put heads_def out sel)
    then show "c' \<noteq> 0 \<and> client_ok ?t ?q c' pc" if "c' \<in> {c}" "th_clients ?t c' = Some pc" for c' pc
      using that t(8) [OF c] by auto
    show "k \<in> heads ?t ?q \<and> context_of ?q k = context_of q k" if "k \<in> heads t q" for k
      using that unfolding heads_def put_threads_sel out by (auto simp: sel split: irq_pc.splits)
    have "desc_next (ds ! unat i) = j" using put(2) by simp
    then have "head_ok ?t ?q i (i \<in> set (used_pending ?q))"
      using put(2,5) ok new c
      by (auto simp: head_ok_def Let_def sel fresh_ctx_put holds_request_def waits_for_def outstanding_def simp del: chain.simps)
    then show "(k \<in> set (outstanding (th_sys t) q) \<and> k \<notin> {i, j} \<and> next_of q k \<notin> {i, j} \<and> context_of q k \<notin> {} \<and>
        (k \<in> set (used_pending ?q) \<longrightarrow> k \<in> set (used_pending q))) \<or> head_ok ?t ?q k (k \<in> set (used_pending ?q))"
      if "k \<in> set (outstanding (th_sys ?t) ?q)" for k
      using that head_descs(4) [OF at, of k "Client c"] c unfolding put_threads_sel out by (auto simp: sel)
    show "irq_ok ?t ?q (th_irq ?t)"
      by (simp, rule irq_ok_frame [OF kp t(10) irq_owns(1) [OF at]])
        (use irq_owns(3) [OF at, of "Client c"] c in auto)
  qed simp
  then show ?thesis using run unfolding client_steps_on_def by blast
qed

section \<open>The interrupt thread's own steps\<close>

definition irq_steps_on :: "(ptr \<times> size_t) multiset \<Rightarrow> env \<Rightarrow> gpio_threads \<Rightarrow> bool" where
  "irq_steps_on B env t \<longleftrightarrow>
     (\<exists>pc' s h q'. irq_step env (th_irq t) (th_state t) (th_hist t) = Some (pc', s, h) \<and>
        threads_at B (put_threads t (th_clients t) pc' s h) q')"

lemma irq_idle_on:
  assumes at: "threads_at B t q" and irq: "th_irq t = Irq_idle"
  shows "irq_steps_on B env t"
proof -
  note t = threads_atD [OF at]
  let ?pc = "Irq_fetch (replicate 2 (ucast (env_uninit env (th_hist t))))"
  have "threads_at B (put_threads t (th_clients t) ?pc (th_state t) (th_hist t)) q"
    by (rule irq_local [OF at _ t(1,2)]) (use irq t in \<open>simp_all add: fun_upd_idem\<close>)
  then show ?thesis using irq unfolding irq_steps_on_def by auto
qed

text \<open>The two calls of \<open>virtq_free_desc\<close>: the thread gives up its first descriptor.\<close>

lemma irq_free_on:
  assumes at: "threads_at B t q" and env: "platform_ok env dev" and d: "irq_descs (th_irq t) = i # irq_descs pc'"
    and pc: "\<And>idxs. th_irq t \<noteq> Irq_got idxs" and ok: "\<And>t q. irq_ok t q pc'"
    and step: "\<And>f h. virtq_free_desc env q i (th_hist t) = Some (EOK, virtq_free_post q f i, h) \<Longrightarrow>
      irq_step env (th_irq t) (th_state t) (th_hist t) =
        Some (pc', (th_state t)\<lparr> gs_vq := Some (virtq_free_post q f i) \<rparr>, h)"
  shows "irq_steps_on B env t"
proof -
  note t = threads_atD [OF at]
  have i: "i \<in> allocated q" using irq_owns(1) [OF at] d by simp
  obtain f h' where r: "virtq_free_desc env q i (th_hist t) = Some (EOK, virtq_free_post q f i, h')"
      "virtq_inv (virtq_free_post q f i)" "allocated (virtq_free_post q f i) = allocated q - {i}"
      "buffers B h' (virtq_free_post q f i)"
    using virtq_free_own [OF at env i] by blast
  let ?q = "virtq_free_post q f i" and ?s = "(th_state t)\<lparr> gs_vq := Some (virtq_free_post q f i) \<rparr>"
  have "threads_at B (put_threads t (th_clients t) pc' ?s h') ?q"
  proof (rule irq_local [OF at pc _ r(2)])
    show "shares ((owned t q)(Irq := irq_descs pc')) (allocated ?q)"
      unfolding r(3) by (rule shares_drop [OF t(5)]) (simp add: d)
    show "irq_ok (put_threads t (th_clients t) pc' ?s h') ?q pc'" by (rule ok)
  qed (use r(4) d in \<open>simp_all add: virtq_free_post_other\<close>)
  then show ?thesis using step [OF r(1)] unfolding irq_steps_on_def by blast
qed

lemma irq_free0_on:
  assumes at: "threads_at B t q" and env: "platform_ok env dev" and irq: "th_irq t = Irq_free0 idxs"
  shows "irq_steps_on B env t"
proof -
  have "length idxs = 2" using threads_atD(10) [OF at] irq by simp
  then obtain i j where idxs: "idxs = [i, j]" by (auto simp: length_Suc_conv numeral_2_eq_2)
  show ?thesis
    by (rule irq_free_on [OF at env, of i "Irq_free1 idxs"])
      (use irq idxs threads_atD(1) [OF at] in \<open>simp_all add: arr_get_def\<close>)
qed

lemma irq_free1_on:
  assumes at: "threads_at B t q" and env: "platform_ok env dev" and irq: "th_irq t = Irq_free1 idxs"
  shows "irq_steps_on B env t"
proof -
  have "length idxs = 2" using threads_atD(10) [OF at] irq by simp
  then obtain i j where idxs: "idxs = [i, j]" by (auto simp: length_Suc_conv numeral_2_eq_2)
  show ?thesis
    by (rule irq_free_on [OF at env, of j "Irq_fetch idxs"])
      (use irq idxs threads_atD(1) [OF at] in \<open>simp_all add: arr_get_def\<close>)
qed

text \<open>A head has a client that waits for it, and its context belongs to no other head.\<close>

lemma heads_wait:
  assumes "threads_at B t q" and "k \<in> heads t q"
  shows "(\<exists>r. waits_for t (context_of q k) r k) \<and> fresh_ctx t (context_of q k)"
proof (cases "k \<in> set (outstanding (th_sys t) q)")
  case True
  then show ?thesis using threads_atD(9) [OF assms(1)] by (auto simp: head_ok_def Let_def)
next
  case False
  then obtain idxs where i: "th_irq t = Irq_got idxs" "k \<in> set (take 1 idxs)"
    using assms(2) by (auto simp: heads_def split: irq_pc.splits)
  with threads_atD(10) [OF assms(1)] show ?thesis by (auto simp: head_ok_def Let_def)
qed

lemma heads_context:
  assumes "threads_at B t q" and "i \<in> heads t q" and "k \<in> heads t q" and "context_of q k = context_of q i"
  shows "k = i"
proof -
  obtain r r' where "waits_for t (context_of q i) r i" "waits_for t (context_of q i) r' k"
    using heads_wait [OF assms(1,2)] heads_wait [OF assms(1,3)] unfolding assms(4) by blast
  then show ?thesis unfolding waits_for_def by auto
qed

text \<open>The completion: the context of the request gets its answer and one post.\<close>

lemma irq_got_run:
  assumes at: "threads_at B t q" and irq: "th_irq t = Irq_got [i, next_of q i]" and hd: "head_ok t q i True"
  shows "irq_step env (th_irq t) (th_state t) (th_hist t) =
      Some (Irq_free0 [i, next_of q i],
            (th_state t)\<lparr> gs_ctx := (gs_ctx (th_state t))(context_of q i \<mapsto>
               completed (gs_mem (th_state t) (vaddr_of q (next_of q i))) fresh_header) \<rparr>,
            SemPost (context_of q i) # th_hist t)"
proof -
  note t = threads_atD [OF at]
  let ?j = "next_of q i" and ?c = "context_of q i" and ?s = "th_state t"
  have ij: "i \<in> allocated q" "?j \<in> allocated q" using irq_owns(1) [OF at] irq by simp_all
  then have lt: "i < vq_num q" "?j < vq_num q" by (simp_all add: allocated_def)
  have ok: "dlen_of q i = 8" "dlen_of q ?j = 2" "fresh_ctx t ?c" using hd by (simp_all add: head_ok_def Let_def)
  obtain r where r: "holds_request t q i r" using hd by (auto simp: head_ok_def Let_def)
  obtain v where v: "gs_ctx ?s ?c = Some (Context fresh_header v)" using ok(3) by (auto simp: fresh_ctx_def)
  have "mapped (th_hist t) (vaddr_of q i) 8" "mapped (th_hist t) (vaddr_of q ?j) 2"
    using mapped_in [OF buffers_live [OF t(6) ij(1)]] mapped_in [OF buffers_live [OF t(6) ij(2)]] ok(1,2) by simp_all
  from virtio_gpio_callback_run [OF this v] holds_request_type [OF r] show ?thesis
    using irq t(1) lt v virtq_get_desc_vaddr_run [OF t(2)] virtq_get_desc_context_run [OF t(2)]
    by (simp add: request_type_def pointer_of_def arr_get_def fresh_header_def)
qed

lemma irq_got_on:
  assumes at: "threads_at B t q" and env: "platform_ok env dev" and irq: "th_irq t = Irq_got idxs"
  shows "irq_steps_on B env t"
proof -
  note t = threads_atD [OF at]
  obtain i where i: "th_irq t = Irq_got [i, next_of q i]" "head_ok t q i True" using t(10) irq by auto
  let ?j = "next_of q i" and ?c = "context_of q i" and ?s = "th_state t"
  let ?s1 = "?s\<lparr> gs_ctx := (gs_ctx ?s)(?c \<mapsto> completed (gs_mem ?s (vaddr_of q ?j)) fresh_header) \<rparr>"
  let ?t = "put_threads t (th_clients t) (Irq_free0 [i, ?j]) ?s1 (SemPost ?c # th_hist t)"
  obtain r where r: "waits_for t ?c r i" using i(2) by (auto simp: head_ok_def Let_def)
  have ih: "i \<in> heads t q" using i(1) by (simp add: heads_def)
  have kp: "keeps t q ?t q {} {?c}" by (simp add: keeps_def waits_for_def)
  have only: "context_of q k \<noteq> ?c" if k: "k \<in> set (outstanding (th_sys t) q)" for k
    using heads_context [OF at ih, of k] head_descs(4) [OF at k, of Irq] k i(1) by (auto simp: heads_def)
  have out: "set (outstanding (th_sys t) q) = heads ?t q" by (simp add: heads_def)
  have "threads_at B ?t q"
  proof (rule threads_at_step [OF at _ t(2) refl _ _ _ kp, where A = "{?c}"])
    have "owned ?t q = owned t q"
    proof
      fix a show "owned ?t q a = owned t q a" using i(1) by (cases a) simp_all
    qed
    then show "shares (owned ?t q) (allocated q)" using t(5) by simp
    show "buffers B (th_hist ?t) q" by (rule buffers_cong [OF t(6)]) simp_all
    show "gs_ctx (th_state ?t) c = None" if "th_clients ?t c = None" for c
      using that t(7) [of c] r by (auto simp: waits_for_def)
    show "th_clients t c = Some pc \<and> c \<notin> {?c} \<and> set (client_descs pc) \<inter> {} = {}"
      if "th_clients ?t c = Some pc" "c \<notin> {?c}" for c pc using that by simp
    have "sent_ok ?t q ?c i"
      using i(2) by (simp add: sent_ok_def posted_def completed_def fresh_header_def head_ok_def Let_def)
    then show "c \<noteq> 0 \<and> client_ok ?t q c pc" if "c \<in> {?c}" "th_clients ?t c = Some pc" for c pc
      using that r t(8) [of c pc] by (auto simp: waits_for_def)
    show "k \<in> heads ?t q \<and> context_of q k = context_of q k" if "k \<in> heads t q" "context_of q k \<notin> {?c}" for k
      using that i(1) by (auto simp: heads_def)
    show "(k \<in> set (outstanding (th_sys t) q) \<and> k \<notin> {} \<and> next_of q k \<notin> {} \<and> context_of q k \<notin> {?c} \<and>
        (k \<in> set (used_pending q) \<longrightarrow> k \<in> set (used_pending q))) \<or> head_ok ?t q k (k \<in> set (used_pending q))"
      if "k \<in> set (outstanding (th_sys ?t) q)" for k
      using that only by simp
  qed (use t in simp_all)
  then show ?thesis using irq_got_run [OF at i] unfolding irq_steps_on_def by blast
qed

text \<open>Fetching: the oldest answered request passes to the interrupt thread.\<close>

lemma irq_fetch_none:
  assumes at: "threads_at B t q" and env: "platform_ok env dev" and irq: "th_irq t = Irq_fetch idxs"
    and up: "used_pending q = []"
  shows "irq_steps_on B env t"
proof -
  note t = threads_atD [OF at]
  have len: "length idxs = 2" using t(10) irq by simp
  have lock: "env_spin_lock env (th_hist t) (VirtqLock (vq_self q)) = EOK" using platform_okD(1) [OF env] by simp
  have "vq_used_idx q = vq_last_seen_used q"
    using up by (metis length_used_pending list.size(3) unat_eq_zero right_minus_eq)
  then obtain h' where g: "virtq_get_desc_chain env (Some q) (Some 2) (Some idxs) (th_hist t) =
      Some (ENOENT, Some q, Some 2, Some idxs, h')" "quiet (th_hist t) h'"
    using virtq_get_desc_chain_run [OF t(2) lock, of 2 idxs "[]"] len by auto
  have "(th_state t)\<lparr> gs_vq := Some q \<rparr> = th_state t" using t(1) by simp
  then have run: "irq_step env (th_irq t) (th_state t) (th_hist t) = Some (Irq_idle, th_state t, h')"
    using irq g(1) t(1) by (simp add: virtq_callback_get_def)
  have "threads_at B (put_threads t (th_clients t) Irq_idle (th_state t) h') q"
    by (rule irq_local [OF at _ t(1,2)])
      (use irq t buffers_cong [OF t(6)] g(2) in \<open>simp_all add: fun_upd_idem quiet_def\<close>)
  then show ?thesis using run unfolding irq_steps_on_def by blast
qed

lemma irq_fetch_some:
  assumes at: "threads_at B t q" and env: "platform_ok env dev" and irq: "th_irq t = Irq_fetch idxs"
    and up: "used_pending q = i # us"
  shows "irq_steps_on B env t"
proof -
  note t = threads_atD [OF at]
  let ?s = "th_state t" and ?j = "next_of q i"
  have len: "length idxs = 2" using t(10) irq by simp
  have lock: "env_spin_lock env (th_hist t) (VirtqLock (vq_self q)) = EOK" using platform_okD(1) [OF env] by simp
  have io: "i \<in> set (outstanding (th_sys t) q)" using up by (simp add: outstanding_def)
  have hd: "head_ok t q i True" using t(9) [OF io] up by simp
  have ch: "chain (vq_desc q) [i, ?j]" using hd by (simp add: head_ok_def Let_def)
  let ?q = "q\<lparr> vq_last_seen_used := vq_last_seen_used q + 1 \<rparr>"
  obtain h' where g: "virtq_get_desc_chain env (Some q) (Some 2) (Some idxs) (th_hist t) =
      Some (EOK, Some ?q, Some (of_nat 2), Some ([i, ?j] @ drop 2 idxs), h')" "quiet (th_hist t) h'"
    using virtq_get_oldest_run [OF t(2) lock up ch, of 2 idxs] len by (auto simp del: chain.simps)
  let ?s1 = "?s\<lparr> gs_vq := Some ?q \<rparr>"
  let ?t = "put_threads t (th_clients t) (Irq_got [i, ?j]) ?s1 h'"
  have run: "irq_step env (th_irq t) ?s (th_hist t) = Some (Irq_got [i, ?j], ?s1, h')"
    using irq g(1) t(1) len by (simp add: virtq_callback_get_def)
  have al: "allocated ?q = allocated q" by (simp add: allocated_def)
  have up1: "used_pending ?q = us" using used_pending_consume [OF t(3) up] .
  have out: "outstanding (th_sys t) q = i # outstanding (th_sys t) ?q"
    using up up1 by (simp add: outstanding_def avail_since_def)
  have new: "i \<notin> set (outstanding (th_sys t) ?q)" using t(4) unfolding out by simp
  have kp: "keeps t q ?t ?q {} {}" by (simp add: keeps_def waits_for_def)
  have own: "owned ?t ?q = (owned t q)(Head i := [], Irq := [i, ?j])"
  proof
    fix a show "owned ?t ?q a = ((owned t q)(Head i := [], Irq := [i, ?j])) a"
      using new out by (cases a) auto
  qed
  have "threads_at B ?t ?q"
  proof (rule threads_at_step [OF at _ _ _ _ _ _ kp, where A = "{}"])
    show "shares (owned ?t ?q) (allocated ?q)"
      unfolding own al by (rule shares_pass [OF t(5)]) (use io irq in simp_all)
    show "buffers B (th_hist ?t) ?q"
      by (rule buffers_cong [OF t(6)]) (use al g(2) in \<open>simp_all add: quiet_def\<close>)
    show "k \<in> heads ?t ?q \<and> context_of ?q k = context_of q k" if "k \<in> heads t q" for k
      using that irq unfolding heads_def out by auto
    show "(k \<in> set (outstanding (th_sys t) q) \<and> k \<notin> {} \<and> next_of q k \<notin> {} \<and> context_of q k \<notin> {} \<and>
        (k \<in> set (used_pending ?q) \<longrightarrow> k \<in> set (used_pending q))) \<or> head_ok ?t ?q k (k \<in> set (used_pending ?q))"
      if "k \<in> set (outstanding (th_sys ?t) ?q)" for k
      using that up up1 unfolding out by simp
    have "head_ok ?t ?q i True"
      by (rule head_ok_frame [OF kp hd _ head_descs(1,2) [OF at io]]) simp_all
    then show "irq_ok ?t ?q (th_irq ?t)" by simp
    show "distinct (outstanding (th_sys ?t) ?q)" using t(4) unfolding out by simp
  qed (use t in simp_all)
  then show ?thesis using run unfolding irq_steps_on_def by blast
qed

lemma irq_fetch_on:
  "threads_at B t q \<Longrightarrow> platform_ok env dev \<Longrightarrow> th_irq t = Irq_fetch idxs \<Longrightarrow> irq_steps_on B env t"
  by (cases "used_pending q") (blast intro: irq_fetch_none irq_fetch_some)+

section \<open>Entering and leaving\<close>

text \<open>Only the context of \<open>c\<close> and the client \<open>c\<close> change, and \<open>c\<close> has no request.\<close>

lemma ctx_step:
  assumes at: "threads_at B t q" and s: "gs_vq s = Some q" "gs_mem s = gs_mem (th_state t)"
    and ctx: "\<And>c'. c' \<noteq> c \<Longrightarrow> gs_ctx s c' = gs_ctx (th_state t) c'" and cl: "\<And>c'. c' \<noteq> c \<Longrightarrow> cl c' = th_clients t c'"
    and h: "live h = live (th_hist t)" and idle: "owned t q (Client c) = []" "\<And>k. k \<in> heads t q \<Longrightarrow> context_of q k \<noteq> c"
    and none: "cl c = None \<Longrightarrow> gs_ctx s c = None"
    and ok: "\<And>pc. cl c = Some pc \<Longrightarrow> c \<noteq> 0 \<and> client_descs pc = [] \<and> 
      client_ok ((put_threads t cl (th_irq t) s h)\<lparr> th_answers := (th_answers t)(c := a) \<rparr>) q c pc"
  shows "threads_at B ((put_threads t cl (th_irq t) s h)\<lparr> th_answers := (th_answers t)(c := a) \<rparr>) q"
    (is "threads_at B ?t q")
proof (rule threads_at_step [OF at, where K = "{}" and X = "{c}" and A = "{c}"])
  note t = threads_atD [OF at]
  have "waits_for t c' r i \<Longrightarrow> waits_for ?t c' r i" if "c' \<noteq> c" for c' r i
    using cl [OF that] by (simp add: waits_for_def)
  then show kp: "keeps t q ?t q {} {c}" using s(2) ctx by (simp add: keeps_def)
  have "owned ?t q = owned t q"
  proof
    fix a show "owned ?t q a = owned t q a"
    proof (cases a)
      case (Client c')
      then show ?thesis using cl [of c'] idle(1) ok by (cases "c' = c"; cases "cl c") simp_all
    qed simp_all
  qed
  then show "shares (owned ?t q) (allocated q)" using t(5) by simp
  show "buffers B (th_hist ?t) q" by (rule buffers_cong [OF t(6)]) (use h in simp_all)
  show "gs_ctx (th_state ?t) c' = None" if "th_clients ?t c' = None" for c'
    using that t(7) [of c'] none cl [of c'] ctx [of c'] by (cases "c' = c") auto
  show "irq_ok ?t q (th_irq ?t)"
  proof (simp, rule irq_ok_frame [OF kp t(10) irq_owns(1) [OF at]])
    show "context_of q i \<notin> {c}" if "th_irq t = Irq_got [i, next_of q i]" for i
      using idle(2) [of i] that by (simp add: heads_def)
  qed simp
  show "(k \<in> set (outstanding (th_sys t) q) \<and> k \<notin> {} \<and> next_of q k \<notin> {} \<and> context_of q k \<notin> {c} \<and>
      (k \<in> set (used_pending q) \<longrightarrow> k \<in> set (used_pending q))) \<or> head_ok ?t q k (k \<in> set (used_pending q))"
    if "k \<in> set (outstanding (th_sys ?t) q)" for k
    using that idle(2) [of k] by (simp add: heads_def)
qed (use threads_atD [OF at] s(1) cl ok in \<open>auto simp: heads_def\<close>)

lemma ctx_step_quiet:
  assumes at: "threads_at B t q" and s: "gs_vq s = Some q" "gs_mem s = gs_mem (th_state t)"
    and ctx: "\<And>c'. c' \<noteq> c \<Longrightarrow> gs_ctx s c' = gs_ctx (th_state t) c'" and cl: "\<And>c'. c' \<noteq> c \<Longrightarrow> cl c' = th_clients t c'"
    and h: "live h = live (th_hist t)" and idle: "owned t q (Client c) = []" "\<And>k. k \<in> heads t q \<Longrightarrow> context_of q k \<noteq> c"
    and none: "cl c = None" "gs_ctx s c = None"
  shows "threads_at B (put_threads t cl (th_irq t) s h) q"
proof -
  have same: "(put_threads t cl (th_irq t) s h)\<lparr> th_answers := th_answers t \<rparr> =
      put_threads t cl (th_irq t) s h"
    by (cases t) (simp add: put_threads_def)
  show ?thesis
    using ctx_step [OF at s ctx cl h idle, of "th_answers t c"] none by (simp add: same)
qed

lemma enter_on:
  assumes at: "threads_at B t q" and c: "c \<noteq> 0" "th_clients t c = None" "req_type r \<in> client_types"
    and init: "virtio_gpio_context_init env c (gpio_enter env c (th_state t) (th_hist t)) (th_hist t) = Some (rc, s, h)"
  shows "threads_at B (if rc = EOK then
         (put_threads t ((th_clients t)(c \<mapsto> At_alloc0 r)) (th_irq t) s h)\<lparr> th_answers := (th_answers t)(c := None) \<rparr>
       else put_threads t (th_clients t) (th_irq t) (gpio_leave c s) h) q"
proof -
  note t = threads_atD [OF at]
  have none: "gs_ctx (th_state t) c = None" using t(7) [OF c(2)] .
  have idle: "context_of q k \<noteq> c" if "k \<in> heads t q" for k
    using heads_wait [OF at that] c(2) by (auto simp: waits_for_def)
  have s: "gs_vq s = Some q" "gs_mem s = gs_mem (th_state t)" "live h = live (th_hist t)"
      "\<And>c'. c' \<noteq> c \<Longrightarrow> gs_ctx s c' = gs_ctx (th_state t) c'"
    using init t(1) by (auto simp: virtio_gpio_context_init_def gpio_enter_def Let_def)
  show ?thesis
  proof (cases "rc = EOK")
    case True
    have "\<exists>v. gs_ctx s c = Some (Context fresh_header v)"
      using init True by (auto simp: virtio_gpio_context_init_def gpio_enter_def Let_def fresh_header_def)
    then have "threads_at B
        ((put_threads t ((th_clients t)(c \<mapsto> At_alloc0 r)) (th_irq t) s h)\<lparr> th_answers := (th_answers t)(c := None) \<rparr>) q"
      by (intro ctx_step [OF at s(1,2), where c = c]) (use s idle c in \<open>auto simp: fresh_ctx_def\<close>)
    then show ?thesis using True by simp
  next
    case False
    have "threads_at B (put_threads t (th_clients t) (th_irq t) (gpio_leave c s) h) q"
      by (rule ctx_step_quiet [OF at, where c = c]) (use s idle c in \<open>auto simp: gpio_leave_def\<close>)
    then show ?thesis using False by simp
  qed
qed

lemma failed_on:
  assumes at: "threads_at B t q" and c: "th_clients t c = Some (At_return rc)"
    and d: "gpio_deinit env rc c (th_state t) (th_hist t) = (rc', s, h)"
  shows "threads_at B (put_threads t ((th_clients t)(c := None)) (th_irq t) s h) q"
proof -
  have idle: "context_of q k \<noteq> c" if "k \<in> heads t q" for k
    using heads_wait [OF at that] c by (auto simp: waits_for_def)
  have s: "s = gpio_leave c (th_state t)" "live h = live (th_hist t)"
    using d by (auto simp: gpio_deinit_def virtio_gpio_context_deinit_def)
  show ?thesis
    by (rule ctx_step_quiet [OF at, where c = c]) (use s idle c threads_atD(1) [OF at] in \<open>auto simp: gpio_leave_def\<close>)
qed

text \<open>A client whose wait returned was posted, and what it returns is the device's answer.\<close>

lemma wait_posted:
  assumes at: "threads_at B t q" and c: "th_clients t c = Some (At_wait r i)"
    and w: "sem_wait_others env (\<lambda>s h. Some (s, h)) c (th_state t) (th_hist t) = Some (0, s1, h1)"
  shows "\<exists>hdr v. gs_ctx (th_state t) c = Some (Context hdr v) \<and> ctx_sem hdr = 1 \<and>
      th_answers t c = Some (ctx_status hdr, v) \<and>
      s1 = (th_state t)\<lparr> gs_ctx := (gs_ctx (th_state t))(c \<mapsto> Context (hdr\<lparr> ctx_sem := 0 \<rparr>) v) \<rparr> \<and>
      h1 = SemWait c 0 # th_hist t"
proof -
  have "\<not> fresh_ctx t c"
    using w by (auto simp: fresh_ctx_def fresh_header_def sem_wait_others_def split: if_splits)
  then have "posted t c" using threads_atD(8) [OF at c] by (simp add: sent_ok_def)
  then show ?thesis using w by (auto simp: posted_def sem_wait_others_def split: if_splits)
qed

lemma return_on:
  assumes at: "threads_at B t q" and c: "th_clients t c = Some (At_wait r i)"
    and w: "sem_wait_others env (\<lambda>s h. Some (s, h)) c (th_state t) (th_hist t) = Some (0, s1, h1)"
    and e: "gpio_end env 0 c out s1 h1 = Some (rc, out', s, h)"
  shows "threads_at B (put_threads t ((th_clients t)(c := None)) (th_irq t) s h) q"
proof -
  obtain hdr v where p: "gs_ctx (th_state t) c = Some (Context hdr v)" "ctx_sem hdr = 1"
      "s1 = (th_state t)\<lparr> gs_ctx := (gs_ctx (th_state t))(c \<mapsto> Context (hdr\<lparr> ctx_sem := 0 \<rparr>) v) \<rparr>"
      "h1 = SemWait c 0 # th_hist t"
    using wait_posted [OF at c w] by blast
  have idle: "context_of q k \<noteq> c" if "k \<in> heads t q" for k
    using heads_wait [OF at that] p(1,2) by (auto simp: fresh_ctx_def fresh_header_def)
  have s: "s = gpio_leave c s1" "live h = live (th_hist t)"
    using e p(4) by (auto simp: gpio_end_def gpio_deinit_def virtio_gpio_context_deinit_def bind_eq_Some_conv
        split: option.splits gpio_context.splits)
  show ?thesis
    by (rule ctx_step_quiet [OF at, where c = c])
      (use s p idle c threads_atD(1) [OF at] in \<open>auto simp: gpio_leave_def\<close>)
qed

section \<open>The device\<close>

lemma take_on:
  assumes at: "threads_at B t q" and d: "device_take (th_sys t) = Some sys'"
  shows "threads_at B (t\<lparr> th_sys := sys' \<rparr>) q" (is "threads_at B ?t q")
proof -
  note t = threads_atD [OF at]
  have sys': "dev_seen (th_sys t) \<noteq> vq_avail_idx q"
      "sys' = (th_sys t)\<lparr> dev_seen := dev_seen (th_sys t) + 1,
         dev_taken := dev_taken (th_sys t) @ [vq_avail_ring q ! (unat (dev_seen (th_sys t)) mod unat (vq_num q))] \<rparr>"
    using d t(1) by (auto simp: device_take_def arr_get_def bind_eq_Some_conv split: if_splits)
  have out: "outstanding sys' q = outstanding (th_sys t) q"
    using avail_since_take [OF t(3) sys'(1)] by (simp add: outstanding_def sys'(2))
  have same: "sys_state sys' = th_state t" "sys_hist sys' = th_hist t" by (simp_all add: sys'(2))
  have kp: "keeps t q ?t q {} {}" by (simp add: keeps_def same waits_for_def)
  show ?thesis
  proof (rule threads_at_step [OF at _ _ _ _ _ _ kp, where A = "{}"])
    have "owned ?t q = owned t q"
    proof
      fix a show "owned ?t q a = owned t q a" by (cases a) (simp_all add: out)
    qed
    then show "shares (owned ?t q) (allocated q)" using t(5) by simp
    show "irq_ok ?t q (th_irq ?t)"
      by (simp, rule irq_ok_frame [OF kp t(10) irq_owns(1) [OF at]]) simp_all
    show "k \<in> heads ?t q \<and> context_of q k = context_of q k" if "k \<in> heads t q" for k
      using that by (simp add: heads_def out)
  qed (use t out same in simp_all)
qed

text \<open>An answer moves its head from the device to the used ring, and touches only its second buffer.\<close>

lemma answer_moves:
  assumes at: "threads_at B t q" and d: "device_answer i st v (th_sys t) = Some sys'"
  shows "\<exists>s. i \<in> set (outstanding (th_sys t) q) \<and> sys_state sys' = s\<lparr> gs_vq := Some (used_add q i) \<rparr> \<and>
      sys_hist sys' = th_hist t \<and> gs_ctx s = gs_ctx (th_state t) \<and>
      (\<forall>a. a \<noteq> vaddr_of q (next_of q i) \<longrightarrow> gs_mem s a = gs_mem (th_state t) a) \<and>
      gs_mem s (vaddr_of q (next_of q i)) 0 = st \<and> gs_mem s (vaddr_of q (next_of q i)) 1 = v \<and>
      used_pending (used_add q i) = used_pending q @ [i] \<and>
      set (outstanding sys' (used_add q i)) = set (outstanding (th_sys t) q) \<and> distinct (outstanding sys' (used_add q i))"
proof -
  note t = threads_atD [OF at]
  obtain s where s: "i \<in> set (dev_taken (th_sys t))"
      "store_bytes (th_state t) (th_hist t) (vaddr_of q (next_of q i)) 0 [st, v] = Some s"
      "sys' = (th_sys t)\<lparr> sys_state := s\<lparr> gs_vq := Some (used_add q i) \<rparr>, dev_taken := remove1 i (dev_taken (th_sys t)) \<rparr>"
    using d t(1) by (auto simp: device_answer_def bind_eq_Some_conv split: if_splits)
  have "set (outstanding (th_sys t) q) \<subseteq> allocated q" using head_descs(1) [OF at] by blast
  then have "\<forall>k \<in> set (outstanding (th_sys t) q). k < vq_num q" by (auto simp: allocated_def)
  from distinct_words_length [OF t(4) this] have "length (outstanding (th_sys t) q) \<le> unat (vq_num q)" .
  moreover have "length (used_pending q) < length (outstanding (th_sys t) q)"
    using s(1) by (cases "dev_taken (th_sys t)") (simp_all add: outstanding_def)
  ultimately have up: "used_pending (used_add q i) = used_pending q @ [i]"
    using used_pending_add [OF t(2,3)] by simp
  have "mset (outstanding sys' (used_add q i)) = mset (outstanding (th_sys t) q)"
    using s(1) up by (simp add: outstanding_def s(3) add_mset_remove_trivial_If)
  then have "set (outstanding sys' (used_add q i)) = set (outstanding (th_sys t) q)"
      "distinct (outstanding sys' (used_add q i))"
    using t(4) by (metis set_mset_mset, metis mset_eq_imp_distinct_iff)
  moreover have "gs_ctx s = gs_ctx (th_state t)" "gs_mem s (vaddr_of q (next_of q i)) 0 = st"
      "gs_mem s (vaddr_of q (next_of q i)) 1 = v"
      "\<forall>a. a \<noteq> vaddr_of q (next_of q i) \<longrightarrow> gs_mem s a = gs_mem (th_state t) a"
    using s(2) by (auto simp: store_bytes_def split: if_splits)
  moreover have "i \<in> set (outstanding (th_sys t) q)" using s(1) by (simp add: outstanding_def)
  ultimately show ?thesis using up s(3) by (intro exI [of _ s]) simp
qed

lemma answer_on:
  assumes at: "threads_at B t q" and d: "device_answer i st v (th_sys t) = Some sys'"
  shows "threads_at B (t\<lparr> th_sys := sys', th_answers := (th_answers t)(context_of q i \<mapsto> (st, v)) \<rparr>) (used_add q i)"
    (is "threads_at B ?t ?q")
proof -
  note t = threads_atD [OF at]
  let ?j = "next_of q i" and ?c = "context_of q i"
  obtain s where io: "i \<in> set (outstanding (th_sys t) q)"
      and s: "sys_state sys' = s\<lparr> gs_vq := Some ?q \<rparr>" "sys_hist sys' = th_hist t"
      and s': "gs_ctx s = gs_ctx (th_state t)" "\<forall>a. a \<noteq> vaddr_of q ?j \<longrightarrow> gs_mem s a = gs_mem (th_state t) a"
        "gs_mem s (vaddr_of q ?j) 0 = st" "gs_mem s (vaddr_of q ?j) 1 = v"
      and up: "used_pending ?q = used_pending q @ [i]"
      and out: "set (outstanding sys' ?q) = set (outstanding (th_sys t) q)" "distinct (outstanding sys' ?q)"
    using answer_moves [OF at d] by blast
  note ij = head_descs(1-3) [OF at io] and apart = head_descs(4) [OF at io]
  have buf: "vaddr_of q k \<noteq> vaddr_of q ?j" if "k \<in> allocated q" "k \<noteq> ?j" for k
    using buffers_apart [OF t(6) that(1) ij(2)] that(2) by simp
  have kp: "keeps t q ?t ?q {?j} {?c}" using s' buf by (simp add: keeps_def s waits_for_def)
  have ih: "i \<in> heads t q" using io by (simp add: heads_def)
  obtain r where w: "waits_for t ?c r i" using heads_wait [OF at ih] by blast
  have hds: "heads ?t ?q = heads t q" by (simp add: heads_def out)
  have hi: "head_ok ?t ?q i True"
    using t(9) [OF io] s' buf [OF ij(1,3)]
    by (auto simp: head_ok_def Let_def fresh_ctx_def s holds_request_def waits_for_def)
  show ?thesis
  proof (rule threads_at_step [OF at _ _ _ _ _ _ kp, where A = "{?c}"])
    have "owned ?t ?q = owned t q"
    proof
      fix a show "owned ?t ?q a = owned t q a" by (cases a) (simp_all add: out)
    qed
    then show "shares (owned ?t ?q) (allocated ?q)" using t(5) by simp
    show "buffers B (th_hist ?t) ?q" by (rule buffers_cong [OF t(6)]) (simp_all add: s)
    show "irq_ok ?t ?q (th_irq ?t)"
      by (simp, rule irq_ok_frame [OF kp t(10) irq_owns(1) [OF at]])
        (use apart [of Irq] heads_context [OF at ih] in \<open>auto simp: heads_def\<close>)
    show "k \<in> heads ?t ?q \<and> context_of ?q k = context_of q k" if "k \<in> heads t q" for k
      using that hds by simp
    show "(k \<in> set (outstanding (th_sys t) q) \<and> k \<notin> {?j} \<and> next_of q k \<notin> {?j} \<and> context_of q k \<notin> {?c} \<and>
        (k \<in> set (used_pending ?q) \<longrightarrow> k \<in> set (used_pending q))) \<or> head_ok ?t ?q k (k \<in> set (used_pending ?q))"
      if "k \<in> set (outstanding (th_sys ?t) ?q)" for k
    proof (cases "k = i")
      case False
      have k: "k \<in> set (outstanding (th_sys t) q)" using that out by simp
      then show ?thesis
        using heads_context [OF at ih, of k] head_descs(4) [OF at k, of "Head i"] False io up
        by (auto simp: heads_def)
    qed (use hi up in simp)
    show "th_clients t c = Some pc \<and> c \<notin> {?c} \<and> set (client_descs pc) \<inter> {?j} = {}"
      if "th_clients ?t c = Some pc" "c \<notin> {?c}" for c pc
      using that apart [of "Client c"] by simp
    have "sent_ok ?t ?q ?c i"
      using heads_wait [OF at ih] ih hds by (simp add: sent_ok_def fresh_ctx_def s s'(1))
    then show "c \<noteq> 0 \<and> client_ok ?t ?q c pc" if "c \<in> {?c}" "th_clients ?t c = Some pc" for c pc
      using that w t(8) [of c pc] by (auto simp: waits_for_def)
  qed (use t out s s' in \<open>simp_all add: used_add_inv\<close>)
qed

section \<open>Progress and preservation\<close>

lemma client_step_on:
  assumes "threads_at B t q" and "th_clients t c = Some pc" and "platform_ok env dev" and "request_result pc = None"
  shows "client_steps_on B env dev t c pc"
proof (cases pc)
  case (At_free1 rc i j)
  then show ?thesis using threads_atD(8) [OF assms(1,2)] by simp
qed (use assms client_alloc0 client_alloc1 client_free0 client_store client_context client_put client_notify in auto)

lemma irq_step_on: "threads_at B t q \<Longrightarrow> platform_ok env dev \<Longrightarrow> irq_steps_on B env t"
  by (cases "th_irq t") (auto intro: irq_idle_on irq_fetch_on irq_got_on irq_free0_on irq_free1_on)

lemma thread_step_on:
  assumes "thread_step env dev t t'" and "threads_at B t q" and "platform_ok env dev"
  shows "\<exists>q. threads_at B t' q"
  using assms(1)
proof (elim thread_stepE, goal_cases)
  case (1 c r rc s h)
  then show ?case using enter_on [OF assms(2)] by blast
next
  case (2 c pc pc' s h)
  then have "request_result pc = None" by (cases pc) simp_all
  with 2 client_step_on [OF assms(2) _ assms(3)] show ?case by (fastforce simp: client_steps_on_def)
next
  case (3 c rc rc' s h)
  then show ?case using failed_on [OF assms(2)] by blast
next
  case (4 c i s1 h1 out rc out' s h)
  then show ?case using return_on [OF assms(2)] by blast
next
  case (5 pc' s h)
  then show ?case using irq_step_on [OF assms(2,3)] by (fastforce simp: irq_steps_on_def)
next
  case (6 sys')
  then show ?case using take_on [OF assms(2)] by blast
next
  case (7 q' i st v sys')
  moreover have "q' = q" using 7(2) threads_atD(1) [OF assms(2)] by simp
  ultimately show ?case using answer_on [OF assms(2)] by blast
qed

end
