(* ===== verification/Gpio_Concurrency.thy ===== *)
theory Gpio_Concurrency
  imports Gpio_Interleaving
begin

text \<open>
  What holds under every interleaving of the clients, the interrupt thread and the device: no
  thread is ever without a next step it may take safely, no request is lost, the device sees whole
  requests only, and every client returns what the device answered to it. The coarse steps of
  \<^theory_text>\<open>Gpio_System\<close>, which run a thread without interruption, are runs of the fine ones.
\<close>

section \<open>Every interleaving\<close>

text \<open>At the start: a new queue, no client, no context, no interrupt.\<close>

definition threads_start :: "gpio_threads \<Rightarrow> bool" where
  "threads_start t \<longleftrightarrow>
     gpio_start (th_sys t) \<and> (\<forall>c. gs_ctx (th_state t) c = None) \<and> th_clients t = (\<lambda>c. None) \<and> th_irq t = Irq_idle"

abbreviation threads_run :: "env \<Rightarrow> 'p virtio_gpio_device \<Rightarrow> gpio_threads \<Rightarrow> gpio_threads \<Rightarrow> bool" where
  "threads_run env dev \<equiv> (thread_step env dev)\<^sup>*\<^sup>*"

lemma threads_at_start:
  assumes "threads_start t"
  shows "\<exists>q. threads_at (live (th_hist t)) t q"
proof -
  obtain q where q: "gs_vq (th_state t) = Some q" "virtq_inv q" "unat (vq_num q) dvd 65536" "allocated q = {}"
      "vq_used_idx q = vq_last_seen_used q" "vq_avail_idx q = dev_seen (th_sys t)" "dev_taken (th_sys t) = []"
    using assms by (auto simp: threads_start_def gpio_start_def split: option.splits)
  have out: "outstanding (th_sys t) q = []" using q by (simp add: outstanding_def used_pending_def avail_since_def)
  have "owned t q a = []" for a using assms out by (cases a) (simp_all add: threads_start_def)
  then have "threads_at (live (th_hist t)) t q"
    using q out assms by (simp add: threads_at_def threads_start_def shares_def buffers_def)
  then show ?thesis ..
qed

lemma threads_at_run:
  assumes "threads_start t0" and "platform_ok env dev" and "threads_run env dev t0 t"
  shows "\<exists>q. threads_at (live (th_hist t0)) t q"
  using assms(3)
proof (induction rule: rtranclp_induct)
  case base
  show ?case using threads_at_start [OF assms(1)] .
next
  case (step t1 t2)
  then show ?case using thread_step_on [OF step.hyps(2) _ assms(2)] by blast
qed

text \<open>Without clients and outside the callback nothing is in flight.\<close>

lemma threads_quiescent:
  assumes at: "threads_at B t q" and idle: "\<And>c. th_clients t c = None" "th_irq t = Irq_idle"
  shows "allocated q = {}" "live (th_hist t) = B"
proof -
  have "heads t q = {}" using heads_wait [OF at] idle(1) by (auto simp: waits_for_def)
  then have "outstanding (th_sys t) q = []" by (simp add: heads_def)
  then have "owned t q a = []" for a using idle by (cases a) simp_all
  then show al: "allocated q = {}" using threads_atD(5) [OF at] by (simp add: shares_def)
  show "live (th_hist t) = B" using threads_atD(6) [OF at] al by (simp add: buffers_def)
qed

section \<open>The coarse steps are runs\<close>

lemma put_threads_twice [simp]: "put_threads (put_threads t cl irq s h) cl' irq' s' h' = put_threads t cl' irq' s' h'"
  by (cases t) (simp add: put_threads_def put_state_def)

lemma put_threads_self:
  "th_clients t c = Some pc \<Longrightarrow> put_threads t ((th_clients t)(c \<mapsto> pc)) (th_irq t) (th_state t) (th_hist t) = t"
  "put_threads t (th_clients t) (th_irq t) (th_state t) (th_hist t) = t"
  by (cases t, simp add: put_threads_def put_state_def fun_upd_idem)+

lemma client_steps_run:
  "client_steps env dev c n pc (th_state t) (th_hist t) = Some (pc', s, h) \<Longrightarrow> th_clients t c = Some pc \<Longrightarrow>
   threads_run env dev t (put_threads t ((th_clients t)(c \<mapsto> pc')) (th_irq t) s h)"
proof (induction n arbitrary: t pc)
  case 0
  then have "pc' = pc" "s = th_state t" "h = th_hist t" by simp_all
  then show ?case using put_threads_self(1) [OF 0(2)] by (metis rtranclp.rtrancl_refl)
next
  case (Suc n)
  show ?case
  proof (cases "request_result pc")
    case None
    with Suc.prems obtain pc1 s1 h1 where one: "client_step env dev c pc (th_state t) (th_hist t) = Some (pc1, s1, h1)"
        "client_steps env dev c n pc1 s1 h1 = Some (pc', s, h)"
      by (auto split: bind_splits)
    let ?t = "put_threads t ((th_clients t)(c \<mapsto> pc1)) (th_irq t) s1 h1"
    have "thread_step env dev t ?t" using thread_step.client [OF Suc.prems(2) one(1)] .
    moreover have "threads_run env dev ?t (put_threads t ((th_clients t)(c \<mapsto> pc')) (th_irq t) s h)"
      using Suc.IH [of pc1 ?t] one(2) by (simp del: fun_upd_apply) simp
    ultimately show ?thesis by (rule converse_rtranclp_into_rtranclp)
  next
    case (Some rc)
    then have "pc' = pc" "s = th_state t" "h = th_hist t" using Suc.prems by simp_all
    then show ?thesis using put_threads_self(1) [OF Suc.prems(2)] by (metis rtranclp.rtrancl_refl)
  qed
qed

lemma irq_steps_run:
  "irq_steps env n (th_irq t) (th_state t) (th_hist t) = Some (pc', s, h) \<Longrightarrow>
   threads_run env dev t (put_threads t (th_clients t) pc' s h)"
proof (induction n arbitrary: t)
  case 0
  then show ?case using put_threads_self(2) [of t] by simp
next
  case (Suc n)
  show ?case
  proof (cases "th_irq t = Irq_idle")
    case True
    then show ?thesis using Suc.prems put_threads_self(2) [of t] by simp
  next
    case False
    with Suc.prems obtain pc1 s1 h1 where one: "irq_step env (th_irq t) (th_state t) (th_hist t) = Some (pc1, s1, h1)"
        "irq_steps env n pc1 s1 h1 = Some (pc', s, h)"
      by (auto split: bind_splits)
    let ?t = "put_threads t (th_clients t) pc1 s1 h1"
    have "thread_step env dev t ?t" using thread_step.irq [OF one(1)] .
    moreover have "threads_run env dev ?t (put_threads t (th_clients t) pc' s h)"
      using Suc.IH [of ?t] one(2) by simp
    ultimately show ?thesis by (rule converse_rtranclp_into_rtranclp)
  qed
qed

text \<open>A request that returned with an error came back through \<open>At_return\<close>, one that was sent waits.\<close>

fun pc_error :: "client_pc \<Rightarrow> rc" where
  "pc_error (At_free1 rc i j) = rc"
| "pc_error (At_free0 rc i) = rc"
| "pc_error (At_return rc) = rc"
| "pc_error _ = -1"

lemma client_step_error:
  "client_step env dev c pc s h = Some (pc', s', h') \<Longrightarrow> pc_error pc \<noteq> EOK \<Longrightarrow> pc_error pc' \<noteq> EOK"
  by (cases pc) (auto simp: gpio_free_desc0_def split: bind_splits if_splits)

lemma client_steps_error:
  "client_steps env dev c n pc s h = Some (pc', s', h') \<Longrightarrow> pc_error pc \<noteq> EOK \<Longrightarrow> pc_error pc' \<noteq> EOK"
proof (induction n arbitrary: pc s h)
  case (Suc n)
  then show ?case using client_step_error by (fastforce split: bind_splits if_splits)
qed simp

text \<open>The states between coarse steps: every client waits, and the interrupt thread is idle.\<close>

definition simulates :: "gpio_sys \<Rightarrow> gpio_threads \<Rightarrow> bool" where
  "simulates sys t \<longleftrightarrow>
     th_sys t = sys \<and> th_irq t = Irq_idle \<and>
     (\<forall>c. gs_ctx (sys_state sys) c = None \<longleftrightarrow> th_clients t c = None) \<and>
     (\<forall>c pc. th_clients t c = Some pc \<longrightarrow> (\<exists>r i. pc = At_wait r i))"

lemma simulates_put:
  "th_sys t = sys \<Longrightarrow> simulates (put_state sys s h) (put_threads t cl Irq_idle s h) \<longleftrightarrow>
     (\<forall>c. gs_ctx s c = None \<longleftrightarrow> cl c = None) \<and> (\<forall>c pc. cl c = Some pc \<longrightarrow> (\<exists>r i. pc = At_wait r i))"
  by (simp add: simulates_def put_threads_def put_state_def)

text \<open>A client that runs from its entry to its wait, or to an error, without interruption.\<close>

lemma simulate_request:
  assumes sim: "simulates sys t"
    and t1: "t1 = (put_threads t ((th_clients t)(c \<mapsto> At_alloc0 r)) Irq_idle s0 h0)\<lparr> th_answers := a \<rparr>"
    and req: "virtio_gpio_request env dev (req_type r) (req_gpio r) (req_value r) c s0 h0 = Some (rc1, s1, h1)"
    and res: "if rc1 = EOK then b \<and> s = s1 \<and> h = h1 else \<not> b \<and> (\<exists>rc'. gpio_deinit env rc1 c s1 h1 = (rc', s, h))"
    and ctx: "\<And>c'. c' \<noteq> c \<Longrightarrow> gs_ctx s c' = gs_ctx (sys_state sys) c'" "gs_ctx s c = None \<longleftrightarrow> \<not> b"
  shows "\<exists>t'. threads_run env dev t1 t' \<and> simulates (put_state sys s h) t'"
proof -
  have t: "th_sys t = sys" "\<And>c. gs_ctx (sys_state sys) c = None \<longleftrightarrow> th_clients t c = None"
      "\<And>c pc. th_clients t c = Some pc \<Longrightarrow> \<exists>r i. pc = At_wait r i"
    using sim by (auto simp: simulates_def)
  obtain pc where st: "client_steps env dev c 6 (At_alloc0 r) s0 h0 = Some (pc, s1, h1)" "request_result pc = Some rc1"
    using req unfolding virtio_gpio_request_steps by (auto split: bind_splits)
  let ?t = "put_threads t1 ((th_clients t1)(c \<mapsto> pc)) (th_irq t1) s1 h1"
  have run: "threads_run env dev t1 ?t"
    by (rule client_steps_run [of env dev c 6 "At_alloc0 r"]) (use st(1) in \<open>simp_all add: t1\<close>)
  have err: "pc_error pc \<noteq> EOK" using client_steps_error [OF st(1)] by simp
  show ?thesis
  proof (cases "rc1 = EOK")
    case True
    then obtain r i where "pc = At_wait r i" using st(2) err by (cases pc) auto
    then have "simulates (put_state sys s h) ?t"
      using ctx t res True by (auto simp: t1 simulates_def put_threads_def put_state_def)
    then show ?thesis using run by blast
  next
    case False
    then have pc: "pc = At_return rc1" using st(2) by (cases pc) auto
    obtain rc' where s: "gpio_deinit env rc1 c s1 h1 = (rc', s, h)" "\<not> b" using res False by auto
    let ?t2 = "put_threads ?t ((th_clients ?t)(c := None)) (th_irq ?t) s h"
    have "thread_step env dev ?t ?t2"
      by (rule thread_step.failed [of _ _ rc1]) (use pc s(1) in simp_all)
    with run have "threads_run env dev t1 ?t2" by (rule rtranclp.rtrancl_into_rtrancl)
    moreover have "simulates (put_state sys s h) ?t2"
      using ctx t s(2) by (auto simp: t1 simulates_def put_threads_def put_state_def)
    ultimately show ?thesis by blast
  qed
qed

lemma simulate_call:
  assumes sim: "simulates sys t" and c: "c \<noteq> 0" "gs_ctx (sys_state sys) c = None" "type \<in> client_types"
    and b: "gpio_begin env dev type gpio val c (sys_state sys) (sys_hist sys) = Some (b, rc, s, h)"
    and ctx: "\<And>c'. c' \<noteq> c \<Longrightarrow> gs_ctx s c' = gs_ctx (sys_state sys) c'" "gs_ctx s c = None \<longleftrightarrow> \<not> b"
  shows "\<exists>t'. threads_run env dev t t' \<and> simulates (put_state sys s h) t'"
proof -
  have t: "th_sys t = sys" "th_irq t = Irq_idle" "th_clients t c = None"
      "\<And>c. gs_ctx (sys_state sys) c = None \<longleftrightarrow> th_clients t c = None"
      "\<And>c pc. th_clients t c = Some pc \<Longrightarrow> \<exists>r i. pc = At_wait r i"
    using sim c(2) by (auto simp: simulates_def)
  obtain rc0 s0 h0 where init: "virtio_gpio_context_init env c (gpio_enter env c (th_state t) (th_hist t)) (th_hist t) = Some (rc0, s0, h0)"
    using b by (auto simp: gpio_begin_def t(1) split: bind_splits)
  let ?r = "Request type gpio val"
  have "gs_ctx (th_state t) c = None" "req_type ?r \<in> client_types" using c(2,3) t(1) by simp_all
  note enter = thread_step.enter [OF c(1) t(3) this init, of dev]
  show ?thesis
  proof (cases "rc0 = EOK")
    case False
    then have s: "s = gpio_leave c s0" "h = h0" "\<not> b"
      using b init by (auto simp: gpio_begin_def t(1))
    have "thread_step env dev t (put_threads t (th_clients t) (th_irq t) s h)"
      using enter False s by auto
    moreover have "simulates (put_state sys s h) (put_threads t (th_clients t) (th_irq t) s h)"
      unfolding t(2) simulates_put [OF t(1)] using ctx s(3) t(3-5) by metis
    ultimately show ?thesis by blast
  next
    case True
    obtain rc1 s1 h1 where req: "virtio_gpio_request env dev type gpio val c s0 h0 = Some (rc1, s1, h1)"
      using b init True by (auto simp: gpio_begin_def t(1) split: bind_splits)
    then have req': "virtio_gpio_request env dev (req_type ?r) (req_gpio ?r) (req_value ?r) c s0 h0 = Some (rc1, s1, h1)"
      by simp
    have res: "if rc1 = EOK then b \<and> s = s1 \<and> h = h1 else \<not> b \<and> (\<exists>rc'. gpio_deinit env rc1 c s1 h1 = (rc', s, h))"
      using b init True req by (auto simp: gpio_begin_def t(1))
    let ?t = "(put_threads t ((th_clients t)(c \<mapsto> At_alloc0 ?r)) Irq_idle s0 h0)\<lparr> th_answers := (th_answers t)(c := None) \<rparr>"
    have "thread_step env dev t ?t" using enter True t(2) by simp
    moreover obtain t' where "threads_run env dev ?t t'" "simulates (put_state sys s h) t'"
      using simulate_request [OF sim refl req' res ctx] by blast
    ultimately show ?thesis by (blast intro: converse_rtranclp_into_rtranclp)
  qed
qed

lemma simulate_interrupt:
  assumes sim: "simulates sys t" and inv: "gpio_inv sys" and env: "platform_ok env dev"
    and cb: "virtq_callback env (sys_state sys) (sys_hist sys) = Some (rc, s, h)"
  shows "\<exists>t'. threads_run env dev t t' \<and> simulates (put_state sys s h) t'"
proof -
  have t: "th_sys t = sys" "th_irq t = Irq_idle" using sim by (simp_all add: simulates_def)
  let ?u = "replicate 2 (ucast (env_uninit env (sys_hist sys)))"
  let ?t = "put_threads t (th_clients t) (Irq_fetch ?u) (sys_state sys) (sys_hist sys)"
  have one: "thread_step env dev t ?t" by (rule thread_step.irq) (simp add: t)
  obtain n where "irq_steps env n (Irq_fetch ?u) (sys_state sys) (sys_hist sys) = Some (Irq_idle, s, h)"
    using virtq_callback_steps_iff cb by blast
  then have "threads_run env dev ?t (put_threads ?t (th_clients ?t) Irq_idle s h)"
    by (intro irq_steps_run [of _ n]) simp
  with one have run: "threads_run env dev t (put_threads t (th_clients t) Irq_idle s h)"
    by (simp add: converse_rtranclp_into_rtranclp)
  obtain q where q: "gs_vq (sys_state sys) = Some q" using inv by (auto simp: gpio_inv_def split: option.splits)
  obtain q' where col: "collected (sys_state sys) (sys_hist sys) q (used_pending q) s h q'"
    using virtq_callback_run [OF inv _ _ q, of env] env cb by (auto simp: platform_ok_def)
  have "gs_ctx s c = None \<longleftrightarrow> gs_ctx (sys_state sys) c = None" for c
  proof (cases "c \<in> context_of q ` set (used_pending q)")
    case True
    then obtain i where i: "i \<in> set (used_pending q)" "c = context_of q i" by blast
    then have "\<exists>hdr v. gs_ctx (sys_state sys) c = Some (Context hdr v) \<and> ctx_sem hdr = 0 \<and>
        gs_ctx s c = Some (completed (gs_mem (sys_state sys) (vaddr_of q (next_of q i))) hdr)"
      using col by (simp add: collected_def)
    then show ?thesis by auto
  next
    case False
    then show ?thesis using col by (simp add: collected_def)
  qed
  then have "simulates (put_state sys s h) (put_threads t (th_clients t) Irq_idle s h)"
    unfolding simulates_put [OF t(1)] using sim by (simp add: simulates_def)
  then show ?thesis using run by blast
qed

lemma simulate_step:
  assumes step: "gpio_step env dev sys sys'" and sim: "simulates sys t" and inv: "gpio_inv sys" and env: "platform_ok env dev"
  shows "\<exists>t'. threads_run env dev t t' \<and> simulates sys' t'"
  using step
proof (elim gpio_stepE, goal_cases)
  case (1 c type gpio val b rc s h)
  obtain q where q: "gs_vq (sys_state sys) = Some q" "virtq_inv q"
    using inv by (auto simp: gpio_inv_def split: option.splits)
  have "if b then \<exists>v. gs_ctx s = (gs_ctx (sys_state sys))(c \<mapsto> Context fresh_header v) else gs_ctx s = gs_ctx (sys_state sys)"
    using gpio_begin_run [OF q platform_okD [OF env] 1(2,3) client_typesD [OF 1(4)], of gpio val "sys_hist sys"] 1(5)
    by (auto split: if_splits)
  then show ?case
    unfolding 1(1) using simulate_call [OF sim 1(2-5)] 1(3) by (cases b) auto
next
  case (2 c s1 h1 out rc out' s h)
  have t: "th_sys t = sys" "th_irq t = Irq_idle" using sim by (simp_all add: simulates_def)
  have "gs_ctx (sys_state sys) c \<noteq> None" using 2(2) by (auto simp: sem_wait_others_def bind_eq_Some_conv)
  then have "th_clients t c \<noteq> None" using sim unfolding simulates_def by metis
  then obtain r i where c: "th_clients t c = Some (At_wait r i)" using sim unfolding simulates_def by blast
  have "gs_ctx s c = None" "\<And>c'. c' \<noteq> c \<Longrightarrow> gs_ctx s c' = gs_ctx (sys_state sys) c'"
    using 2(2,3)
    by (auto simp: sem_wait_others_def gpio_end_def gpio_deinit_def virtio_gpio_context_deinit_def gpio_leave_def
        bind_eq_Some_conv split: option.splits gpio_context.splits if_splits)
  then have "simulates sys' (put_threads t ((th_clients t)(c := None)) (th_irq t) s h)"
    unfolding 2(1) t(2) simulates_put [OF t(1)] using sim by (simp add: simulates_def)
  then show ?case using thread_step.return [OF c, of env s1 h1 out rc out' s h dev] 2(2,3) t(1) by blast
next
  case (3 rc s h)
  then show ?case using simulate_interrupt [OF sim inv env] by blast
next
  case 4
  then have "simulates sys' (t\<lparr> th_sys := sys' \<rparr>)"
    using sim by (auto simp: simulates_def device_take_def arr_get_def bind_eq_Some_conv split: if_splits)
  moreover have "thread_step env dev t (t\<lparr> th_sys := sys' \<rparr>)"
    by (rule thread_step.take) (use 4 sim in \<open>simp add: simulates_def\<close>)
  ultimately show ?case by blast
next
  case (5 i st v)
  obtain q where q: "gs_vq (sys_state sys) = Some q" using inv by (auto simp: gpio_inv_def split: option.splits)
  let ?t = "t\<lparr> th_sys := sys', th_answers := (th_answers t)(context_of q i \<mapsto> (st, v)) \<rparr>"
  have "simulates sys' ?t"
    using 5 sim by (auto simp: simulates_def device_answer_def store_bytes_def bind_eq_Some_conv split: if_splits)
  moreover have "thread_step env dev t ?t"
    by (rule thread_step.answer) (use 5 q sim in \<open>simp_all add: simulates_def\<close>)
  ultimately show ?case by blast
qed

lemma simulate_run:
  assumes "gpio_run env dev sys sys'" and "simulates sys t" and "gpio_inv sys" and "platform_ok env dev"
  shows "\<exists>t'. threads_run env dev t t' \<and> simulates sys' t'"
  using assms(1)
proof (induction rule: rtranclp_induct)
  case base
  then show ?case using assms(2) by blast
next
  case (step sys1 sys2)
  then obtain t1 where t1: "threads_run env dev t t1" "simulates sys1 t1" by blast
  have "gpio_inv sys1" using gpio_inv_run [OF step.hyps(1) assms(4,3)] .
  then obtain t2 where "threads_run env dev t1 t2" "simulates sys2 t2"
    using simulate_step [OF step.hyps(2) t1(2) _ assms(4)] by blast
  then show ?case using t1(1) by (meson rtranclp_trans)
qed

section \<open>Every call can return\<close>

text \<open>The number of steps a client still has before its wait.\<close>

fun pc_left :: "client_pc \<Rightarrow> nat" where
  "pc_left (At_alloc0 r) = 6"
| "pc_left (At_alloc1 r i) = 5"
| "pc_left (At_store r i j) = 4"
| "pc_left (At_context r i j) = 3"
| "pc_left (At_put r i j) = 2"
| "pc_left (At_notify r i) = 1"
| "pc_left (At_free1 rc i j) = 2"
| "pc_left (At_free0 rc i) = 1"
| "pc_left _ = 0"

lemma client_step_left:
  "client_step env dev c pc s h = Some (pc', s', h') \<Longrightarrow> pc_left pc' < pc_left pc"
  by (cases pc) (auto split: bind_splits if_splits)

lemma reach_final:
  assumes "threads_at B t q" and "th_clients t c = Some pc" and "platform_ok env dev"
  shows "\<exists>t' q' pc'. threads_run env dev t t' \<and> threads_at B t' q' \<and> th_clients t' c = Some pc' \<and> request_result pc' \<noteq> None"
  using assms(1,2)
proof (induction "pc_left pc" arbitrary: t q pc rule: less_induct)
  case less
  show ?case
  proof (cases "request_result pc")
    case None
    obtain pc1 s h q1 where st: "client_step env dev c pc (th_state t) (th_hist t) = Some (pc1, s, h)"
        "threads_at B (put_threads t ((th_clients t)(c \<mapsto> pc1)) (th_irq t) s h) q1"
      using client_step_on [OF less.prems assms(3) None] by (auto simp: client_steps_on_def)
    let ?t = "put_threads t ((th_clients t)(c \<mapsto> pc1)) (th_irq t) s h"
    have "thread_step env dev t ?t" using thread_step.client [OF less.prems(2) st(1)] .
    then show ?thesis
      using less.hyps [OF client_step_left [OF st(1)] st(2)] by (auto intro: converse_rtranclp_into_rtranclp)
  next
    case (Some rc)
    then show ?thesis using less.prems by blast
  qed
qed

text \<open>One step of the device and of the interrupt thread towards the answer of head \<open>i\<close>.\<close>

lemma take_step:
  assumes at: "threads_at B t q" and i: "avail_since q (dev_seen (th_sys t)) = k # ks"
  shows "\<exists>t'. thread_step env dev t t' \<and> threads_at B t' q \<and> th_clients t' = th_clients t \<and>
      avail_since q (dev_seen (th_sys t')) = ks \<and> k \<in> set (dev_taken (th_sys t')) \<and> th_state t' = th_state t"
proof -
  note t = threads_atD [OF at]
  have ne: "dev_seen (th_sys t) \<noteq> vq_avail_idx q" using i by (auto simp: avail_since_def)
  have rng: "unat (dev_seen (th_sys t)) mod unat (vq_num q) < length (vq_avail_ring q)"
    using t(2) by (simp add: virtq_inv_def unat_gt_0)
  note av = avail_since_take [OF t(3) ne]
  let ?sys = "(th_sys t)\<lparr> dev_seen := dev_seen (th_sys t) + 1, dev_taken := dev_taken (th_sys t) @ [k] \<rparr>"
  have d: "device_take (th_sys t) = Some ?sys"
    using t(1) ne rng av i by (simp add: device_take_def arr_get_def)
  have "avail_since q (dev_seen (th_sys t) + 1) = ks" using av i by simp
  then show ?thesis
    using thread_step.take [OF d] take_on [OF at d] by (intro exI [of _ "t\<lparr> th_sys := ?sys \<rparr>"]) simp
qed

lemma answer_step:
  assumes at: "threads_at B t q" and i: "i \<in> set (dev_taken (th_sys t))"
  shows "\<exists>t' q'. thread_step env dev t t' \<and> threads_at B t' q' \<and> th_clients t' = th_clients t \<and>
      th_answers t' (context_of q i) = Some (st, v) \<and> i \<in> heads t' q' \<and> i \<in> set (used_pending q')"
proof -
  note t = threads_atD [OF at]
  have io: "i \<in> set (outstanding (th_sys t) q)" using i by (simp add: outstanding_def)
  have "dlen_of q (next_of q i) = 2" using t(9) [OF io] by (simp add: head_ok_def Let_def)
  then have "mapped (th_hist t) (vaddr_of q (next_of q i)) 2"
    using mapped_in [OF buffers_live [OF t(6) head_descs(2) [OF at io]]] by simp
  then obtain s where "store_bytes (th_state t) (th_hist t) (vaddr_of q (next_of q i)) 0 [st, v] = Some s"
    by (simp add: store_bytes_def numeral_2_eq_2)
  then obtain sys' where d: "device_answer i st v (th_sys t) = Some sys'"
    using t(1) i by (auto simp: device_answer_def)
  let ?t = "t\<lparr> th_sys := sys', th_answers := (th_answers t)(context_of q i \<mapsto> (st, v)) \<rparr>"
  note at' = answer_on [OF at d]
  have st: "thread_step env dev t ?t" using thread_step.answer [OF t(1) d] .
  have len: "length (used_pending q) < unat (vq_num q)"
  proof -
    have "set (outstanding (th_sys t) q) \<subseteq> allocated q" using head_descs(1) [OF at] by blast
    then have "\<forall>k \<in> set (outstanding (th_sys t) q). k < vq_num q" by (auto simp: allocated_def)
    from distinct_words_length [OF t(4) this] show ?thesis
      using i by (cases "dev_taken (th_sys t)") (simp_all add: outstanding_def)
  qed
  then have "i \<in> set (used_pending (used_add q i))" using used_pending_add [OF t(2,3)] by simp
  moreover from this have "i \<in> heads ?t (used_add q i)" by (simp add: heads_def outstanding_def)
  ultimately show ?thesis using st at' by (intro exI [of _ ?t] exI [of _ "used_add q i"]) simp
qed

text \<open>How far the interrupt thread is from the completion of head \<open>i\<close>.\<close>

fun irq_stage :: "irq_pc \<Rightarrow> nat" where
  "irq_stage (Irq_got idxs) = 3"
| "irq_stage (Irq_free0 idxs) = 2"
| "irq_stage (Irq_free1 idxs) = 1"
| "irq_stage (Irq_fetch idxs) = 0"
| "irq_stage Irq_idle = 1"

definition irq_left :: "gpio_threads \<Rightarrow> virtq \<Rightarrow> u16 \<Rightarrow> nat" where
  "irq_left t q i = 4 * length (takeWhile (\<lambda>k. k \<noteq> i) (used_pending q)) + irq_stage (th_irq t)"

lemma virtq_free_desc_rings:
  "virtq_free_desc env q i h = Some (rc, q', h') \<Longrightarrow> used_pending q' = used_pending q"
  by (auto simp: virtq_free_desc_def used_pending_def Let_def split: bind_splits if_splits prod.splits)

lemma virtio_gpio_callback_vq: "virtio_gpio_callback rq rs c s h = Some (s', h') \<Longrightarrow> gs_vq s' = gs_vq s"
  by (auto simp: virtio_gpio_callback_def Let_def split: bind_splits if_splits gpio_context.splits)

lemma irq_step_closer:
  assumes at: "threads_at B t q" and env: "platform_ok env dev" and i: "i \<in> set (used_pending q)"
  shows "\<exists>t' q'. thread_step env dev t t' \<and> threads_at B t' q' \<and> th_clients t' = th_clients t \<and> th_answers t' = th_answers t \<and>
      (th_irq t' = Irq_got [i, next_of q' i] \<or> i \<in> set (used_pending q') \<and> irq_left t' q' i < irq_left t q i)"
proof -
  obtain pc' s h q' where st: "irq_step env (th_irq t) (th_state t) (th_hist t) = Some (pc', s, h)"
      "threads_at B (put_threads t (th_clients t) pc' s h) q'"
    using irq_step_on [OF at env] by (auto simp: irq_steps_on_def)
  let ?t = "put_threads t (th_clients t) pc' s h"
  note t = threads_atD [OF at]
  have q': "gs_vq s = Some q'" using threads_atD(1) [OF st(2)] by simp
  have "pc' = Irq_got [i, next_of q' i] \<or> i \<in> set (used_pending q') \<and> irq_left ?t q' i < irq_left t q i"
  proof (cases "th_irq t")
    case (Irq_fetch idxs)
    then have len: "length idxs = 2" using t(10) by simp
    obtain k ks where up: "used_pending q = k # ks" using i by (cases "used_pending q") auto
    then have ko: "k \<in> set (outstanding (th_sys t) q)" by (simp add: outstanding_def)
    have lock: "env_spin_lock env (th_hist t) (VirtqLock (vq_self q)) = EOK" using platform_okD(1) [OF env] by simp
    have "chain (vq_desc q) [k, next_of q k]" using t(9) [OF ko] by (simp add: head_ok_def Let_def)
    from virtq_get_oldest_run [OF t(2) lock up this, of 2 idxs]
    have "pc' = Irq_got [k, next_of q k] \<and> q' = q\<lparr> vq_last_seen_used := vq_last_seen_used q + 1 \<rparr>"
      using st(1) Irq_fetch t(1) len q' by (auto simp: virtq_callback_get_def simp del: chain.simps)
    moreover from this have "used_pending q' = ks" using used_pending_consume [OF t(3) up] by simp
    ultimately show ?thesis using i up Irq_fetch by (auto simp: irq_left_def)
  qed (use st(1) q' t(1) i in
      \<open>auto simp: irq_left_def split: bind_splits gpio_callback.splits option.splits
        dest!: virtq_free_desc_rings virtio_gpio_callback_vq\<close>)
  moreover have "thread_step env dev t ?t" using thread_step.irq [OF st(1)] .
  ultimately show ?thesis using st(2) by (intro exI [of _ ?t] exI [of _ q']) simp
qed

lemma waits_posted:
  assumes "threads_at B t q" and "th_clients t c = Some (At_wait r i)" and "i \<notin> heads t q"
  shows "posted t c"
  using threads_atD(8) [OF assms(1,2)] assms(3) by (simp add: sent_ok_def)

lemma reach_posted_got:
  assumes at: "threads_at B t q" and env: "platform_ok env dev" and c: "th_clients t c = Some (At_wait r i)"
    and irq: "th_irq t = Irq_got [i, j]"
  shows "\<exists>t' q'. thread_step env dev t t' \<and> threads_at B t' q' \<and> th_clients t' = th_clients t \<and> posted t' c"
proof -
  obtain pc' s h q' where st: "irq_step env (th_irq t) (th_state t) (th_hist t) = Some (pc', s, h)"
      "threads_at B (put_threads t (th_clients t) pc' s h) q'"
    using irq_step_on [OF at env] by (auto simp: irq_steps_on_def)
  let ?t = "put_threads t (th_clients t) pc' s h"
  have pc': "pc' = Irq_free0 [i, j]" using st(1) irq by (auto split: bind_splits option.splits gpio_callback.splits)
  have "i \<notin> set (outstanding (th_sys ?t) q')"
    using head_descs(4) [OF st(2), of i Irq] pc' by auto
  then have "i \<notin> heads ?t q'" by (simp add: heads_def pc')
  then have "posted ?t c" using waits_posted [OF st(2)] c by simp
  moreover have "thread_step env dev t ?t" using thread_step.irq [OF st(1)] .
  ultimately show ?thesis using st(2) by (intro exI [of _ ?t] exI [of _ q']) simp
qed

definition can_post :: "(ptr \<times> size_t) multiset \<Rightarrow> env \<Rightarrow> 'p virtio_gpio_device \<Rightarrow> gpio_threads \<Rightarrow> ptr \<Rightarrow> client_pc \<Rightarrow> bool" where
  "can_post B env dev t c pc \<longleftrightarrow>
     (\<exists>t' q'. threads_run env dev t t' \<and> threads_at B t' q' \<and> th_clients t' c = Some pc \<and> posted t' c)"

lemma can_post_step: "thread_step env dev t t' \<Longrightarrow> can_post B env dev t' c pc \<Longrightarrow> can_post B env dev t c pc"
  unfolding can_post_def by (blast intro: converse_rtranclp_into_rtranclp)

lemma can_post_used:
  assumes "threads_at B t q" and "platform_ok env dev" and "th_clients t c = Some (At_wait r i)" and "i \<in> set (used_pending q)"
  shows "can_post B env dev t c (At_wait r i)"
  using assms(1,3,4)
proof (induction "irq_left t q i" arbitrary: t q rule: less_induct)
  case less
  obtain t' q' where st: "thread_step env dev t t'" "threads_at B t' q'" "th_clients t' = th_clients t"
      "th_irq t' = Irq_got [i, next_of q' i] \<or> i \<in> set (used_pending q') \<and> irq_left t' q' i < irq_left t q i"
    using irq_step_closer [OF less.prems(1) assms(2) less.prems(3)] by blast
  have c: "th_clients t' c = Some (At_wait r i)" using st(3) less.prems(2) by simp
  have "can_post B env dev t' c (At_wait r i)"
  proof (cases "th_irq t' = Irq_got [i, next_of q' i]")
    case True
    from reach_posted_got [OF st(2) assms(2) c True] c show ?thesis
      unfolding can_post_def by (metis r_into_rtranclp)
  next
    case False
    then show ?thesis using less.hyps [OF _ st(2) c] st(4) by blast
  qed
  then show ?case by (rule can_post_step [OF st(1)])
qed

lemma can_post_taken:
  assumes "threads_at B t q" and "platform_ok env dev" and "th_clients t c = Some (At_wait r i)" and "i \<in> set (dev_taken (th_sys t))"
  shows "can_post B env dev t c (At_wait r i)"
proof -
  obtain t' q' where st: "thread_step env dev t t'" "threads_at B t' q'" "th_clients t' = th_clients t" "i \<in> set (used_pending q')"
    using answer_step [OF assms(1,4)] by blast
  have "can_post B env dev t' c (At_wait r i)" by (rule can_post_used [OF st(2) assms(2) _ st(4)]) (simp add: st(3) assms(3))
  then show ?thesis by (rule can_post_step [OF st(1)])
qed

lemma can_post_avail:
  assumes "threads_at B t q" and "platform_ok env dev" and "th_clients t c = Some (At_wait r i)"
    and "i \<in> set (avail_since q (dev_seen (th_sys t)))"
  shows "can_post B env dev t c (At_wait r i)"
  using assms(1,3,4)
proof (induction "avail_since q (dev_seen (th_sys t))" arbitrary: t)
  case (Cons k ks)
  obtain t' where st: "thread_step env dev t t'" "threads_at B t' q" "th_clients t' = th_clients t"
      "avail_since q (dev_seen (th_sys t')) = ks" "k \<in> set (dev_taken (th_sys t'))"
    using take_step [OF Cons.prems(1) Cons.hyps(2) [symmetric]] by blast
  have c: "th_clients t' c = Some (At_wait r i)" using st(3) Cons.prems(2) by simp
  have "can_post B env dev t' c (At_wait r i)"
  proof (cases "i = k")
    case True
    then show ?thesis using can_post_taken [OF st(2) assms(2) c] st(5) by simp
  next
    case False
    then have "i \<in> set (avail_since q (dev_seen (th_sys t')))" using Cons.prems(3) Cons.hyps(2) st(4) by (metis set_ConsD)
    then show ?thesis using Cons.hyps(1) [OF st(4) [symmetric] st(2) c] by blast
  qed
  then show ?case by (rule can_post_step [OF st(1)])
next
  case Nil
  then show ?case by (simp add: Nil.hyps [symmetric])
qed

lemma can_post_wait:
  assumes "threads_at B t q" and "platform_ok env dev" and "th_clients t c = Some (At_wait r i)"
  shows "can_post B env dev t c (At_wait r i)"
proof (cases "i \<in> heads t q")
  case False
  then show ?thesis using waits_posted [OF assms(1,3)] assms(1,3) unfolding can_post_def by blast
next
  case True
  then consider (used) "i \<in> set (used_pending q)" | (taken) "i \<in> set (dev_taken (th_sys t))"
    | (avail) "i \<in> set (avail_since q (dev_seen (th_sys t)))" | (got) j where "th_irq t = Irq_got [i, j]"
    using threads_atD(10) [OF assms(1)] by (auto simp: heads_def outstanding_def split: irq_pc.splits)
  then show ?thesis
  proof cases
    case (got j)
    from reach_posted_got [OF assms(1-3) this] assms(3) show ?thesis
      unfolding can_post_def by (metis r_into_rtranclp)
  next
    case used
    then show ?thesis by (rule can_post_used [OF assms])
  next
    case taken
    then show ?thesis by (rule can_post_taken [OF assms])
  next
    case avail
    then show ?thesis by (rule can_post_avail [OF assms])
  qed
qed

lemma reach_return:
  assumes at: "threads_at B t q" and env: "platform_ok env dev" and c: "th_clients t c = Some pc"
    and w: "\<And>h. env_sem_wait env h c = 0"
  shows "\<exists>t'. threads_run env dev t t' \<and> th_clients t' c = None"
proof -
  obtain t1 q1 pc1 where r1: "threads_run env dev t t1" "threads_at B t1 q1" "th_clients t1 c = Some pc1" "request_result pc1 \<noteq> None"
    using reach_final [OF at c env] by blast
  from r1(4) consider (wait) r i where "pc1 = At_wait r i" | (failed) rc where "pc1 = At_return rc"
    by (cases pc1) auto
  then have "\<exists>t'. threads_run env dev t1 t' \<and> th_clients t' c = None"
  proof cases
    case (wait r i)
    with can_post_wait [OF r1(2) env, of c r i] r1(3)
    obtain t2 q2 where r2: "threads_run env dev t1 t2" "threads_at B t2 q2" "th_clients t2 c = Some (At_wait r i)" "posted t2 c"
      unfolding can_post_def by blast
    from r2(4) obtain hdr v where x: "gs_ctx (th_state t2) c = Some (Context hdr v)" "ctx_sem hdr = 1"
      by (auto simp: posted_def)
    then obtain s1 h1 where sw: "sem_wait_others env (\<lambda>s h. Some (s, h)) c (th_state t2) (th_hist t2) = Some (0, s1, h1)"
        "gs_ctx s1 c = Some (Context (hdr\<lparr> ctx_sem := 0 \<rparr>) v)"
      using w by (simp add: sem_wait_others_def)
    then obtain rc s h where fin: "gpio_end env 0 c None s1 h1 = Some (rc, None, s, h)"
      by (auto simp: gpio_end_def gpio_deinit_def virtio_gpio_context_deinit_def Let_def)
    let ?t = "put_threads t2 ((th_clients t2)(c := None)) (th_irq t2) s h"
    have "thread_step env dev t2 ?t" using thread_step.return [OF r2(3) sw(1) fin] .
    then have "threads_run env dev t1 ?t" using r2(1) by simp
    then show ?thesis by (intro exI [of _ ?t]) simp
  next
    case (failed rc)
    obtain rc' s h where "gpio_deinit env rc c (th_state t1) (th_hist t1) = (rc', s, h)" by (metis prod_cases3)
    then have "thread_step env dev t1 (put_threads t1 ((th_clients t1)(c := None)) (th_irq t1) s h)"
      using thread_step.failed r1(3) failed by blast
    then show ?thesis
      by (intro exI [of _ "put_threads t1 ((th_clients t1)(c := None)) (th_irq t1) s h"]) (simp add: r_into_rtranclp)
  qed
  then show ?thesis using r1(1) by (meson rtranclp_trans)
qed

section \<open>A run to instantiate the properties\<close>

definition threads_of :: "gpio_sys \<Rightarrow> gpio_threads" where
  "threads_of sys = \<lparr> th_sys = sys, th_clients = (\<lambda>c. None), th_irq = Irq_idle, th_answers = (\<lambda>c. None) \<rparr>"

lemma threads_of_start: "gpio_start sys \<Longrightarrow> (\<And>c. gs_ctx (sys_state sys) c = None) \<Longrightarrow> threads_start (threads_of sys)"
  by (simp add: threads_start_def threads_of_def)

lemma threads_of_simulates: "(\<And>c. gs_ctx (sys_state sys) c = None) \<Longrightarrow> simulates sys (threads_of sys)"
  by (simp add: simulates_def threads_of_def)

lemma threads_example_start: "threads_start (threads_of gpio_example)"
  by (rule threads_of_start [OF gpio_example_start]) (simp add: gpio_example_def)

text \<open>A client at address \<open>0x7000\<close> has sent its request and waits.\<close>

lemma threads_example_sent:
  "\<exists>t q r i. threads_run env_fresh gpio_example_dev (threads_of gpio_example) t \<and>
     th_clients t 0x7000 = Some (At_wait r i) \<and> gs_vq (th_state t) = Some q \<and>
     i \<in> set (avail_since q (dev_seen (th_sys t)))"
proof -
  let ?c = "0x7000 :: ptr"
  note e = platform_okD [OF platform_ok_example]
  have c: "?c \<noteq> 0" "VIRTIO_GPIO_MSG_GET_VALUE \<in> client_types" by (simp_all add: client_types_def)
  have vq: "gs_vq (sys_state gpio_example) = Some gpio_example_queue" by (simp add: gpio_example_def)
  obtain rc s h where b: "gpio_begin env_fresh gpio_example_dev VIRTIO_GPIO_MSG_GET_VALUE 3 0 ?c
      (sys_state gpio_example) (sys_hist gpio_example) = Some (True, rc, s, h)"
    using sends_example by (auto simp: sends_def split: option.splits)
  obtain q v i j where q: "gs_vq s = Some q" "gs_ctx s = (gs_ctx (sys_state gpio_example))(?c \<mapsto> Context fresh_header v)"
      "request_sent gpio_example_queue (gs_mem (sys_state gpio_example)) (sys_hist gpio_example) q (gs_mem s) h i j ?c
        (request_bytes VIRTIO_GPIO_MSG_GET_VALUE 3 0)"
    using gpio_begin_run [OF vq virtq_inv_gpio_example e c(1) gpio_example_sel(2) client_typesD [OF c(2)],
        of 3 0 "sys_hist gpio_example"] b by auto
  let ?sys = "put_state gpio_example s h"
  have "gpio_run env_fresh gpio_example_dev gpio_example ?sys"
    using gpio_step.call [OF c(1) gpio_example_sel(2) c(2) b] by blast
  then obtain t where t: "threads_run env_fresh gpio_example_dev (threads_of gpio_example) t" "simulates ?sys t"
    using simulate_run [OF _ threads_of_simulates gpio_start_inv [OF gpio_example_start] platform_ok_example]
      gpio_example_sel(2) by blast
  then have st: "th_state t = s" "th_irq t = Irq_idle" "dev_taken (th_sys t) = []"
    by (simp_all add: simulates_def put_state_def gpio_example_def)
  have "gs_ctx (sys_state ?sys) ?c \<noteq> None" using q(2) by (simp add: put_state_def)
  then have "th_clients t ?c \<noteq> None" using t(2) unfolding simulates_def by metis
  then obtain r k where k: "th_clients t ?c = Some (At_wait r k)" using t(2) unfolding simulates_def by blast
  obtain q1 where at: "threads_at (live (th_hist (threads_of gpio_example))) t q1"
    using threads_at_run [OF threads_example_start platform_ok_example t(1)] by blast
  then have q1: "q1 = q" using q(1) st(1) by (simp add: threads_at_def)
  have "\<not> posted t ?c" using q(2) st(1) by (simp add: posted_def fresh_header_def)
  then have "k \<in> heads t q" using threads_atD(8) [OF at k] q1 by (simp add: sent_ok_def)
  moreover have "used_pending q = []"
    using request_sent_rings(1) [OF q(3)] by (simp add: used_pending_def gpio_example_queue_def virtq_example_def)
  ultimately have "k \<in> set (avail_since q (dev_seen (th_sys t)))" using st(2,3) by (simp add: heads_def outstanding_def)
  then show ?thesis using t(1) k q(1) st(1) by blast
qed

text \<open>Later, the client has been posted.\<close>

lemma threads_example_posted:
  "\<exists>t r i. threads_run env_fresh gpio_example_dev (threads_of gpio_example) t \<and>
     th_clients t 0x7000 = Some (At_wait r i) \<and>
     (\<exists>s h. sem_wait_others env_fresh (\<lambda>s h. Some (s, h)) 0x7000 (th_state t) (th_hist t) = Some (0, s, h))"
proof -
  obtain t r i where t: "threads_run env_fresh gpio_example_dev (threads_of gpio_example) t" "th_clients t 0x7000 = Some (At_wait r i)"
    using threads_example_sent by blast
  obtain q where at: "threads_at (live (th_hist (threads_of gpio_example))) t q"
    using threads_at_run [OF threads_example_start platform_ok_example t(1)] by blast
  from can_post_wait [OF at platform_ok_example t(2)] obtain t' where t': "threads_run env_fresh gpio_example_dev t t'"
      "th_clients t' 0x7000 = Some (At_wait r i)" "posted t' 0x7000"
    unfolding can_post_def by blast
  have "\<exists>s h. sem_wait_others env_fresh (\<lambda>s h. Some (s, h)) 0x7000 (th_state t') (th_hist t') = Some (0, s, h)"
    using t'(3) gpio_example_sel(4) by (auto simp: posted_def sem_wait_others_def)
  moreover have "threads_run env_fresh gpio_example_dev (threads_of gpio_example) t'" using t(1) t'(1) by (rule rtranclp_trans)
  ultimately show ?thesis using t'(2) by blast
qed

section \<open>Every interleaving: the properties\<close>

text \<open>
  C3: exclusive ownership and no leak, for every interleaving of the calls of any number of
  clients, the interrupt thread and the device. In every reachable state each descriptor in use
  belongs to exactly one of them: to a client that builds or undoes its request, to a request in
  flight, or to the interrupt thread; and the live mappings are those of the start and one
  buffer for each descriptor in use, at addresses of their own. When the clients are gone and the
  interrupt thread is idle, no descriptor is in use, no mapping is left and no context.
\<close>

theorem threads_exclusive:
  assumes "threads_start t0" and "platform_ok env dev" and "threads_run env dev t0 t"
  shows "\<exists>q. gs_vq (th_state t) = Some q \<and> virtq_inv q \<and> shares (owned t q) (allocated q) \<and>
           buffers (live (th_hist t0)) (th_hist t) q \<and>
           ((\<forall>c. th_clients t c = None) \<and> th_irq t = Irq_idle \<longrightarrow>
              allocated q = {} \<and> live (th_hist t) = live (th_hist t0) \<and> (\<forall>c. gs_ctx (th_state t) c = None))"
proof -
  obtain q where at: "threads_at (live (th_hist t0)) t q" using threads_at_run [OF assms] by blast
  show ?thesis
    using threads_atD(1,2,5,6) [OF at] threads_atD(7) [OF at] threads_quiescent [OF at] by blast
qed

text \<open>
  C4: no thread is ever stuck or lost, in any interleaving. In every reachable state the interrupt
  thread has its next step and every client inside \<open>virtio_gpio_request\<close> has its own: no call
  reads or writes out of bounds, through a pointer that is gone or to a descriptor of another
  thread. A request that failed reports an error. A client that waits has been posted with
  its answer, or its request is still with the device or the interrupt thread and names its context.
\<close>

theorem threads_progress:
  assumes "threads_start t0" and "platform_ok env dev" and "threads_run env dev t0 t"
  shows "irq_step env (th_irq t) (th_state t) (th_hist t) \<noteq> None \<and>
    (\<forall>c pc. th_clients t c = Some pc \<longrightarrow>
       (case pc of
          At_wait r i \<Rightarrow> posted t c \<or> (\<exists>q. gs_vq (th_state t) = Some q \<and> i \<in> heads t q \<and> context_of q i = c \<and> fresh_ctx t c)
        | At_return rc \<Rightarrow> rc \<noteq> EOK
        | _ \<Rightarrow> client_step env dev c pc (th_state t) (th_hist t) \<noteq> None))"
proof -
  obtain q where at: "threads_at (live (th_hist t0)) t q" using threads_at_run [OF assms] by blast
  have irq: "irq_step env (th_irq t) (th_state t) (th_hist t) \<noteq> None"
    using irq_step_on [OF at assms(2)] by (auto simp: irq_steps_on_def)
  have cl: "client_step env dev c pc (th_state t) (th_hist t) \<noteq> None"
    if "th_clients t c = Some pc" "request_result pc = None" for c pc
    using client_step_on [OF at that(1) assms(2) that(2)] by (auto simp: client_steps_on_def)
  have "case pc of
          At_wait r i \<Rightarrow> posted t c \<or> (\<exists>q. gs_vq (th_state t) = Some q \<and> i \<in> heads t q \<and> context_of q i = c \<and> fresh_ctx t c)
        | At_return rc \<Rightarrow> rc \<noteq> EOK
        | _ \<Rightarrow> client_step env dev c pc (th_state t) (th_hist t) \<noteq> None" if c: "th_clients t c = Some pc" for c pc
    using cl [OF c] threads_atD(1) [OF at] threads_atD(8) [OF at c]
    by (cases pc) (auto simp: sent_ok_def simp del: client_step.simps)
  then show ?thesis using irq by blast
qed

text \<open>
  C7: the device never sees a request half written. In every reachable state each head it may
  take or has taken is a chain of a mapped 8-byte and a mapped 2-byte buffer, some client waits
  for exactly this head, and the first buffer holds that client's type, line and value.
\<close>

theorem threads_device_view:
  assumes "threads_start t0" and "platform_ok env dev" and "threads_run env dev t0 t"
    and "gs_vq (th_state t) = Some q" and "i \<in> set (dev_taken (th_sys t) @ avail_since q (dev_seen (th_sys t)))"
  shows "\<exists>c r. waits_for t c r i \<and> context_of q i = c \<and> holds_request t q i r \<and>
           chain (vq_desc q) [i, next_of q i] \<and>
           mapped (th_hist t) (vaddr_of q i) 8 \<and> mapped (th_hist t) (vaddr_of q (next_of q i)) 2"
proof -
  obtain q' where "threads_at (live (th_hist t0)) t q'" using threads_at_run [OF assms(1-3)] by blast
  then have at: "threads_at (live (th_hist t0)) t q" using assms(4) by (auto simp: threads_at_def)
  have io: "i \<in> set (outstanding (th_sys t) q)" using assms(5) by (auto simp: outstanding_def)
  note ij = head_descs(1,2) [OF at io] and ok = threads_atD(9) [OF at io]
  have len: "dlen_of q i = 8" "dlen_of q (next_of q i) = 2" using ok by (simp_all add: head_ok_def Let_def)
  have "mapped (th_hist t) (vaddr_of q i) 8" "mapped (th_hist t) (vaddr_of q (next_of q i)) 2"
    using mapped_in [OF buffers_live [OF threads_atD(6) [OF at] ij(1)]]
      mapped_in [OF buffers_live [OF threads_atD(6) [OF at] ij(2)]] len by simp_all
  then show ?thesis using ok by (auto simp: head_ok_def Let_def simp del: chain.simps)
qed

text \<open>
  C2: every client returns the device's answer to its own request, in every interleaving. When the
  wait of client \<open>c\<close> returns 0, the device has answered the request of this call, with some status
  and value; the call then returns, \<open>EOK\<close> for status 0 and \<open>EIO\<close> for any other, a reading call
  stores exactly that value, and its context is gone.
\<close>

theorem threads_answer:
  assumes "threads_start t0" and "platform_ok env dev" and "threads_run env dev t0 t"
    and "th_clients t c = Some (At_wait r i)"
    and "sem_wait_others env (\<lambda>s h. Some (s, h)) c (th_state t) (th_hist t) = Some (0, s1, h1)"
  shows "\<exists>st v s h. th_answers t c = Some (st, v) \<and> gs_ctx s c = None \<and>
           gpio_end env 0 c (Some (Some x)) s1 h1 = Some (answer_of st, Some (Some v), s, h) \<and>
           gpio_end env 0 c None s1 h1 = Some (answer_of st, None, s, h)"
proof -
  obtain q where at: "threads_at (live (th_hist t0)) t q" using threads_at_run [OF assms(1-3)] by blast
  from wait_posted [OF at assms(4,5)] show ?thesis
    by (auto simp: gpio_end_def gpio_deinit_def virtio_gpio_context_deinit_def answer_of_def Let_def gpio_leave_def)
qed


text \<open>
  C12: every call can complete. From every reachable state, and wherever client \<open>c\<close> is in its call,
  there is a continuation in which the call returns: no order in which the threads came
  this far is a deadlock, even if the device has answered nothing yet.
\<close>

theorem threads_can_return:
  assumes "threads_start t0" and "platform_ok env dev" and "threads_run env dev t0 t"
    and "\<And>h. env_sem_wait env h c = 0"
  shows "\<exists>t'. threads_run env dev t t' \<and> th_clients t' c = None"
proof -
  obtain q where at: "threads_at (live (th_hist t0)) t q" using threads_at_run [OF assms(1-3)] by blast
  show ?thesis
  proof (cases "th_clients t c")
    case (Some pc)
    then show ?thesis using reach_return [OF at assms(2) Some assms(4)] by blast
  qed blast
qed


section \<open>Witnesses\<close>

theorem threads_exclusive_witness:
  "\<exists>t q. th_clients t 0x7000 \<noteq> None \<and> gs_vq (th_state t) = Some q \<and> shares (owned t q) (allocated q)"
proof -
  obtain t r i where t: "threads_run env_fresh gpio_example_dev (threads_of gpio_example) t" "th_clients t 0x7000 = Some (At_wait r i)"
    using threads_example_sent by blast
  from threads_exclusive [OF threads_example_start platform_ok_example t(1)] t(2) show ?thesis by auto
qed

theorem threads_progress_witness:
  "\<exists>t r i. th_clients t 0x7000 = Some (At_wait r i) \<and>
     irq_step env_fresh (th_irq t) (th_state t) (th_hist t) \<noteq> None"
proof -
  obtain t r i where t: "threads_run env_fresh gpio_example_dev (threads_of gpio_example) t" "th_clients t 0x7000 = Some (At_wait r i)"
    using threads_example_sent by blast
  from threads_progress [OF threads_example_start platform_ok_example t(1)] t(2) show ?thesis by blast
qed

theorem threads_device_view_witness:
  "\<exists>t q c r i. waits_for t c r i \<and> context_of q i = c \<and> holds_request t q i r"
proof -
  obtain t q r i where t: "threads_run env_fresh gpio_example_dev (threads_of gpio_example) t"
      "th_clients t 0x7000 = Some (At_wait r i)" "gs_vq (th_state t) = Some q" "i \<in> set (avail_since q (dev_seen (th_sys t)))"
    using threads_example_sent by blast
  have "i \<in> set (dev_taken (th_sys t) @ avail_since q (dev_seen (th_sys t)))" using t(4) by simp
  from threads_device_view [OF threads_example_start platform_ok_example t(1,3) this]
  show ?thesis by blast
qed

theorem threads_answer_witness:
  "\<exists>(t :: gpio_threads) s1 h1 st v s h. th_answers t 0x7000 = Some (st, v) \<and>
     gpio_end env_fresh 0 0x7000 (Some (Some 0)) s1 h1 = Some (answer_of st, Some (Some v), s, h)"
proof -
  obtain t r i s1 h1 where t: "threads_run env_fresh gpio_example_dev (threads_of gpio_example) t"
      "th_clients t 0x7000 = Some (At_wait r i)"
      "sem_wait_others env_fresh (\<lambda>s h. Some (s, h)) 0x7000 (th_state t) (th_hist t) = Some (0, s1, h1)"
    using threads_example_posted by blast
  from threads_answer [OF threads_example_start platform_ok_example t, of 0]
  show ?thesis by blast
qed

theorem threads_can_return_witness:
  "\<exists>t t' r i. th_clients t 0x7000 = Some (At_wait r i) \<and>
     threads_run env_fresh gpio_example_dev t t' \<and> th_clients t' 0x7000 = None"
proof -
  obtain t r i where t: "threads_run env_fresh gpio_example_dev (threads_of gpio_example) t" "th_clients t 0x7000 = Some (At_wait r i)"
    using threads_example_sent by blast
  from threads_can_return [OF threads_example_start platform_ok_example t(1), of "0x7000"] gpio_example_sel(4) t(2)
  show ?thesis by blast
qed


end
