(* ===== verification/Driver_System.thy ===== *)
theory Driver_System
  imports Gpio_Init Resmgr Gpio_Concurrency
begin

text \<open>
  The components together: the interrupt thread over the transports, the driver from its set-up on, and the
  files of the lines on top of it.
\<close>

section \<open>One turn of the interrupt thread\<close>

lemma gpio_inv_quiet:
  assumes "gpio_inv sys" and "quiet (sys_hist sys) h"
  shows "gpio_inv (put_state sys (sys_state sys) h)"
proof -
  obtain q where q: "gs_vq (sys_state sys) = Some q" "virtq_inv q" "unat (vq_num q) dvd 65536"
      "in_flight (sys_state sys) (sys_hist sys) q (outstanding sys q)"
    using assms(1) by (auto simp: gpio_inv_def split: option.splits)
  have "in_flight (sys_state sys) h q (outstanding sys q)"
    by (rule in_flight_cong [OF q(4)]) (use assms(2) in \<open>simp_all add: quiet_def\<close>)
  then show ?thesis using q by (simp add: gpio_inv_def put_state_def outstanding_def)
qed

lemma repeat_callback_end: "cb s h = Some (rc, s', h') \<Longrightarrow> rc \<noteq> EOK \<Longrightarrow> repeat_callback cb s h = Some (rc, s', h')"
  by (subst repeat_callback.simps) simp

text \<open>The history before the callback: unmasked, woken, the status read and acknowledged.\<close>

definition mmio_turn :: "env \<Rightarrow> mmio_base \<Rightarrow> int \<Rightarrow> int \<Rightarrow> hist \<Rightarrow> hist" where
  "mmio_turn env b irq iid h =
     (let h0 = InterruptWait # InterruptUnmask irq iid # h;
          status = (ucast (mmio_val env b VIRTIO_MMIO_INTERRUPT_STATUS h0) :: u32);
          h1 = mmio_rd env b VIRTIO_MMIO_INTERRUPT_STATUS h0 # h0
      in if status AND VIRTIO_MMIO_INT_VIRTQ \<noteq> 0 then mmio_wr b VIRTIO_MMIO_INTERRUPT_ACK VIRTIO_MMIO_INT_VIRTQ # h1 else h1)"

lemma quiet_mmio_turn: "quiet h (mmio_turn env b irq iid h)"
  by (simp add: mmio_turn_def mmio_rd_def mmio_wr_def quiet_def Let_def)

lemma mmio_ist_turn:
  assumes "vd_ops dev = Some virtio_mmio_ops" and "mmio_ready (vd_base dev)"
    and "cb s (mmio_turn env (vd_base dev) irq iid h) = Some (rc, s', h')" "rc \<noteq> EOK"
  shows "virtio_ist_turn env dev irq iid cb s h = Some (s', h')"
proof -
  obtain p where p: "vd_priv (vd_base dev) = Some p" using assms(2) by (auto simp: mmio_ready_def)
  note run = repeat_callback_end [of cb s "mmio_turn env (vd_base dev) irq iid h", OF assms(3,4)]
  show ?thesis
    using run assms(1) p
    by (simp add: virtio_ist_turn_def virtio_virtq_callback_def virtio_mmio_ops_def virtio_mmio_virtq_callback_def
        virtio_mmio_get_interrupt_status_def virtio_mmio_set_interrupt_ack_def mmio_turn_def Let_def
        with_mdev_ready [OF assms(2)] with_mdev_out_ready [OF assms(2)] virtio_mmio_read32_eq [OF p] split: if_splits)
qed

lemma pci_ist_turn:
  assumes "vd_ops dev = Some virtio_pci_ops" and "cb s (InterruptWait # InterruptUnmask irq iid # h) = Some (rc, s', h')" "rc \<noteq> EOK"
  shows "virtio_ist_turn env dev irq iid cb s h = Some (s', h')"
  using repeat_callback_end [of cb s "InterruptWait # InterruptUnmask irq iid # h", OF assms(2,3)] assms(1)
  by (simp add: virtio_ist_turn_def virtio_virtq_callback_def virtio_pci_ops_def virtio_pci_virtq_callback_def)

text \<open>The callback, whatever quiet events the turn made before it.\<close>

lemma callback_after:
  assumes "gpio_inv sys" and "platform_ok env gd" and "quiet (sys_hist sys) h" and "gs_vq (sys_state sys) = Some q"
  shows "\<exists>s h' q'. virtq_callback env (sys_state sys) h = Some (ENOENT, s, h') \<and>
           collected (sys_state sys) h q (used_pending q) s h' q'"
proof -
  have "gpio_inv (put_state sys (sys_state sys) h)" using gpio_inv_quiet [OF assms(1,3)] .
  from virtq_callback_run [OF this, of env q] assms(2,4) show ?thesis
    by (auto simp: platform_ok_def put_state_def)
qed

text \<open>
  C15: a turn of the interrupt thread. Over MMIO the thread unmasks its interrupt, waits, reads the interrupt
  status and acknowledges it if it is the queue's, and only then looks at the used ring: an answer that
  comes after the acknowledgement raises a new interrupt, one that came before is collected now.
  The turn returns, and afterwards every request that was answered has been completed, its descriptors
  are free, and nothing else has changed. Over PCI the same holds without the status register.
\<close>

theorem interrupt_turn_collects:
  assumes "gpio_start sys0" and "platform_ok env gd" and "gpio_run env gd sys0 sys"
    and "gs_vq (sys_state sys) = Some q"
    and "vd_ops mdev = Some virtio_mmio_ops" "mmio_ready (vd_base mdev)" and "vd_ops pdev = Some virtio_pci_ops"
  shows "(\<exists>s h q'. virtio_ist_turn env mdev irq iid (virtq_callback env) (sys_state sys) (sys_hist sys) = Some (s, h) \<and>
            virtq_callback env (sys_state sys) (mmio_turn env (vd_base mdev) irq iid (sys_hist sys)) = Some (ENOENT, s, h) \<and>
            collected (sys_state sys) (mmio_turn env (vd_base mdev) irq iid (sys_hist sys)) q (used_pending q) s h q') \<and>
         (\<exists>s h q'. virtio_ist_turn env pdev irq iid (virtq_callback env) (sys_state sys) (sys_hist sys) = Some (s, h) \<and>
            virtq_callback env (sys_state sys) (InterruptWait # InterruptUnmask irq iid # sys_hist sys) = Some (ENOENT, s, h) \<and>
            collected (sys_state sys) (InterruptWait # InterruptUnmask irq iid # sys_hist sys) q (used_pending q) s h q')"
proof -
  have inv: "gpio_inv sys" using gpio_inv_run [OF assms(3,2) gpio_start_inv [OF assms(1)]] .
  have "quiet (sys_hist sys) (InterruptWait # InterruptUnmask irq iid # sys_hist sys)" by (simp add: quiet_def)
  note p = callback_after [OF inv assms(2) this assms(4)]
  note m = callback_after [OF inv assms(2) quiet_mmio_turn assms(4)]
  have "ENOENT \<noteq> EOK" by simp
  then show ?thesis
    using p m mmio_ist_turn [OF assms(5,6), of "virtq_callback env"] pci_ist_turn [OF assms(7), of "virtq_callback env"]
    by metis
qed

section \<open>A driver set up on a device, at work\<close>



section \<open>A device that can be set up\<close>

text \<open>It offers queues of up to 64 entries; new pages are zero.\<close>

definition env_dev :: env where
  "env_dev = env_fresh\<lparr> env_reg := (\<lambda>h a n. if a AND 0xfff = 0x34 then 64 else 0), env_garbage := (\<lambda>h i. 0) \<rparr>"

declare delay_all.simps [code]
declare virtio_reset_device_poll.simps [code]
declare virtio_reset_queue_poll.simps [code]

lemma env_dev_ok: "setup_env_ok env_dev" "zeroed env_dev" "env_sem_wait env_dev h c = 0"
proof -
  have eq: "env_spin_lock env_dev = env_spin_lock env_fresh" "env_delay env_dev = env_delay env_fresh"
      "env_mmap env_dev = env_mmap env_fresh" "env_mem_offset env_dev = env_mem_offset env_fresh"
      "env_calloc env_dev = env_calloc env_fresh" "env_munmap env_dev = env_munmap env_fresh"
      "env_fifo_hdr env_dev = env_fifo_hdr env_fresh"
    by (simp_all add: env_dev_def)
  show "setup_env_ok env_dev"
    using setup_env_ok_fresh
    unfolding setup_env_ok_def locks_ok_def delays_ok_def errnos_ok_def unmaps_ok_def mmap_fresh_def allocs_ok_def eq .
  show "zeroed env_dev" by (simp add: zeroed_def env_dev_def)
  show "env_sem_wait env_dev h c = 0" by (simp add: env_dev_def env_fresh_def)
qed

lemma gpio_example_vdev_ok:
  "vd_ops gpio_example_vdev = Some virtio_mmio_ops" "mmio_ready (vd_base gpio_example_vdev)"
  "\<not> vd_legacy (vd_base gpio_example_vdev)" "polls_ok (vd_base gpio_example_vdev)"
  by (simp_all add: gpio_example_vdev_def polls_ok_def) (simp_all add: mmio_example_def)

definition env_dev_setup :: "(virtio_mmio_device virtio_gpio_device \<times> virtq \<times> hist) option" where
  "env_dev_setup =
     (case virtio_gpio_setup env_dev 0x6000 0 gpio_example_vdev 4 [] of
        Some (rc, Some dv, Some q, h) \<Rightarrow> if rc = EOK then Some (dv, q, h) else None
      | _ \<Rightarrow> None)"

lemma env_dev_setup_ok: "map_option (\<lambda>(dv, q, h). (vq_num q, vd_self (vd_base (gd_dev dv)))) env_dev_setup = Some (4, 0x3000)"
  by code_simp

lemma env_dev_buffers: "(case env_dev_setup of None \<Rightarrow> False | Some (dv, q, h) \<Rightarrow> buffers_ok env_dev q (SemInit 0x7000 0 # h))"
  by code_simp

lemma env_dev_run:
  "\<exists>dv q h. virtio_gpio_setup env_dev 0x6000 0 gpio_example_vdev 4 [] = Some (EOK, Some dv, Some q, h) \<and>
     unat (vq_num q) dvd 65536 \<and> buffers_ok env_dev q (SemInit 0x7000 0 # h)"
proof -
  obtain dv q h where s: "env_dev_setup = Some (dv, q, h)" "vq_num q = 4" using env_dev_setup_ok by auto
  then have "virtio_gpio_setup env_dev 0x6000 0 gpio_example_vdev 4 [] = Some (EOK, Some dv, Some q, h)"
    by (auto simp: env_dev_setup_def split: option.splits if_splits)
  moreover have "buffers_ok env_dev q (SemInit 0x7000 0 # h)" using env_dev_buffers unfolding s(1) by simp
  ultimately show ?thesis using s(2) by auto
qed



theorem interrupt_turn_collects_witness:
  "\<exists>s h. virtio_ist_turn env_fresh gpio_example_vdev 42 7 (virtq_callback env_fresh) (sys_state gpio_example) (sys_hist gpio_example) = Some (s, h)"
proof -
  have r: "gpio_run env_fresh gpio_example_dev gpio_example gpio_example" by simp
  have p: "vd_ops pci_gpio_vdev = Some virtio_pci_ops" by (simp add: pci_gpio_vdev_def)
  from interrupt_turn_collects [OF gpio_example_start platform_ok_example r gpio_example_sel(3) gpio_example_vdev_ok(1,2) p,
      of 42 7]
  show ?thesis by blast
qed

end
