(* ===== verification/Diagnostics.thy ===== *)
theory Diagnostics
  imports Virtq Logging
begin

text \<open>
  What the code prints: the dump of a virtqueue, the name of a PCI device in a log line, and the macros of
  \<^verbatim>\<open>logging.h\<close>. A \<open>printf\<close> is the text it makes.
\<close>

section \<open>Hexadecimal numbers\<close>

definition hex_digit :: "nat \<Rightarrow> char" where
  "hex_digit d = char_of (if d < 10 then 48 + d else 87 + d)"

fun hex :: "nat \<Rightarrow> string" where
  "hex n = (if n < 16 then [hex_digit n] else hex (n div 16) @ [hex_digit (n mod 16)])"

declare hex.simps [simp del]

text \<open>\<open>%02x\<close>.\<close>

definition hex02 :: "nat \<Rightarrow> string" where
  "hex02 n = replicate (2 - length (hex n)) (CHR ''0'') @ hex n"

lemma length_hex: "0 < k \<Longrightarrow> n < 16 ^ k \<Longrightarrow> length (hex n) \<le> k"
proof (induction k arbitrary: n)
  case (Suc k)
  show ?case
  proof (cases "n < 16")
    case True
    then show ?thesis by (subst hex.simps) simp
  next
    case False
    then have "n div 16 < 16 ^ k" using Suc.prems by (simp add: less_mult_imp_div_less mult.commute)
    moreover from this have "0 < k" using False Suc.prems by (cases k) auto
    ultimately show ?thesis using Suc.IH [of "n div 16"] False by (subst hex.simps) simp
  qed
qed simp

lemma hex_not_empty [simp]: "hex n \<noteq> []"
  by (subst hex.simps) simp

section \<open>The dump of a queue\<close>

definition newline :: string where "newline = [CHR 0x0A]"

definition print_desc :: "nat \<Rightarrow> virtq_desc \<Rightarrow> string" where
  "print_desc i d =
     ''desc['' @ dec i @ '']: addr='' @ hex (unat (desc_addr d)) @ '', len='' @ dec (unat (desc_len d)) @
     '', flags='' @ dec (unat (desc_flags d)) @ '', next='' @ dec (unat (desc_next d)) @ newline"

definition print_avail :: "nat \<Rightarrow> u16 \<Rightarrow> string" where
  "print_avail i x = ''avail ring['' @ dec i @ '']: desc_idx='' @ dec (unat x) @ newline"

definition print_used :: "nat \<Rightarrow> virtq_used_elem \<Rightarrow> string" where
  "print_used i e =
     ''used ring['' @ dec i @ '']: desc_idx='' @ dec (unat (used_elem_id e)) @ '', len='' @ dec (unat (used_elem_len e)) @ newline"

text \<open>One of the loops over the \<open>num\<close> entries of a table.\<close>

definition print_table :: "(nat \<Rightarrow> 'a \<Rightarrow> string) \<Rightarrow> 'a list \<Rightarrow> nat \<Rightarrow> string option" where
  "print_table line xs n = map_option concat (those (map (\<lambda>i. map_option (line i) (arr_get xs i)) [0..<n]))"

definition virtq_print :: "virtq \<Rightarrow> string option" where
  "virtq_print q = do {
     descs \<leftarrow> print_table print_desc (vq_desc q) (unat (vq_num q));
     avails \<leftarrow> print_table print_avail (vq_avail_ring q) (unat (vq_num q));
     useds \<leftarrow> print_table print_used (vq_used_ring q) (unat (vq_num q));
     Some (''virtq: num='' @ dec (unat (vq_num q)) @ '', last_seen_used='' @ dec (unat (vq_last_seen_used q)) @ newline @
           descs @ ''avail idx='' @ dec (unat (vq_avail_idx q)) @ newline @ avails @
           ''used idx='' @ dec (unat (vq_used_idx q)) @ newline @ useds)
   }"

lemma print_table_run:
  assumes "n \<le> length xs"
  shows "print_table line xs n = Some (concat (map (\<lambda>i. line i (xs ! i)) [0..<n]))"
proof -
  have those: "those (map (\<lambda>i. Some (f i)) is) = Some (map f is)" for f :: "nat \<Rightarrow> string" and "is"
    by (induction "is") simp_all
  have "map (\<lambda>i. map_option (line i) (arr_get xs i)) [0..<n] = map (\<lambda>i. Some (line i (xs ! i))) [0..<n]"
    using assms by (simp add: arr_get_def)
  then show ?thesis by (simp only: print_table_def those option.map)
qed

text \<open>The dump of a well-formed queue reads inside the three tables, one line for each entry.\<close>

lemma virtq_print_run:
  assumes "virtq_inv q"
  shows "\<exists>text. virtq_print q = Some text"
  using assms by (simp add: virtq_print_def print_table_run virtq_inv_def)

section \<open>The name of a PCI device\<close>

text \<open>
  \<open>PCI_BUS\<close>, \<open>PCI_DEV\<close> and \<open>PCI_FUNC\<close> are macros of the PCI library; what they give is an argument. The buffer
  keeps \<open>n - 1\<close> characters.
\<close>

definition pci_bdf_format :: "nat \<Rightarrow> nat \<Rightarrow> nat \<Rightarrow> nat \<Rightarrow> string" where
  "pci_bdf_format bus dev func n = take (n - 1) (hex02 bus @ '':'' @ hex02 dev @ ''.'' @ hex func)"

lemma length_hex02: "n < 256 \<Longrightarrow> length (hex02 n) = 2"
  using length_hex [of 2 n] by (cases "hex n") (auto simp: hex02_def)

text \<open>Buses, devices and functions of a byte each fit the 16 characters of the caller.\<close>

lemma pci_bdf_format_fits:
  assumes "bus < 256" and "dev < 256" and "func < 256"
  shows "pci_bdf_format bus dev func 16 = hex02 bus @ '':'' @ hex02 dev @ ''.'' @ hex func"
  using length_hex02 [OF assms(1)] length_hex02 [OF assms(2)] length_hex [of 2 func] assms(3)
  by (simp add: pci_bdf_format_def)

section \<open>The macros of the logging library\<close>

text \<open>Each names its severity; \<open>alert\<close> and \<open>crit\<close> are the same.\<close>

type_synonym log_call = "string \<Rightarrow> int \<Rightarrow> string option \<Rightarrow> logging_ctx \<Rightarrow> log_event list \<Rightarrow> log_event list"

definition log_emerg :: log_call where "log_emerg = logging_log_impl SLOG2_SHUTDOWN"

definition log_alert :: log_call where "log_alert = logging_log_impl SLOG2_CRITICAL"

definition log_crit :: log_call where "log_crit = logging_log_impl SLOG2_CRITICAL"

definition log_err :: log_call where "log_err = logging_log_impl SLOG2_ERROR"

definition log_warn :: log_call where "log_warn = logging_log_impl SLOG2_WARNING"

definition log_notice :: log_call where "log_notice = logging_log_impl SLOG2_NOTICE"

definition log_info :: log_call where "log_info = logging_log_impl SLOG2_INFO"

definition log_debug :: log_call where "log_debug = logging_log_impl SLOG2_DEBUG1"

lemmas log_macros = log_emerg_def log_alert_def log_crit_def log_err_def log_warn_def log_notice_def log_info_def log_debug_def

text \<open>On standard output every macro's message carries a name of its own, except that \<open>alert\<close> reads \<open>CRIT\<close>.\<close>

lemma log_macro_names:
  assumes "log_initialized ctx" and "log_buffer ctx \<noteq> 0" and "log_flags ctx AND LOG_FLAG_STDOUT \<noteq> 0"
  shows "\<forall>(call, name) \<in> set [(log_emerg, ''EMERG''), (log_alert, ''CRIT''), (log_crit, ''CRIT''), (log_err, ''ERROR''),
      (log_warn, ''WARNING''), (log_notice, ''NOTICE''), (log_info, ''INFO''), (log_debug, ''DEBUG'')].
    \<exists>text rest. call file line (Some msg) ctx h = Printed (''['' @ name @ text) # rest"
  using assms by (simp add: log_macros logging_log_impl_def get_severity_name_def Let_def)

end
