(* ===== verification/Resmgr_Abi.thy ===== *)
theory Resmgr_Abi
  imports Resmgr
begin

text \<open>
  The devctl messages of \<^theory_text>\<open>Resmgr\<close> as bytes: the command is the number that the macros of \<^verbatim>\<open>uapi/gpio.h\<close>
  give, the input and the reply are the structures of that header as they lie in the message buffer. What
  a client reads at the offsets of the header is compared with what the handler means to answer.
\<close>

section \<open>Numbers and strings in memory\<close>

definition le64 :: "u64 \<Rightarrow> u8 list" where
  "le64 x = le32 (ucast x) @ le32 (ucast (drop_bit 32 x))"

definition of_le64 :: "u8 list \<Rightarrow> u64" where
  "of_le64 bs = ucast (of_le32 (take 4 bs)) OR push_bit 32 (ucast (of_le32 (drop 4 bs)))"

definition cstr :: "string \<Rightarrow> u8 list" where
  "cstr s = map (\<lambda>c. of_nat (of_char c)) s @ [0]"

definition of_cstr :: "u8 list \<Rightarrow> string" where
  "of_cstr bs = map (\<lambda>b. char_of (unat b)) (takeWhile (\<lambda>b. b \<noteq> 0) bs)"

lemma length_le64 [simp]: "length (le64 x) = 8"
  by (simp add: le64_def)

lemma length_cstr [simp]: "length (cstr s) = Suc (length s)"
  by (simp add: cstr_def)

lemma of_le64_le64 [simp]: "of_le64 (le64 x) = x"
proof -
  have "(ucast (ucast x :: u32) OR push_bit 32 (ucast (ucast (drop_bit 32 x) :: u32)) :: u64) = x"
    by (rule bit_word_eqI) (auto simp: bit_simps less_diff_conv2)
  then show ?thesis by (simp add: le64_def of_le64_def)
qed

lemma unat_of_char [simp]: "unat (of_nat (of_char c) :: u8) = of_char c"
  by (simp add: unsigned_of_nat take_bit_nat_eq_self)

lemma of_char_nonzero [simp]: "(of_nat (of_char c) :: u8) = 0 \<longleftrightarrow> c = CHR 0x00"
proof -
  have "(of_nat (of_char c) :: u8) = 0 \<longleftrightarrow> (of_char c :: nat) = 0"
    using unat_of_char [of c] unat_eq_zero [of "of_nat (of_char c) :: u8"] by simp
  also have "(0 :: nat) = of_char (CHR 0x00)" by simp
  finally show ?thesis by (simp only: of_char_eq_iff)
qed

lemma of_cstr_cstr [simp]: "CHR 0x00 \<notin> set s \<Longrightarrow> of_cstr (cstr s @ bs) = s"
proof (induction s)
  case (Cons c s)
  then show ?case by (auto simp: cstr_def of_cstr_def)
qed (simp add: cstr_def of_cstr_def)

section \<open>Messages\<close>

text \<open>
  The bytes of a message: the command, and the areas of the message buffer where \<^verbatim>\<open>_IO_INPUT_PAYLOAD\<close> and
  \<^verbatim>\<open>_IO_OUTPUT_PAYLOAD\<close> point. The handler reads the input before it writes to the output, so the two may
  be the same area.
\<close>

record raw_devctl =
  raw_default :: "rc option"
  raw_dcmd :: u32
  raw_in :: "u8 list"
  raw_out :: "u8 list"

text \<open>The labels of the \<^verbatim>\<open>switch\<close>, in its order; a value that none of them has goes to \<^verbatim>\<open>default\<close>.\<close>

definition devctl_case :: "(ioc_dir \<Rightarrow> u8 \<Rightarrow> u8 \<Rightarrow> nat \<Rightarrow> u32) \<Rightarrow> u32 \<Rightarrow> gpio_ioctl" where
  "devctl_case ioc dcmd =
     (case find (\<lambda>c. ioctl_code ioc c = dcmd) ioctl_cases of Some c \<Rightarrow> c | None \<Rightarrow> Other_ioctl dcmd)"

text \<open>\<open>info->offset\<close>, which only the information on a line reads.\<close>

definition devctl_input :: "gpio_ioctl \<Rightarrow> u8 list \<Rightarrow> u32 option" where
  "devctl_input c inp =
     (if c = GPIO_V2_GET_LINEINFO_IOCTL then do {
        off \<leftarrow> offset_of 8 gpio_v2_line_info_type ''offset'';
        bs \<leftarrow> mem_read inp off 4;
        Some (of_le32 bs)
      } else Some 0)"

text \<open>The stores of the two replies. The first leaves every byte behind the strings as it was.\<close>

definition store_chipinfo :: "gpiochip_info \<Rightarrow> u8 list \<Rightarrow> u8 list option" where
  "store_chipinfo info out =
     (let t = gpiochip_info_type
      in do {
        off \<leftarrow> offset_of 8 t ''name'';
        out \<leftarrow> mem_write out off (cstr (chip_name info));
        off \<leftarrow> offset_of 8 t ''label'';
        out \<leftarrow> mem_write out off (cstr (chip_label info));
        off \<leftarrow> offset_of 8 t ''lines'';
        mem_write out off (le32 (chip_lines info))
      })"

definition store_lineinfo :: "gpio_v2_line_info \<Rightarrow> u8 list \<Rightarrow> u8 list option" where
  "store_lineinfo info out =
     (let t = gpio_v2_line_info_type
      in do {
        out \<leftarrow> mem_write out 0 (replicate (sizeof t) 0);
        off \<leftarrow> offset_of 8 t ''offset'';
        out \<leftarrow> mem_write out off (le32 (line_offset info));
        off \<leftarrow> offset_of 8 t ''name'';
        out \<leftarrow> mem_write out off (cstr (line_name info));
        off \<leftarrow> offset_of 8 t ''flags'';
        flags \<leftarrow> mem_read out off 8;
        mem_write out off (le64 (of_le64 flags OR line_flags info))
      })"

fun store_payload :: "payload \<Rightarrow> u8 list \<Rightarrow> u8 list option" where
  "store_payload (Chip_payload info) out = store_chipinfo info out"
| "store_payload (Line_payload info) out = store_lineinfo info out"

text \<open>\<open>resmgr_devctl\<close> on bytes. The result has the bytes of the reply after its header.\<close>

definition resmgr_devctl_bytes ::
  "(ioc_dir \<Rightarrow> u8 \<Rightarrow> u8 \<Rightarrow> nat \<Rightarrow> u32) \<Rightarrow> env \<Rightarrow> gpio_state others \<Rightarrow> 'p virtio_gpio_device \<Rightarrow> ptr \<Rightarrow> raw_devctl \<Rightarrow>
   gpio_state \<Rightarrow> hist \<Rightarrow> (io_result \<times> u8 list \<times> gpio_state \<times> hist) option" where
  "resmgr_devctl_bytes ioc env others dev c m s h =
     do {
       let dcmd = devctl_case ioc (raw_dcmd m);
       offset \<leftarrow> (if raw_default m = None then devctl_input dcmd (raw_in m) else Some 0);
       (r, p, s, h) \<leftarrow>
         resmgr_devctl env others dev c \<lparr> d_default = raw_default m, d_dcmd = dcmd, d_offset = offset \<rparr> s h;
       (case (r, p) of
          (Reply_ptr n, Some p) \<Rightarrow> do {
            out \<leftarrow> store_payload p (raw_out m);
            bs \<leftarrow> mem_read out 0 n;
            Some (r, bs, s, h)
          }
        | _ \<Rightarrow> Some (r, [], s, h))
     }"

section \<open>The bytes of the replies\<close>

lemma store_lineinfo_bytes:
  assumes "256 \<le> length out" and "length (line_name info) < 32"
  shows "store_lineinfo info out = Some (cstr (line_name info) @ replicate (31 - length (line_name info)) 0 @ replicate 32 0 @
     le32 (line_offset info) @ replicate 4 0 @ le64 (line_flags info) @ replicate 176 0 @ drop 256 out)"
proof -
  have "of_le64 (replicate 8 0) = 0" by code_simp
  moreover have "63 - n = (31 - n) + 32" "\<not> 71 - n \<le> 63 - n" if "n < 32" for n :: nat using that by linarith+
  ultimately show ?thesis using assms by (simp add: store_lineinfo_def min_def flip: replicate_add)
qed

lemma store_chipinfo_bytes:
  assumes "68 \<le> length out" and "length (chip_name info) < 32" and "length (chip_label info) < 32"
  shows "store_chipinfo info out = Some (cstr (chip_name info) @ drop (Suc (length (chip_name info))) (take 32 out) @
     cstr (chip_label info) @ drop (33 + length (chip_label info)) (take 64 out) @ le32 (chip_lines info) @ drop 68 out)"
proof -
  have "66 \<le> length out - 2" "32 + length (chip_label info) \<le> length out - Suc 0" using assms by linarith+
  then show ?thesis using assms by (simp add: store_chipinfo_def mem_write_def drop_take)
qed

section \<open>What a client reads\<close>

text \<open>The fields of a reply at the offsets of the header.\<close>

definition load_chipinfo :: "u8 list \<Rightarrow> gpiochip_info option" where
  "load_chipinfo bs =
     do {
       off \<leftarrow> offset_of 8 gpiochip_info_type ''name'';
       name \<leftarrow> mem_read bs off GPIO_MAX_NAME_SIZE;
       off \<leftarrow> offset_of 8 gpiochip_info_type ''label'';
       label \<leftarrow> mem_read bs off GPIO_MAX_NAME_SIZE;
       off \<leftarrow> offset_of 8 gpiochip_info_type ''lines'';
       lines \<leftarrow> mem_read bs off 4;
       Some \<lparr> chip_name = of_cstr name, chip_label = of_cstr label, chip_lines = of_le32 lines \<rparr>
     }"

definition load_lineinfo :: "u8 list \<Rightarrow> gpio_v2_line_info option" where
  "load_lineinfo bs =
     do {
       off \<leftarrow> offset_of 8 gpio_v2_line_info_type ''name'';
       name \<leftarrow> mem_read bs off GPIO_MAX_NAME_SIZE;
       off \<leftarrow> offset_of 8 gpio_v2_line_info_type ''offset'';
       offset \<leftarrow> mem_read bs off 4;
       off \<leftarrow> offset_of 8 gpio_v2_line_info_type ''flags'';
       flags \<leftarrow> mem_read bs off 8;
       Some \<lparr> line_name = of_cstr name, line_offset = of_le32 offset, line_flags = of_le64 flags \<rparr>
     }"

text \<open>The replies, byte by byte; \<open>out\<close> is what the buffer held before.\<close>

definition line_image :: "gpio_v2_line_info \<Rightarrow> u8 list" where
  "line_image info = cstr (line_name info) @ replicate (31 - length (line_name info)) 0 @ replicate 32 0 @
     le32 (line_offset info) @ replicate 4 0 @ le64 (line_flags info) @ replicate 176 0"

definition chip_image :: "gpiochip_info \<Rightarrow> u8 list \<Rightarrow> u8 list" where
  "chip_image info out = cstr (chip_name info) @ drop (Suc (length (chip_name info))) (take 32 out) @
     cstr (chip_label info) @ drop (33 + length (chip_label info)) (take 64 out) @ le32 (chip_lines info)"

lemma store_line_image:
  "256 \<le> length out \<Longrightarrow> length (line_name info) < 32 \<Longrightarrow> store_lineinfo info out = Some (line_image info @ drop 256 out)"
  using store_lineinfo_bytes by (simp add: line_image_def)

lemma store_chip_image:
  "68 \<le> length out \<Longrightarrow> length (chip_name info) < 32 \<Longrightarrow> length (chip_label info) < 32 \<Longrightarrow>
   store_chipinfo info out = Some (chip_image info out @ drop 68 out)"
  using store_chipinfo_bytes by (simp add: chip_image_def)

lemma length_line_image: "length (line_name info) < 32 \<Longrightarrow> length (line_image info) = 256"
  by (simp add: line_image_def)

lemma length_chip_image:
  "68 \<le> length out \<Longrightarrow> length (chip_name info) < 32 \<Longrightarrow> length (chip_label info) < 32 \<Longrightarrow> length (chip_image info out) = 68"
  by (simp add: chip_image_def)

text \<open>What the reply on the chip leaves of the buffer.\<close>

lemma chip_image_stale:
  assumes "68 \<le> length out" and "length (chip_name info) < 32" and "length (chip_label info) < 32"
  shows "take (31 - length (chip_name info)) (drop (Suc (length (chip_name info))) (chip_image info out)) =
         take (31 - length (chip_name info)) (drop (Suc (length (chip_name info))) out)"
    and "take (31 - length (chip_label info)) (drop (33 + length (chip_label info)) (chip_image info out)) =
         take (31 - length (chip_label info)) (drop (33 + length (chip_label info)) out)"
proof -
  let ?n = "length (chip_name info)" and ?l = "length (chip_label info)"
  let ?A = "cstr (chip_name info)" and ?B = "drop (Suc ?n) (take 32 out)" and ?C = "cstr (chip_label info)"
    and ?D = "drop (33 + ?l) (take 64 out)" and ?E = "le32 (chip_lines info)"
  have mid: "take l (drop k (a @ b @ c)) = b" if "length a = k" "length b = l" for a b c :: "u8 list" and k l
    using that by simp
  have len: "length ?A = Suc ?n" "length ?B = 31 - ?n" "length (?A @ ?B @ ?C) = 33 + ?l" "length ?D = 31 - ?l"
    using assms by simp_all
  have n: "32 - Suc ?n = 31 - ?n" "64 - (33 + ?l) = 31 - ?l" by linarith+
  have "?B = take (31 - ?n) (drop (Suc ?n) out)" "?D = take (31 - ?l) (drop (33 + ?l) out)"
    by (simp_all only: drop_take n)
  with mid [OF len(1,2), of "?C @ ?D @ ?E"] mid [OF len(3,4), of ?E]
  show "take (31 - ?n) (drop (Suc ?n) (chip_image info out)) = take (31 - ?n) (drop (Suc ?n) out)"
    and "take (31 - ?l) (drop (33 + ?l) (chip_image info out)) = take (31 - ?l) (drop (33 + ?l) out)"
    by (simp_all only: chip_image_def append_assoc)
qed

lemma load_line_image:
  assumes "length (line_name info) < 32" and "CHR 0x00 \<notin> set (line_name info)"
  shows "load_lineinfo (line_image info) = Some info"
  using assms by (simp add: load_lineinfo_def length_line_image) (simp add: line_image_def min_def)

lemma load_chip_image:
  assumes "68 \<le> length out" and "length (chip_name info) < 32" and "length (chip_label info) < 32"
    and "CHR 0x00 \<notin> set (chip_name info)" and "CHR 0x00 \<notin> set (chip_label info)"
  shows "load_chipinfo (chip_image info out) = Some info"
  using assms by (simp add: load_chipinfo_def length_chip_image) (simp add: chip_image_def min_def)

section \<open>The switch\<close>

lemma find_inj:
  assumes "inj_on f (set xs)" and "x \<in> set xs"
  shows "find (\<lambda>y. f y = f x) xs = Some x"
  using assms by (induction xs) (auto simp: inj_on_def)

lemma devctl_case_code:
  assumes "ioc_ok ioc" and "c \<in> set ioctl_cases"
  shows "devctl_case ioc (ioctl_code ioc c) = c"
proof -
  have "inj_on (ioctl_code ioc) (set ioctl_cases)" using ioctl_code_inject [of ioc] assms(1) by (auto intro: inj_onI)
  from find_inj [OF this assms(2)] show ?thesis by (simp add: devctl_case_def)
qed

lemma devctl_case_other:
  assumes "\<forall>c \<in> set ioctl_cases. ioctl_code ioc c \<noteq> d"
  shows "devctl_case ioc d = Other_ioctl d"
proof -
  have "find (\<lambda>c. ioctl_code ioc c = d) ioctl_cases = None" using assms by (auto simp: find_None_iff)
  then show ?thesis by (simp add: devctl_case_def)
qed

section \<open>The messages of a client\<close>

lemma no_nul_dec [simp]: "CHR 0x00 \<notin> set (dec n)"
  using dec_digits by (fastforce simp: is_digit_def digit_val_def)

lemma line_file_string: "n < 65536 \<Longrightarrow> length (line_file (unat (i::size_t)) n) < 32 \<and> CHR 0x00 \<notin> set (line_file (unat i) n)"
  using length_dec64 [of i] length_dec_line [of n] by (simp add: line_file_def)

lemma chip_file_string: "length (chip_file (unat (i::size_t))) < 32 \<and> CHR 0x00 \<notin> set (chip_file (unat i))"
  using length_dec64 [of i] by (simp add: chip_file_def)

text \<open>
  C32: what a client gets that asks for a line with the structures of the header. An offset, read
  from its place in the input, that is not below the number of lines is refused without asking the device.
  Otherwise the reply is a complete \<^verbatim>\<open>struct gpio_v2_line_info\<close>, every byte of which is determined whatever the
  buffer held before: the name in full, the offset, and the flag of the direction that the device
  answers; the consumer, the attributes and the padding are zero. Read at the offsets of the header it gives
  these fields back.
\<close>

theorem devctl_line_info:
  assumes "callable env dev c sys" and "ioc_ok ioc"
    and "raw_default m = None" and "raw_dcmd m = ioctl_code ioc GPIO_V2_GET_LINEINFO_IOCTL"
    and "68 \<le> length (raw_in m)" and "256 \<le> length (raw_out m)" and "offset = of_le32 (take 4 (drop 64 (raw_in m)))"
    and "offset < ucast (cfg_ngpio (gd_config dev)) \<longrightarrow> sends env dev VIRTIO_GPIO_MSG_GET_DIRECTION (ucast offset) 0 c sys"
  shows "if offset < ucast (cfg_ngpio (gd_config dev))
     then \<exists>info s h. settled c sys s h \<and>
       info = \<lparr> line_name = line_file (unat (gd_idx dev)) (unat offset), line_offset = offset,
         line_flags = line_flag (if v = VIRTIO_GPIO_DIRECTION_NONE then GPIO_V2_LINE_FLAG_INPUT else GPIO_V2_LINE_FLAG_OUTPUT) \<rparr> \<and>
       resmgr_devctl_bytes ioc env (serve env VIRTIO_GPIO_STATUS_OK v) dev c m (sys_state sys) (sys_hist sys) =
         Some (Reply_ptr 256, line_image info, s, h) \<and>
       length (line_image info) = 256 \<and> load_lineinfo (line_image info) = Some info
     else resmgr_devctl_bytes ioc env others dev c m (sys_state sys) (sys_hist sys) =
       Some (Status ENOENT, [], sys_state sys, sys_hist sys)"
proof -
  let ?msg = "\<lparr> d_default = None, d_dcmd = GPIO_V2_GET_LINEINFO_IOCTL, d_offset = offset \<rparr>"
  let ?info = "\<lparr> line_name = line_file (unat (gd_idx dev)) (unat offset), line_offset = offset,
         line_flags = line_flag (if v = VIRTIO_GPIO_DIRECTION_NONE then GPIO_V2_LINE_FLAG_INPUT else GPIO_V2_LINE_FLAG_OUTPUT) \<rparr>"
  have "GPIO_V2_GET_LINEINFO_IOCTL \<in> set ioctl_cases" by (simp add: ioctl_cases_def)
  then have cmd: "devctl_case ioc (raw_dcmd m) = GPIO_V2_GET_LINEINFO_IOCTL"
    unfolding assms(4) by (rule devctl_case_code [OF assms(2)])
  have run: "resmgr_devctl_bytes ioc env others dev c m s h =
      do { (r, p, s, h) \<leftarrow> resmgr_devctl env others dev c ?msg s h;
           (case (r, p) of (Reply_ptr n, Some p) \<Rightarrow> do {
              out \<leftarrow> store_payload p (raw_out m); bs \<leftarrow> mem_read out 0 n; Some (r, bs, s, h) }
            | _ \<Rightarrow> Some (r, [], s, h)) }" for others s h
    using assms(3,5) by (simp add: resmgr_devctl_bytes_def cmd devctl_input_def assms(7) Let_def)
  note spec = line_info_answer [OF assms(1), of ?msg, where v = v and others = others]
  show ?thesis
  proof (cases "offset < ucast (cfg_ngpio (gd_config dev))")
    case True
    have "unat offset < unat (cfg_ngpio (gd_config dev))" using True by (simp add: word_less_nat_alt)
    then have "unat offset < 65536" using unat_u16_less [of "cfg_ngpio (gd_config dev)"] by simp
    from line_file_string [OF this, of "gd_idx dev"] have f:
      "length (line_name ?info) < 32" "CHR 0x00 \<notin> set (line_name ?info)" by simp_all
    from spec True assms(8) obtain s h where
      "resmgr_devctl env (serve env VIRTIO_GPIO_STATUS_OK v) dev c ?msg (sys_state sys) (sys_hist sys) =
         Some (Reply_ptr 256, Some (Line_payload ?info), s, h)" "settled c sys s h" by auto
    then show ?thesis
      unfolding if_P [OF True] using run store_line_image [OF assms(6) f(1)] length_line_image [OF f(1)] load_line_image [OF f]
      by (intro exI [of _ ?info] exI [of _ s] exI [of _ h]) simp
  next
    case False
    then show ?thesis unfolding if_not_P [OF False] using spec run by simp
  qed
qed

text \<open>
  C33: the information on the chip. The reply names the chip in full, its label and its number of
  lines; read at the offsets of the header it gives these back. But the bytes of the two
  arrays behind the strings are those the message buffer held before: unlike the reply on a line this one is not
  cleared, and what earlier messages left there goes to the client.
\<close>

theorem devctl_chip_info:
  assumes "ioc_ok ioc"
    and "raw_default m = None" and "raw_dcmd m = ioctl_code ioc GPIO_GET_CHIPINFO_IOCTL" and "68 \<le> length (raw_out m)"
  shows "\<exists>info bs.
       info = \<lparr> chip_name = chip_file (unat (gd_idx dev)), chip_label = ''virtio'', chip_lines = ucast (cfg_ngpio (gd_config dev)) \<rparr> \<and>
       resmgr_devctl_bytes ioc env others dev c m s h = Some (Reply_ptr 68, bs, s, h) \<and>
       length bs = 68 \<and> load_chipinfo bs = Some info \<and>
       take (31 - length (chip_name info)) (drop (Suc (length (chip_name info))) bs) =
         take (31 - length (chip_name info)) (drop (Suc (length (chip_name info))) (raw_out m)) \<and>
       take 25 (drop 39 bs) = take 25 (drop 39 (raw_out m))"
proof -
  let ?info = "\<lparr> chip_name = chip_file (unat (gd_idx dev)), chip_label = ''virtio'', chip_lines = ucast (cfg_ngpio (gd_config dev)) \<rparr>"
  have "GPIO_GET_CHIPINFO_IOCTL \<in> set ioctl_cases" by (simp add: ioctl_cases_def)
  then have cmd: "devctl_case ioc (raw_dcmd m) = GPIO_GET_CHIPINFO_IOCTL"
    unfolding assms(3) by (rule devctl_case_code [OF assms(1)])
  have f: "length (chip_name ?info) < 32" "CHR 0x00 \<notin> set (chip_name ?info)" "length (chip_label ?info) < 32" "CHR 0x00 \<notin> set (chip_label ?info)"
    using chip_file_string [of "gd_idx dev"] by simp_all
  have "resmgr_devctl env others dev c \<lparr> d_default = None, d_dcmd = GPIO_GET_CHIPINFO_IOCTL, d_offset = 0 \<rparr> s h =
      Some (Reply_ptr 68, Some (Chip_payload ?info), s, h)"
    by (simp add: resmgr_devctl_def devctl_chipinfo_def virtio_gpio_num_gpios_def virtio_gpio_get_chip_index_def
        chip_name_fits)
  then have "resmgr_devctl_bytes ioc env others dev c m s h = Some (Reply_ptr 68, chip_image ?info (raw_out m), s, h)"
    using store_chip_image [OF assms(4) f(1,3)] length_chip_image [OF assms(4) f(1,3)]
    by (simp add: resmgr_devctl_bytes_def cmd devctl_input_def assms(2))
  moreover note chip_image_stale [OF assms(4) f(1,3)]
  ultimately show ?thesis
    using length_chip_image [OF assms(4) f(1,3)] load_chip_image [OF assms(4) f(1,3,2,4)]
    by (intro exI [of _ ?info] exI [of _ "chip_image ?info (raw_out m)"]) simp
qed

text \<open>
  The other commands. Every command of the header that the resource manager knows but does not
  support is refused with \<open>ENOTSUP\<close>, every other value with \<open>ENOSYS\<close>; nothing is asked of the device and nothing
  is stored.
\<close>

theorem devctl_refused:
  assumes "ioc_ok ioc" and "raw_default m = None"
    and "raw_dcmd m \<notin> {ioctl_code ioc GPIO_GET_CHIPINFO_IOCTL, ioctl_code ioc GPIO_V2_GET_LINEINFO_IOCTL}"
  shows "resmgr_devctl_bytes ioc env others dev c m s h =
     Some (Status (if raw_dcmd m \<in> ioctl_code ioc ` set ioctl_cases then ENOTSUP else ENOSYS), [], s, h)"
proof -
  have refused: "resmgr_devctl_bytes ioc env others dev c m s h =
      Some (Status (if cmd \<in> set ioctl_cases then ENOTSUP else ENOSYS), [], s, h)"
    if "devctl_case ioc (raw_dcmd m) = cmd" "cmd \<noteq> GPIO_GET_CHIPINFO_IOCTL" "cmd \<noteq> GPIO_V2_GET_LINEINFO_IOCTL" for cmd
    using that assms(2)
    by (cases cmd) (simp_all add: resmgr_devctl_bytes_def devctl_input_def resmgr_devctl_def ioctl_cases_def)
  show ?thesis
  proof (cases "raw_dcmd m \<in> ioctl_code ioc ` set ioctl_cases")
    case True
    then obtain cmd where cmd: "cmd \<in> set ioctl_cases" "raw_dcmd m = ioctl_code ioc cmd" by blast
    have "devctl_case ioc (raw_dcmd m) = cmd" unfolding cmd(2) by (rule devctl_case_code [OF assms(1) cmd(1)])
    moreover have "cmd \<noteq> GPIO_GET_CHIPINFO_IOCTL" "cmd \<noteq> GPIO_V2_GET_LINEINFO_IOCTL"
      using assms(3) unfolding cmd(2) by blast+
    ultimately show ?thesis using refused [of cmd] cmd(1) unfolding if_P [OF True] by simp
  next
    case False
    then have "devctl_case ioc (raw_dcmd m) = Other_ioctl (raw_dcmd m)" by (intro devctl_case_other ballI notI) (metis imageI)
    moreover have "Other_ioctl d \<notin> set ioctl_cases" for d by (simp add: ioctl_cases_all)
    ultimately show ?thesis using refused [of "Other_ioctl (raw_dcmd m)"] unfolding if_not_P [OF False] by simp
  qed
qed

section \<open>Concrete inputs\<close>

text \<open>The macros as the BSD headers have them.\<close>

definition ioc_bsd :: "ioc_dir \<Rightarrow> u8 \<Rightarrow> u8 \<Rightarrow> nat \<Rightarrow> u32" where
  "ioc_bsd dir g n l =
     push_bit 30 (case dir of IOR \<Rightarrow> 1 | IOWR \<Rightarrow> 3) OR push_bit 16 (take_bit 13 (of_nat l)) OR push_bit 8 (ucast g) OR ucast n"

lemma ioc_bsd_ok: "ioc_ok ioc_bsd"
proof -
  have "ucast (ioc_bsd dir g n l) = n" for dir g n l
    by (rule bit_word_eqI) (auto simp: ioc_bsd_def bit_simps split: ioc_dir.split)
  then show ?thesis by (simp add: ioc_ok_def)
qed

definition raw_example :: "gpio_ioctl \<Rightarrow> raw_devctl" where
  "raw_example c = \<lparr> raw_default = None, raw_dcmd = ioctl_code ioc_bsd c,
     raw_in = replicate 64 0 @ le32 3 @ replicate 188 0, raw_out = replicate 256 0xAA \<rparr>"

lemma raw_example_sel:
  "raw_default (raw_example c) = None" "raw_dcmd (raw_example c) = ioctl_code ioc_bsd c"
  "68 \<le> length (raw_in (raw_example c))" "256 \<le> length (raw_out (raw_example c))" "68 \<le> length (raw_out (raw_example c))"
  "3 = of_le32 (take 4 (drop 64 (raw_in (raw_example c))))" "take 25 (drop 39 (raw_out (raw_example c))) = replicate 25 0xAA"
  by (simp_all add: raw_example_def)

theorem devctl_line_info_witness:
  "\<exists>info s h. info = \<lparr> line_name = line_file 0 3, line_offset = 3, line_flags = line_flag GPIO_V2_LINE_FLAG_OUTPUT \<rparr> \<and>
     resmgr_devctl_bytes ioc_bsd env_fresh (serve env_fresh VIRTIO_GPIO_STATUS_OK 2) gpio_example_dev 0x7000
       (raw_example GPIO_V2_GET_LINEINFO_IOCTL) (sys_state gpio_example) (sys_hist gpio_example) =
         Some (Reply_ptr 256, line_image info, s, h) \<and>
     load_lineinfo (line_image info) = Some info"
proof -
  have n: "(3::u32) < ucast (cfg_ngpio (gd_config gpio_example_dev))" "unat (gd_idx gpio_example_dev) = 0"
      "unat (3::u32) = 3" "(2::u8) \<noteq> VIRTIO_GPIO_DIRECTION_NONE" "ucast (3::u32) = (3::u16)"
    by (simp_all add: gpio_example_dev_def VIRTIO_GPIO_DIRECTION_NONE_def)
  note sel = raw_example_sel [of GPIO_V2_GET_LINEINFO_IOCTL]
  show ?thesis
    using devctl_line_info [OF callable_example ioc_bsd_ok sel(1,2,3,4,6), where v = 2 and others = "\<lambda>s h. None"]
      sends_line_example [OF client_types_simps(2), of "ucast (3::u32)" 0]
    unfolding if_P [OF n(1)] if_not_P [OF n(4)] n(2,3) by blast
qed

theorem devctl_chip_info_witness:
  "\<exists>bs. resmgr_devctl_bytes ioc_bsd env_fresh (serve env_fresh 0 2) gpio_example_dev 0x7000 (raw_example GPIO_GET_CHIPINFO_IOCTL)
     (sys_state gpio_example) (sys_hist gpio_example) = Some (Reply_ptr 68, bs, sys_state gpio_example, sys_hist gpio_example) \<and>
     take 25 (drop 39 bs) = replicate 25 0xAA"
  using devctl_chip_info [OF ioc_bsd_ok raw_example_sel(1,2,5), of gpio_example_dev env_fresh "serve env_fresh 0 2" "0x7000"
      "sys_state gpio_example" "sys_hist gpio_example"] raw_example_sel(7) by metis

theorem devctl_refused_witness:
  "resmgr_devctl_bytes ioc_bsd env_fresh (serve env_fresh 0 2) gpio_example_dev 0x7000 (raw_example GPIO_V2_GET_LINE_IOCTL)
     (sys_state gpio_example) (sys_hist gpio_example) = Some (Status ENOTSUP, [], sys_state gpio_example, sys_hist gpio_example)"
proof -
  let ?m = "raw_example GPIO_V2_GET_LINE_IOCTL"
  have "ioctl_code ioc_bsd GPIO_V2_GET_LINE_IOCTL \<notin>
      {ioctl_code ioc_bsd GPIO_GET_CHIPINFO_IOCTL, ioctl_code ioc_bsd GPIO_V2_GET_LINEINFO_IOCTL}"
    using ioctl_code_inject [OF ioc_bsd_ok] by (simp add: ioctl_cases_def del: ioctl_code.simps)
  moreover have "raw_dcmd ?m \<in> ioctl_code ioc_bsd ` set ioctl_cases"
    unfolding raw_example_sel(2) by (rule imageI) (simp add: ioctl_cases_def)
  ultimately show ?thesis
    using devctl_refused [OF ioc_bsd_ok raw_example_sel(1), of GPIO_V2_GET_LINE_IOCTL] raw_example_sel(2) by simp
qed

end
