(* ===== verification/Locks.thy ===== *)
theory Locks
  imports Prelude
begin

text \<open>
  Sections under a lock, at the grain of single memory accesses. The other theories let an operation that holds
  a lock run as one step. Here its accesses are steps of their own, of any number of threads in any
  order; none of them looks at who holds the lock. The locale \<open>critical_section\<close> states what the code between
  locking and unlocking has to do when nothing interferes, and its lemmas conclude that the lock makes every
  interleaving equal to the operations one after the other. Taking the lock is one step, as the platform promises
  of it; accesses take effect in program order, which the barriers of its operations provide.
\<close>

section \<open>Threads at a lock\<close>

text \<open>A thread is away, waits for the lock, or is inside the section of an operation, with its local state there.\<close>

datatype ('op, 'l) lock_thread = Away | Asking 'op | Inside 'op 'l

record ('op, 'l, 's, 'r) locked =
  lk_owner :: "nat option"
  lk_shared :: 's
  lk_threads :: "nat \<Rightarrow> ('op, 'l) lock_thread"
  lk_log :: "(nat \<times> 'op \<times> 'r) list"

text \<open>
  The log has the operations that have left the section, the last one first, with their
  results. The lock may refuse a thread, which then returns without having been inside.
\<close>

inductive lock_step ::
  "('op \<Rightarrow> bool) \<Rightarrow> ('op \<Rightarrow> 'l) \<Rightarrow> ('l \<Rightarrow> 's \<Rightarrow> ('l \<times> 's) option) \<Rightarrow> ('l \<Rightarrow> 'r option) \<Rightarrow>
   ('op, 'l, 's, 'r) locked \<Rightarrow> ('op, 'l, 's, 'r) locked \<Rightarrow> bool" for ok first work ended where
  lock_call: "lk_threads c t = Away \<Longrightarrow> ok op \<Longrightarrow>
     lock_step ok first work ended c (c\<lparr> lk_threads := (lk_threads c)(t := Asking op) \<rparr>)"
| lock_refused: "lk_threads c t = Asking op \<Longrightarrow>
     lock_step ok first work ended c (c\<lparr> lk_threads := (lk_threads c)(t := Away) \<rparr>)"
| lock_acquire: "lk_threads c t = Asking op \<Longrightarrow> lk_owner c = None \<Longrightarrow>
     lock_step ok first work ended c
       (c\<lparr> lk_owner := Some t, lk_threads := (lk_threads c)(t := Inside op (first op)) \<rparr>)"
| lock_work: "lk_threads c t = Inside op l \<Longrightarrow> ended l = None \<Longrightarrow> work l (lk_shared c) = Some (l', s) \<Longrightarrow>
     lock_step ok first work ended c (c\<lparr> lk_shared := s, lk_threads := (lk_threads c)(t := Inside op l') \<rparr>)"
| lock_release: "lk_threads c t = Inside op l \<Longrightarrow> ended l = Some r \<Longrightarrow>
     lock_step ok first work ended c
       (c\<lparr> lk_owner := None, lk_threads := (lk_threads c)(t := Away), lk_log := (t, op, r) # lk_log c \<rparr>)"

text \<open>The same steps as a function of what happens to which thread, to run schedules.\<close>

datatype 'op lock_move = Call nat 'op | Refuse nat | Acquire nat | Work nat | Release nat

fun lock_do ::
  "('op \<Rightarrow> bool) \<Rightarrow> ('op \<Rightarrow> 'l) \<Rightarrow> ('l \<Rightarrow> 's \<Rightarrow> ('l \<times> 's) option) \<Rightarrow> ('l \<Rightarrow> 'r option) \<Rightarrow>
   'op lock_move \<Rightarrow> ('op, 'l, 's, 'r) locked \<Rightarrow> ('op, 'l, 's, 'r) locked option" where
  "lock_do ok first work ended (Call t op) c =
     (case lk_threads c t of
        Away \<Rightarrow> if ok op then Some (c\<lparr> lk_threads := (lk_threads c)(t := Asking op) \<rparr>) else None
      | _ \<Rightarrow> None)"
| "lock_do ok first work ended (Refuse t) c =
     (case lk_threads c t of Asking op \<Rightarrow> Some (c\<lparr> lk_threads := (lk_threads c)(t := Away) \<rparr>) | _ \<Rightarrow> None)"
| "lock_do ok first work ended (Acquire t) c =
     (case (lk_threads c t, lk_owner c) of
        (Asking op, None) \<Rightarrow> Some (c\<lparr> lk_owner := Some t, lk_threads := (lk_threads c)(t := Inside op (first op)) \<rparr>)
      | _ \<Rightarrow> None)"
| "lock_do ok first work ended (Work t) c =
     (case lk_threads c t of
        Inside op l \<Rightarrow>
          (case (ended l, work l (lk_shared c)) of
             (None, Some (l', s)) \<Rightarrow> Some (c\<lparr> lk_shared := s, lk_threads := (lk_threads c)(t := Inside op l') \<rparr>)
           | _ \<Rightarrow> None)
      | _ \<Rightarrow> None)"
| "lock_do ok first work ended (Release t) c =
     (case lk_threads c t of
        Inside op l \<Rightarrow>
          (case ended l of
             Some r \<Rightarrow> Some (c\<lparr> lk_owner := None, lk_threads := (lk_threads c)(t := Away), lk_log := (t, op, r) # lk_log c \<rparr>)
           | None \<Rightarrow> None)
      | _ \<Rightarrow> None)"

fun lock_dos where
  "lock_dos ok first work ended [] c = Some c"
| "lock_dos ok first work ended (m # ms) c = Option.bind (lock_do ok first work ended m c) (lock_dos ok first work ended ms)"

lemma lock_do_step: "lock_do ok first work ended m c = Some c' \<Longrightarrow> lock_step ok first work ended c c'"
  by (cases m) (auto split: lock_thread.splits option.splits if_splits
      intro: lock_call lock_refused lock_acquire lock_work [where ended = ended and work = work] lock_release)

abbreviation lock_steps where
  "lock_steps ok first work ended \<equiv> (lock_step ok first work ended)\<^sup>*\<^sup>*"

lemma lock_dos_steps: "lock_dos ok first work ended ms c = Some c' \<Longrightarrow> lock_steps ok first work ended c c'"
proof (induction ms arbitrary: c)
  case (Cons m ms)
  then obtain d where "lock_do ok first work ended m c = Some d" "lock_dos ok first work ended ms d = Some c'"
    by (auto simp: bind_eq_Some_conv)
  then show ?case using Cons.IH lock_do_step by (metis converse_rtranclp_into_rtranclp)
qed simp

definition unlocked :: "'s \<Rightarrow> ('op, 'l, 's, 'r) locked" where
  "unlocked s = \<lparr> lk_owner = None, lk_shared = s, lk_threads = (\<lambda>t. Away), lk_log = [] \<rparr>"

text \<open>The operations of a log one after the other, each as \<open>serial\<close> relates its states and result.\<close>

fun serial_run :: "('op \<Rightarrow> 's \<Rightarrow> 'r \<Rightarrow> 's \<Rightarrow> bool) \<Rightarrow> 's \<Rightarrow> (nat \<times> 'op \<times> 'r) list \<Rightarrow> 's \<Rightarrow> bool" where
  "serial_run serial s [] s' \<longleftrightarrow> s' = s"
| "serial_run serial s ((t, op, r) # log) s' \<longleftrightarrow> (\<exists>m. serial_run serial s log m \<and> serial op m r s')"

text \<open>The operations of a log, and their results, from the first on.\<close>

definition logged_ops :: "(nat \<times> 'op \<times> 'r) list \<Rightarrow> 'op list" where
  "logged_ops log = map (\<lambda>(t, op, r). op) (rev log)"

definition logged_results :: "(nat \<times> 'op \<times> 'r) list \<Rightarrow> 'r list" where
  "logged_results log = map (\<lambda>(t, op, r). r) (rev log)"

lemma logged_simps [simp]:
  "logged_ops [] = []" "logged_ops ((t, op, r) # log) = logged_ops log @ [op]"
  "logged_results [] = []" "logged_results ((t, op, r) # log) = logged_results log @ [r]"
  by (simp_all add: logged_ops_def logged_results_def)

section \<open>Critical sections\<close>

text \<open>
  \<open>sect op s l s'\<close>: the section of \<open>op\<close>, entered in the state \<open>s\<close>, is at the local state \<open>l\<close> and
  has made \<open>s'\<close> of it, all by itself. \<open>left\<close> bounds the accesses that are left.
\<close>

locale critical_section =
  fixes ok :: "'op \<Rightarrow> bool"
    and first :: "'op \<Rightarrow> 'l"
    and work :: "'l \<Rightarrow> 's \<Rightarrow> ('l \<times> 's) option"
    and ended :: "'l \<Rightarrow> 'r option"
    and good :: "'s \<Rightarrow> bool"
    and sect :: "'op \<Rightarrow> 's \<Rightarrow> 'l \<Rightarrow> 's \<Rightarrow> bool"
    and serial :: "'op \<Rightarrow> 's \<Rightarrow> 'r \<Rightarrow> 's \<Rightarrow> bool"
    and left :: "'op \<Rightarrow> 's \<Rightarrow> 'l \<Rightarrow> nat"
  assumes sect_first: "good s \<Longrightarrow> ok op \<Longrightarrow> sect op s (first op) s"
    and sect_work: "good s \<Longrightarrow> ok op \<Longrightarrow> sect op s l s' \<Longrightarrow> ended l = None \<Longrightarrow>
      \<exists>l' s''. work l s' = Some (l', s'') \<and> sect op s l' s'' \<and> left op s l' < left op s l"
    and sect_end: "good s \<Longrightarrow> ok op \<Longrightarrow> sect op s l s' \<Longrightarrow> ended l = Some r \<Longrightarrow> serial op s r s' \<and> good s'"

text \<open>
  The invariant: exactly the owner is inside, and what it has done so far it has done to the state that the
  operations of the log made one after the other.
\<close>

definition locked_inv ::
  "('op \<Rightarrow> bool) \<Rightarrow> ('s \<Rightarrow> bool) \<Rightarrow> ('op \<Rightarrow> 's \<Rightarrow> 'l \<Rightarrow> 's \<Rightarrow> bool) \<Rightarrow> ('op \<Rightarrow> 's \<Rightarrow> 'r \<Rightarrow> 's \<Rightarrow> bool) \<Rightarrow> 's \<Rightarrow>
   ('op, 'l, 's, 'r) locked \<Rightarrow> bool" where
  "locked_inv ok good sect serial s0 c \<longleftrightarrow>
     (\<forall>t op. lk_threads c t = Asking op \<longrightarrow> ok op) \<and>
     (\<forall>t op l. lk_threads c t = Inside op l \<longrightarrow> ok op \<and> lk_owner c = Some t) \<and>
     list_all ok (logged_ops (lk_log c)) \<and>
     (\<exists>s. serial_run serial s0 (lk_log c) s \<and> good s \<and>
        (case lk_owner c of
           None \<Rightarrow> lk_shared c = s
         | Some t \<Rightarrow> \<exists>op l. lk_threads c t = Inside op l \<and> sect op s l (lk_shared c)))"

lemma locked_invI:
  assumes "\<And>t op. lk_threads c t = Asking op \<Longrightarrow> ok op"
    and "\<And>t op l. lk_threads c t = Inside op l \<Longrightarrow> ok op \<and> lk_owner c = Some t"
    and "list_all ok (logged_ops (lk_log c))"
    and "serial_run serial s0 (lk_log c) s" and "good s"
    and "lk_owner c = None \<Longrightarrow> lk_shared c = s"
    and "\<And>t. lk_owner c = Some t \<Longrightarrow> \<exists>op l. lk_threads c t = Inside op l \<and> sect op s l (lk_shared c)"
  shows "locked_inv ok good sect serial s0 c"
proof -
  have held: "case lk_owner c of None \<Rightarrow> lk_shared c = s
      | Some t \<Rightarrow> \<exists>op l. lk_threads c t = Inside op l \<and> sect op s l (lk_shared c)"
    using assms(6,7) by (cases "lk_owner c") simp_all
  show ?thesis
    unfolding locked_inv_def
    by (intro conjI allI impI exI [of _ s] held assms(3,4,5))
      (erule assms(1) assms(2) [THEN conjunct1] assms(2) [THEN conjunct2])+
qed

context critical_section
begin

abbreviation "linv \<equiv> locked_inv ok good sect serial"

lemma linv_step:
  assumes "lock_step ok first work ended c c'" and "linv s0 c"
  shows "linv s0 c'"
proof -
  from assms(2) obtain s where asking: "\<And>t op. lk_threads c t = Asking op \<Longrightarrow> ok op"
    and inside: "\<And>t op l. lk_threads c t = Inside op l \<Longrightarrow> ok op \<and> lk_owner c = Some t"
    and s: "list_all ok (logged_ops (lk_log c))" "serial_run serial s0 (lk_log c) s" "good s"
    and free: "lk_owner c = None \<Longrightarrow> lk_shared c = s"
    and held: "\<And>t. lk_owner c = Some t \<Longrightarrow> \<exists>op l. lk_threads c t = Inside op l \<and> sect op s l (lk_shared c)"
    unfolding locked_inv_def by (force split: option.splits)
  from assms(1) show ?thesis
  proof cases
    case (lock_call t op)
    show ?thesis unfolding lock_call(1)
      by (rule locked_invI [where s = s])
        (use lock_call(2,3) s in \<open>auto split: if_splits dest: asking inside free held\<close>)
  next
    case (lock_refused t op)
    show ?thesis unfolding lock_refused(1)
      by (rule locked_invI [where s = s])
        (use lock_refused(2) s in \<open>auto split: if_splits dest: asking inside free held\<close>)
  next
    case (lock_acquire t op)
    then show ?thesis using asking inside s free sect_first [OF s(3), of op]
      by (intro locked_invI [where s = s]) (auto split: if_splits)
  next
    case (lock_work t op l l' s')
    from inside [OF lock_work(2)] held have own: "ok op" "lk_owner c = Some t" "sect op s l (lk_shared c)"
      using lock_work(2) by auto
    from sect_work [OF s(3) own(1,3) lock_work(3)] lock_work(4) have "sect op s l' s'" by auto
    then show ?thesis using lock_work(1) asking inside s own
      by (intro locked_invI [where s = s]) (auto split: if_splits)
  next
    case (lock_release t op l r)
    from inside [OF lock_release(2)] held have own: "ok op" "lk_owner c = Some t" "sect op s l (lk_shared c)"
      using lock_release(2) by auto
    have others: "lk_threads c u \<noteq> Inside o' k" if "u \<noteq> t" for u o' k using inside own(2) that by fastforce
    from sect_end [OF s(3) own(1,3) lock_release(3)] have "serial op s r (lk_shared c)" "good (lk_shared c)" by auto
    then show ?thesis using lock_release(1) asking others s own(1)
      by (intro locked_invI [where s = "lk_shared c"]) (auto split: if_splits)
  qed
qed

lemma linv_steps: "lock_steps ok first work ended c c' \<Longrightarrow> linv s0 c \<Longrightarrow> linv s0 c'"
  by (induction rule: rtranclp_induct) (auto intro: linv_step)

lemma linv_unlocked: "good s \<Longrightarrow> linv s (unlocked s)"
  by (simp add: locked_inv_def unlocked_def)

lemma linv_reachable: "good s \<Longrightarrow> lock_steps ok first work ended (unlocked s) c \<Longrightarrow> linv s c"
  by (rule linv_steps [OF _ linv_unlocked])

text \<open>Mutual exclusion, and the equivalence to the operations of the log one after the other.\<close>

lemma exclusive: "linv s0 c \<Longrightarrow> lk_threads c t = Inside op l \<Longrightarrow> lk_threads c u = Inside op' l' \<Longrightarrow> t = u"
  unfolding locked_inv_def by (metis option.inject)

lemma serializable:
  assumes "linv s0 c"
  shows "list_all ok (logged_ops (lk_log c)) \<and>
     (\<exists>s. serial_run serial s0 (lk_log c) s \<and> good s \<and> (lk_owner c = None \<longrightarrow> lk_shared c = s))"
  using assms unfolding locked_inv_def by (force split: option.splits)

lemma can_work:
  assumes "linv s0 c" and "lk_threads c t = Inside op l"
  shows "ended l \<noteq> None \<or> work l (lk_shared c) \<noteq> None"
proof -
  from assms obtain s where "good s" "ok op" "sect op s l (lk_shared c)"
    unfolding locked_inv_def by (fastforce split: option.splits)
  from sect_work [OF this] show ?thesis by auto
qed

text \<open>A thread inside can go on, and leaves after boundedly many of its own steps.\<close>

lemma section_ends:
  assumes "linv s0 c" and "lk_threads c t = Inside op l"
  shows "\<exists>c' r. lock_steps ok first work ended c c' \<and> lk_owner c' = None \<and> lk_log c' = (t, op, r) # lk_log c \<and>
           lk_threads c' = (lk_threads c)(t := Away)"
proof -
  from assms obtain s where s: "good s" "ok op" "sect op s l (lk_shared c)"
    unfolding locked_inv_def by (fastforce split: option.splits)
  then show ?thesis using assms(2)
  proof (induction "left op s l" arbitrary: c l rule: less_induct)
    case less
    show ?case
    proof (cases "ended l")
      case (Some r)
      show ?thesis using lock_release [of c t op l ended r ok first work, OF less.prems(4) Some]
        by (intro exI [of _ "c\<lparr> lk_owner := None, lk_threads := (lk_threads c)(t := Away), lk_log := (t, op, r) # lk_log c \<rparr>"]
            exI [of _ r]) auto
    next
      case None
      then obtain l' s' where w: "work l (lk_shared c) = Some (l', s')" "sect op s l' s'" "left op s l' < left op s l"
        using sect_work less.prems by blast
      let ?c = "c\<lparr> lk_shared := s', lk_threads := (lk_threads c)(t := Inside op l') \<rparr>"
      have step: "lock_step ok first work ended c ?c" by (rule lock_work [where ended = ended and work = work, OF less.prems(4) None w(1)])
      have "\<exists>c' r. lock_steps ok first work ended ?c c' \<and> lk_owner c' = None \<and> lk_log c' = (t, op, r) # lk_log ?c \<and>
           lk_threads c' = (lk_threads ?c)(t := Away)"
        by (rule less.hyps [OF w(3)]) (use less.prems(1,2) w(2) in simp_all)
      then show ?thesis using converse_rtranclp_into_rtranclp [of "lock_step ok first work ended", OF step] by auto
    qed
  qed
qed

text \<open>So from every state the lock can become free, and then every thread that asks for it can be served.\<close>

lemma asking_served:
  assumes "linv s0 c" and "lk_threads c t = Asking op"
  shows "\<exists>c' r log. lock_steps ok first work ended c c' \<and> lk_owner c' = None \<and> lk_log c' = (t, op, r) # log \<and>
           lk_threads c' t = Away"
proof -
  have free: "\<exists>c'. lock_steps ok first work ended c c' \<and> lk_owner c' = None \<and> lk_threads c' t = Asking op"
  proof (cases "lk_owner c")
    case None
    then show ?thesis using assms(2) by blast
  next
    case (Some u)
    then obtain o' l where u: "lk_threads c u = Inside o' l" using assms(1) unfolding locked_inv_def by auto
    from section_ends [OF assms(1) u] u assms(2) show ?thesis by (metis fun_upd_other lock_thread.distinct(5))
  qed
  then obtain m where m: "lock_steps ok first work ended c m" "lk_owner m = None" "lk_threads m t = Asking op" by blast
  let ?m = "m\<lparr> lk_owner := Some t, lk_threads := (lk_threads m)(t := Inside op (first op)) \<rparr>"
  have step: "lock_step ok first work ended m ?m" by (rule lock_acquire [OF m(3,2)])
  have "linv s0 ?m" by (rule linv_step [OF step linv_steps [OF m(1) assms(1)]])
  from section_ends [OF this, of t op "first op"] obtain c' r where
    c': "lock_steps ok first work ended ?m c'" "lk_owner c' = None" "lk_log c' = (t, op, r) # lk_log ?m"
      "lk_threads c' = (lk_threads ?m)(t := Away)" by auto
  from m(1) step c'(1) have "lock_steps ok first work ended c c'" by (metis rtranclp.rtrancl_into_rtrancl rtranclp_trans)
  then show ?thesis using c'(2,3,4) by auto
qed

end

end
