(* ===== verification/Fifo_Threads.thy ===== *)
theory Fifo_Threads
  imports Fifo Locks
begin

text \<open>
  \<^verbatim>\<open>fifo_put\<close> and \<^verbatim>\<open>fifo_get\<close> of \<^verbatim>\<open>utils/fifo/fifo.c\<close> as sequences of single accesses to the shared structure: each
  byte that \<^verbatim>\<open>memcpy\<close> moves, each load and each store of an index or the count is a step of its
  own. The theory interprets \<open>critical_section\<close> on them: in every interleaving of any number of threads the
  spin lock makes the calls behave like the atomic ones of \<^theory_text>\<open>Fifo\<close>.
\<close>

section \<open>The accesses between lock and unlock\<close>

text \<open>
  A place in the code of the section. \<open>Put_byte k\<close>, \<open>Get_byte k\<close>: \<^verbatim>\<open>memcpy\<close> is about to move byte \<open>k\<close>.
  An increment in place is a load and a store.
\<close>

datatype fifo_pc =
    Put_full
  | Put_addr
  | Put_byte nat
  | Tail_load
  | Tail_store
  | Inc_load
  | Inc_store
  | Put_unlock rc
  | Get_empty
  | Get_addr
  | Get_byte nat
  | Head_load
  | Head_store
  | Dec_load
  | Dec_store
  | Get_unlock rc

text \<open>What is private to a call: its place, its element buffer, and the register that a load fills.\<close>

record fifo_local =
  fl_pc :: fifo_pc
  fl_elem :: "u8 list"
  fl_reg :: size_t

fun fifo_first :: "u8 list \<Rightarrow> u8 list queue_op \<Rightarrow> fifo_local" where
  "fifo_first buf (Put e) = \<lparr> fl_pc = Put_full, fl_elem = e, fl_reg = 0 \<rparr>"
| "fifo_first buf Get = \<lparr> fl_pc = Get_empty, fl_elem = buf, fl_reg = 0 \<rparr>"

definition goes :: "fifo_local \<Rightarrow> fifo_pc \<Rightarrow> fifo \<Rightarrow> (fifo_local \<times> fifo) option" where
  "goes l pc f = Some (l\<lparr> fl_pc := pc \<rparr>, f)"

definition loads :: "fifo_local \<Rightarrow> fifo_pc \<Rightarrow> size_t \<Rightarrow> fifo \<Rightarrow> (fifo_local \<times> fifo) option" where
  "loads l pc v f = Some (l\<lparr> fl_pc := pc, fl_reg := v \<rparr>, f)"

text \<open>The next access; \<open>None\<close> is undefined behaviour.\<close>

definition fifo_work :: "fifo_local \<Rightarrow> fifo \<Rightarrow> (fifo_local \<times> fifo) option" where
  "fifo_work l f =
     (case fl_pc l of
        Put_full \<Rightarrow>
          (let (rc, full) = fifo_full (Some f) (Some False)
           in if rc \<noteq> EOK then goes l (Put_unlock rc) f
           else if full = Some True then goes l (Put_unlock ENOMEM) f
           else goes l Put_addr f)
      | Put_addr \<Rightarrow> loads l (Put_byte 0) (fifo_elem_addr f (fifo_tail f)) f
      | Put_byte k \<Rightarrow>
          if k < unat (fifo_elem_size f) then do {
            b \<leftarrow> arr_get (fl_elem l) k;
            d \<leftarrow> arr_set (fifo_data f) (unat (fl_reg l) + k) b;
            goes l (Put_byte (Suc k)) (f\<lparr> fifo_data := d \<rparr>)
          }
          else goes l Tail_load f
      | Tail_load \<Rightarrow> loads l Tail_store (fifo_tail f) f
      | Tail_store \<Rightarrow>
          if fifo_capacity f = 0 then None
          else goes l Inc_load (f\<lparr> fifo_tail := (fl_reg l + 1) mod fifo_capacity f \<rparr>)
      | Inc_load \<Rightarrow> loads l Inc_store (fifo_count f) f
      | Inc_store \<Rightarrow> goes l (Put_unlock EOK) (f\<lparr> fifo_count := fl_reg l + 1 \<rparr>)
      | Put_unlock rc \<Rightarrow> None
      | Get_empty \<Rightarrow>
          (let (rc, emptyp) = fifo_empty (Some f) (Some False)
           in if rc \<noteq> EOK then goes l (Get_unlock rc) f
           else if emptyp = Some True then goes l (Get_unlock ENOENT) f
           else goes l Get_addr f)
      | Get_addr \<Rightarrow> loads l (Get_byte 0) (fifo_elem_addr f (fifo_head f)) f
      | Get_byte k \<Rightarrow>
          if k < unat (fifo_elem_size f) then do {
            b \<leftarrow> arr_get (fifo_data f) (unat (fl_reg l) + k);
            e \<leftarrow> arr_set (fl_elem l) k b;
            goes (l\<lparr> fl_elem := e \<rparr>) (Get_byte (Suc k)) f
          }
          else goes l Head_load f
      | Head_load \<Rightarrow> loads l Head_store (fifo_head f) f
      | Head_store \<Rightarrow>
          if fifo_capacity f = 0 then None
          else goes l Dec_load (f\<lparr> fifo_head := (fl_reg l + 1) mod fifo_capacity f \<rparr>)
      | Dec_load \<Rightarrow> loads l Dec_store (fifo_count f) f
      | Dec_store \<Rightarrow> goes l (Get_unlock EOK) (f\<lparr> fifo_count := fl_reg l - 1 \<rparr>)
      | Get_unlock rc \<Rightarrow> None)"

text \<open>At the label \<^verbatim>\<open>exit\<close>: what the call will answer, and the element it hands out.\<close>

definition fifo_ended :: "fifo_local \<Rightarrow> (rc \<times> u8 list option) option" where
  "fifo_ended l =
     (case fl_pc l of
        Put_unlock rc \<Rightarrow> Some (rc, None)
      | Get_unlock rc \<Rightarrow> Some (rc, if rc = EOK then Some (fl_elem l) else None)
      | _ \<Rightarrow> None)"

section \<open>What a section has done\<close>

text \<open>\<open>blit d k e\<close> is the array \<open>d\<close> with the bytes \<open>e\<close> from \<open>k\<close> on.\<close>

definition blit :: "u8 list \<Rightarrow> nat \<Rightarrow> u8 list \<Rightarrow> u8 list" where
  "blit d k e = take k d @ e @ drop (k + length e) d"

definition tail_addr :: "fifo \<Rightarrow> nat" where
  "tail_addr f = unat (fifo_elem_size f) * unat (fifo_tail f)"

definition head_addr :: "fifo \<Rightarrow> nat" where
  "head_addr f = unat (fifo_elem_size f) * unat (fifo_head f)"

text \<open>The state and the local state at each place, from the state \<open>f\<close> at the time of the lock.\<close>

definition put_sect :: "u8 list \<Rightarrow> fifo \<Rightarrow> fifo_local \<Rightarrow> fifo \<Rightarrow> bool" where
  "put_sect e f l f' \<longleftrightarrow> fl_elem l = e \<and>
     (let d = fifo_data f; full = f\<lparr> fifo_data := blit d (tail_addr f) e \<rparr>;
          next = (fifo_tail f + 1) mod fifo_capacity f
      in case fl_pc l of
           Put_full \<Rightarrow> f' = f
         | Put_unlock rc \<Rightarrow>
             rc = ENOMEM \<and> fifo_count f = fifo_capacity f \<and> f' = f \<or>
             rc = EOK \<and> fifo_count f \<noteq> fifo_capacity f \<and> f' = full\<lparr> fifo_tail := next, fifo_count := fifo_count f + 1 \<rparr>
         | pc \<Rightarrow> fifo_count f \<noteq> fifo_capacity f \<and>
             (case pc of
                Put_addr \<Rightarrow> f' = f
              | Put_byte k \<Rightarrow> k \<le> fifo_width f \<and> unat (fl_reg l) = tail_addr f \<and>
                  f' = f\<lparr> fifo_data := blit d (tail_addr f) (take k e) \<rparr>
              | Tail_load \<Rightarrow> f' = full
              | Tail_store \<Rightarrow> f' = full \<and> fl_reg l = fifo_tail f
              | Inc_load \<Rightarrow> f' = full\<lparr> fifo_tail := next \<rparr>
              | Inc_store \<Rightarrow> f' = full\<lparr> fifo_tail := next \<rparr> \<and> fl_reg l = fifo_count f
              | _ \<Rightarrow> False))"

definition get_sect :: "u8 list \<Rightarrow> fifo \<Rightarrow> fifo_local \<Rightarrow> fifo \<Rightarrow> bool" where
  "get_sect buf f l f' \<longleftrightarrow>
     (let e = take (fifo_width f) (drop (head_addr f) (fifo_data f));
          next = (fifo_head f + 1) mod fifo_capacity f
      in case fl_pc l of
           Get_empty \<Rightarrow> f' = f \<and> fl_elem l = buf
         | Get_unlock rc \<Rightarrow>
             rc = ENOENT \<and> fifo_count f = 0 \<and> f' = f \<and> fl_elem l = buf \<or>
             rc = EOK \<and> fifo_count f \<noteq> 0 \<and> f' = f\<lparr> fifo_head := next, fifo_count := fifo_count f - 1 \<rparr> \<and> fl_elem l = e
         | pc \<Rightarrow> fifo_count f \<noteq> 0 \<and>
             (case pc of
                Get_addr \<Rightarrow> f' = f \<and> fl_elem l = buf
              | Get_byte k \<Rightarrow> k \<le> fifo_width f \<and> unat (fl_reg l) = head_addr f \<and> f' = f \<and>
                  fl_elem l = take k e @ drop k buf
              | Head_load \<Rightarrow> f' = f \<and> fl_elem l = e
              | Head_store \<Rightarrow> f' = f \<and> fl_reg l = fifo_head f \<and> fl_elem l = e
              | Dec_load \<Rightarrow> f' = f\<lparr> fifo_head := next \<rparr> \<and> fl_elem l = e
              | Dec_store \<Rightarrow> f' = f\<lparr> fifo_head := next \<rparr> \<and> fl_reg l = fifo_count f \<and> fl_elem l = e
              | _ \<Rightarrow> False))"

fun fifo_sect :: "u8 list \<Rightarrow> u8 list queue_op \<Rightarrow> fifo \<Rightarrow> fifo_local \<Rightarrow> fifo \<Rightarrow> bool" where
  "fifo_sect buf (Put e) f l f' \<longleftrightarrow> put_sect e f l f'"
| "fifo_sect buf Get f l f' \<longleftrightarrow> get_sect buf f l f'"

text \<open>The accesses that are left.\<close>

definition fifo_left :: "fifo \<Rightarrow> fifo_local \<Rightarrow> nat" where
  "fifo_left f l =
     (case fl_pc l of
        Put_full \<Rightarrow> fifo_width f + 7
      | Put_addr \<Rightarrow> fifo_width f + 6
      | Put_byte k \<Rightarrow> fifo_width f - k + 5
      | Tail_load \<Rightarrow> 4
      | Tail_store \<Rightarrow> 3
      | Inc_load \<Rightarrow> 2
      | Inc_store \<Rightarrow> 1
      | Put_unlock rc \<Rightarrow> 0
      | Get_empty \<Rightarrow> fifo_width f + 7
      | Get_addr \<Rightarrow> fifo_width f + 6
      | Get_byte k \<Rightarrow> fifo_width f - k + 5
      | Head_load \<Rightarrow> 4
      | Head_store \<Rightarrow> 3
      | Dec_load \<Rightarrow> 2
      | Dec_store \<Rightarrow> 1
      | Get_unlock rc \<Rightarrow> 0)"

lemma blit_Nil [simp]: "blit d k [] = d"
  by (simp add: blit_def)

lemma length_blit [simp]: "k + length e \<le> length d \<Longrightarrow> length (blit d k e) = length d"
  by (simp add: blit_def)

lemma blit_step:
  assumes "n < length e" and "k + length e \<le> length d"
  shows "(blit d k (take n e))[k + n := e ! n] = blit d k (take (Suc n) e)"
proof -
  have "drop (k + n) d = d ! (k + n) # drop (Suc (k + n)) d" using assms by (intro Cons_nth_drop_Suc [symmetric]) simp
  then show ?thesis using assms by (simp add: blit_def list_update_append take_Suc_conv_app_nth)
qed

lemma put_addr:
  assumes "fifo_inv f" and "fifo_count f \<noteq> fifo_capacity f"
  shows "unat (fifo_elem_addr f (fifo_tail f)) = tail_addr f" and "tail_addr f + fifo_width f \<le> length (fifo_data f)"
    and "fifo_capacity f \<noteq> 0"
  using slot_bound [OF assms(1) fifo_tail_less(1) [OF assms]] fifo_tail_less(2) [OF assms]
  by (simp_all add: tail_addr_def fifo_width_def)

lemma head_less:
  assumes "fifo_inv f" and "fifo_count f \<noteq> 0"
  shows "fifo_capacity f \<noteq> 0" and "unat (fifo_head f) < unat (fifo_capacity f)"
proof -
  have "0 < unat (fifo_count f)" using assms(2) by (simp add: unat_gt_0)
  then show c: "fifo_capacity f \<noteq> 0" using assms(1) by (auto simp: fifo_inv_def)
  show "unat (fifo_head f) < unat (fifo_capacity f)" using assms(1) c by (simp add: fifo_inv_def)
qed

lemma get_addr:
  assumes "fifo_inv f" and "fifo_count f \<noteq> 0"
  shows "unat (fifo_elem_addr f (fifo_head f)) = head_addr f" and "head_addr f + fifo_width f \<le> length (fifo_data f)"
  using slot_bound [OF assms(1) head_less(2) [OF assms]] by (simp_all add: head_addr_def fifo_width_def)

lemmas work_defs = fifo_work_def goes_def loads_def fifo_left_def fifo_ended_def

lemma put_work:
  assumes "fifo_inv f" and "length e = fifo_width f" and "put_sect e f l f'" and "fifo_ended l = None"
  shows "\<exists>l' f''. fifo_work l f' = Some (l', f'') \<and> put_sect e f l' f'' \<and> fifo_left f l' < fifo_left f l"
proof (cases "fl_pc l")
  case (Put_byte k)
  then have s: "fl_elem l = e" "fifo_count f \<noteq> fifo_capacity f" "k \<le> fifo_width f" "unat (fl_reg l) = tail_addr f"
    "f' = f\<lparr> fifo_data := blit (fifo_data f) (tail_addr f) (take k e) \<rparr>"
    using assms(3) by (simp_all add: put_sect_def Let_def)
  note a = put_addr [OF assms(1) s(2)]
  show ?thesis
  proof (cases "k < fifo_width f")
    case True
    then have "(blit (fifo_data f) (tail_addr f) (take k e))[tail_addr f + k := e ! k] =
        blit (fifo_data f) (tail_addr f) (take (Suc k) e)" using a(2) assms(2) by (intro blit_step) simp_all
    moreover have "length (blit (fifo_data f) (tail_addr f) (take k e)) = length (fifo_data f)"
      using a(2) assms(2) True by simp
    ultimately show ?thesis
      using s True Put_byte a(2) assms(2)
      by (simp add: work_defs put_sect_def Let_def fifo_width_def [symmetric] arr_get_def arr_set_def)
  next
    case False
    then show ?thesis using s Put_byte assms(2) by (simp add: work_defs put_sect_def Let_def fifo_width_def)
  qed
qed (use assms put_addr [OF assms(1)] in \<open>auto simp: work_defs put_sect_def Let_def fifo_width_def\<close>)

lemma get_work:
  assumes "fifo_inv f" and "length buf = fifo_width f" and "get_sect buf f l f'" and "fifo_ended l = None"
  shows "\<exists>l' f''. fifo_work l f' = Some (l', f'') \<and> get_sect buf f l' f'' \<and> fifo_left f l' < fifo_left f l"
proof (cases "fl_pc l")
  case (Get_byte k)
  let ?e = "take (fifo_width f) (drop (head_addr f) (fifo_data f))"
  from Get_byte have s: "fifo_count f \<noteq> 0" "k \<le> fifo_width f" "unat (fl_reg l) = head_addr f" "f' = f"
      "fl_elem l = take k ?e @ drop k buf"
    using assms(3) by (simp_all add: get_sect_def Let_def)
  note a = get_addr [OF assms(1) s(1)]
  have len: "length ?e = fifo_width f" using a(2) by simp
  show ?thesis
  proof (cases "k < fifo_width f")
    case True
    then have "(take k ?e @ drop k buf)[k := ?e ! k] = take (Suc k) ?e @ drop (Suc k) buf"
      using len assms(2) by (simp add: list_update_append take_Suc_conv_app_nth Cons_nth_drop_Suc [symmetric] del: take_take)
    then show ?thesis
      using s True Get_byte a(2) assms(2) len
      by (simp add: work_defs get_sect_def Let_def fifo_width_def arr_get_def arr_set_def)
  next
    case False
    then show ?thesis using s Get_byte assms(2) len by (simp add: work_defs get_sect_def Let_def fifo_width_def)
  qed
qed (use assms get_addr [OF assms(1)] head_less [OF assms(1)] in \<open>auto simp: work_defs get_sect_def Let_def fifo_width_def\<close>)

section \<open>The operations are critical sections\<close>

definition fifo_op_ok :: "nat \<Rightarrow> u8 list queue_op \<Rightarrow> bool" where
  "fifo_op_ok w op \<longleftrightarrow> (case op of Put e \<Rightarrow> length e = w | Get \<Rightarrow> True)"

definition fifo_good :: "nat \<Rightarrow> fifo \<Rightarrow> bool" where
  "fifo_good w f \<longleftrightarrow> fifo_inv f \<and> fifo_width f = w"

text \<open>One call of the code, as \<^theory_text>\<open>Fifo\<close> has it: with a lock that works it gives this result and this state.\<close>

definition fifo_serial :: "u8 list \<Rightarrow> u8 list queue_op \<Rightarrow> fifo \<Rightarrow> rc \<times> u8 list option \<Rightarrow> fifo \<Rightarrow> bool" where
  "fifo_serial buf op f r f' \<longleftrightarrow>
     (\<forall>env h. locks_ok env \<longrightarrow> (\<exists>h'. queue_run fifo_put fifo_get env buf f [op] h = Some ([r], f', h')))"

lemma serial_put:
  assumes "\<And>env h. locks_ok env \<Longrightarrow> \<exists>h'. fifo_put env f e h = Some (rc, f', h')"
  shows "fifo_serial buf (Put e) f (rc, None) f'"
  unfolding fifo_serial_def
proof (intro allI impI)
  fix env h assume "locks_ok env"
  then obtain h' where "fifo_put env f e h = Some (rc, f', h')" using assms by blast
  then show "\<exists>h'. queue_run fifo_put fifo_get env buf f [Put e] h = Some ([(rc, None)], f', h')" by simp
qed

lemma serial_get:
  assumes "\<And>env h. locks_ok env \<Longrightarrow> \<exists>h'. fifo_get env f buf h = Some (rc, f', e, h')"
  shows "fifo_serial buf Get f (rc, if rc = EOK then Some e else None) f'"
  unfolding fifo_serial_def
proof (intro allI impI)
  fix env h assume "locks_ok env"
  then obtain h' where "fifo_get env f buf h = Some (rc, f', e, h')" using assms by blast
  then show "\<exists>h'. queue_run fifo_put fifo_get env buf f [Get] h = Some ([(rc, if rc = EOK then Some e else None)], f', h')"
    by simp
qed

lemma put_end:
  assumes "fifo_inv f" and "length e = fifo_width f" and "put_sect e f l f'" and "fifo_ended l = Some r"
  shows "fifo_serial buf (Put e) f r f' \<and> fifo_inv f' \<and> fifo_width f' = fifo_width f"
proof -
  from assms(3,4) consider "r = (ENOMEM, None)" "fifo_count f = fifo_capacity f" "f' = f"
    | "r = (EOK, None)" "fifo_count f \<noteq> fifo_capacity f"
      "f' = f\<lparr> fifo_data := blit (fifo_data f) (tail_addr f) e, fifo_tail := (fifo_tail f + 1) mod fifo_capacity f,
         fifo_count := fifo_count f + 1 \<rparr>"
    by (auto simp: fifo_ended_def put_sect_def Let_def split: fifo_pc.splits)
  then show ?thesis
  proof cases
    case 1
    have "fifo_serial buf (Put e) f (ENOMEM, None) f"
      by (rule serial_put) (use fifo_put_full [OF locks_okD 1(2)] in blast)
    then show ?thesis using 1 assms(1) by simp
  next
    case 2
    have f': "f' = fifo_store f e"
      using 2(3) assms(2) by (simp add: fifo_store_def blit_def tail_addr_def fifo_width_def)
    have "fifo_serial buf (Put e) f (EOK, None) (fifo_store f e)"
      by (rule serial_put) (use fifo_put_store [OF locks_okD assms(1) 2(2) assms(2)] in blast)
    then show ?thesis using fifo_store_inv [OF assms(1) 2(2) assms(2)] 2(1) f' by simp
  qed
qed

lemma fifo_front:
  assumes "fifo_inv f" and "fifo_count f \<noteq> 0"
  shows "hd (fifo_elems f) = take (fifo_width f) (drop (head_addr f) (fifo_data f))"
proof -
  have "0 < unat (fifo_count f)" using assms(2) by (simp add: unat_gt_0)
  then have "hd (fifo_elems f) = fifo_slot f (unat (fifo_head f) mod unat (fifo_capacity f))"
    by (simp add: fifo_elems_def hd_map)
  then show ?thesis using head_less(2) [OF assms] by (simp add: fifo_slot_def fifo_width_def head_addr_def)
qed

lemma get_end:
  assumes "fifo_inv f" and "length buf = fifo_width f" and "get_sect buf f l f'" and "fifo_ended l = Some r"
  shows "fifo_serial buf Get f r f' \<and> fifo_inv f' \<and> fifo_width f' = fifo_width f"
proof -
  from assms(3,4) consider "r = (ENOENT, None)" "fifo_count f = 0" "f' = f"
    | "r = (EOK, Some (hd (fifo_elems f)))" "fifo_count f \<noteq> 0" "f' = fifo_drop f"
    using fifo_front [OF assms(1)]
    by (auto simp: fifo_ended_def get_sect_def Let_def fifo_drop_def split: fifo_pc.splits)
  then show ?thesis
  proof cases
    case 1
    have "fifo_serial buf Get f (ENOENT, if ENOENT = EOK then Some buf else None) f"
      by (rule serial_get) (use fifo_get_empty [OF locks_okD 1(2)] in blast)
    then show ?thesis using 1 assms(1) by simp
  next
    case 2
    have "fifo_serial buf Get f (EOK, if EOK = EOK then Some (hd (fifo_elems f)) else None) (fifo_drop f)"
      by (rule serial_get) (use fifo_get_drop [OF locks_okD assms(1) 2(2) assms(2)] in blast)
    then show ?thesis using fifo_drop_inv [OF assms(1) 2(2)] 2 by simp
  qed
qed

interpretation fifo_lock: critical_section "fifo_op_ok (length buf)" "fifo_first buf" fifo_work fifo_ended
    "fifo_good (length buf)" "fifo_sect buf" "fifo_serial buf" "\<lambda>op. fifo_left" for buf
proof
  fix s :: fifo and op :: "u8 list queue_op" and l s' r
  assume s: "fifo_good (length buf) s" and op: "fifo_op_ok (length buf) op"
  show "fifo_sect buf op s (fifo_first buf op) s"
    by (cases op) (simp_all add: put_sect_def get_sect_def)
  assume sect: "fifo_sect buf op s l s'"
  have inv: "fifo_inv s" "length buf = fifo_width s" using s by (simp_all add: fifo_good_def)
  show "\<exists>l' s''. fifo_work l s' = Some (l', s'') \<and> fifo_sect buf op s l' s'' \<and> fifo_left s l' < fifo_left s l"
    if "fifo_ended l = None"
  proof (cases op)
    case (Put e)
    then show ?thesis using op sect inv put_work [of s e l s'] that by (simp add: fifo_op_ok_def)
  next
    case Get
    then show ?thesis using sect inv get_work [of s buf l s'] that by simp
  qed
  show "fifo_serial buf op s r s' \<and> fifo_good (length buf) s'" if "fifo_ended l = Some r"
  proof (cases op)
    case (Put e)
    then show ?thesis using op sect inv put_end [of s e l s' r buf] that by (simp add: fifo_op_ok_def fifo_good_def)
  next
    case Get
    then show ?thesis using sect inv get_end [of s buf l s' r] that by (simp add: fifo_good_def)
  qed
qed

section \<open>Properties\<close>

lemma queue_run_append:
  assumes "queue_run put get env buf q xs h = Some (rs, q', h')" and "queue_run put get env buf q' ys h' = Some (rs', q'', h'')"
  shows "queue_run put get env buf q (xs @ ys) h = Some (rs @ rs', q'', h'')"
  using assms
proof (induction xs arbitrary: q h rs)
  case (Cons op xs)
  show ?case
  proof (cases op)
    case (Put e)
    then show ?thesis using Cons by (auto split: Option.bind_splits)
  next
    case Get
    then show ?thesis using Cons by (auto split: Option.bind_splits)
  qed
qed simp

lemma serial_queue_run:
  assumes "locks_ok env"
  shows "serial_run (fifo_serial buf) f log f' \<Longrightarrow>
     \<exists>h'. queue_run fifo_put fifo_get env buf f (logged_ops log) h = Some (logged_results log, f', h')"
proof (induction log arbitrary: f')
  case (Cons x log)
  obtain t op r where x: "x = (t, op, r)" by (cases x)
  from Cons.prems obtain m where m: "serial_run (fifo_serial buf) f log m" "fifo_serial buf op m r f'" by (auto simp: x)
  from Cons.IH [OF m(1)] obtain h1 where
    "queue_run fifo_put fifo_get env buf f (logged_ops log) h = Some (logged_results log, m, h1)" by blast
  moreover from m(2) assms obtain h2 where "queue_run fifo_put fifo_get env buf m [op] h1 = Some ([r], f', h2)"
    by (auto simp: fifo_serial_def)
  ultimately show ?case using queue_run_append by (fastforce simp: x)
qed simp

text \<open>A fifo that any number of threads use, from a state in which nobody does.\<close>

abbreviation fifo_runs where
  "fifo_runs buf f \<equiv> lock_steps (fifo_op_ok (length buf)) (fifo_first buf) fifo_work fifo_ended (unlocked f)"

lemma fifo_runs_inv:
  assumes "fifo_inv f" and "length buf = fifo_width f" and "fifo_runs buf f c"
  shows "locked_inv (fifo_op_ok (length buf)) (fifo_good (length buf)) (fifo_sect buf) (fifo_serial buf) f c"
  by (rule fifo_lock.linv_reachable [OF _ assms(3)]) (use assms(1,2) in \<open>simp add: fifo_good_def\<close>)

text \<open>
  C6: a fifo is a queue also for threads that interleave at every single access. Whatever the
  interleaving, the calls that have left the section have the results that \<^verbatim>\<open>fifo_put\<close> and \<^verbatim>\<open>fifo_get\<close> give one
  after the other, in the order of their sections, and these are the results of a list of at most
  \<open>capacity\<close> elements; when nobody holds the lock, the bytes of the structure are what these calls leave.
\<close>

theorem fifo_linearizable:
  assumes "fifo_inv f" and "length buf = fifo_width f" and "fifo_runs buf f c"
  shows "\<exists>f'. fifo_inv f' \<and>
     spec_run (fifo_cap f) (fifo_elems f) (logged_ops (lk_log c)) = (logged_results (lk_log c), fifo_elems f') \<and>
     (\<forall>env h. locks_ok env \<longrightarrow> (\<exists>h'. queue_run fifo_put fifo_get env buf f (logged_ops (lk_log c)) h =
        Some (logged_results (lk_log c), f', h'))) \<and>
     (lk_owner c = None \<longrightarrow> lk_shared c = f')"
proof -
  note ser = fifo_lock.serializable [OF fifo_runs_inv [OF assms]]
  from ser [THEN conjunct1] have ops: "list_all (fifo_op_ok (length buf)) (logged_ops (lk_log c))" .
  from ser [THEN conjunct2] obtain f' where "serial_run (fifo_serial buf) f (lk_log c) f' \<and> fifo_good (length buf) f' \<and>
      (lk_owner c = None \<longrightarrow> lk_shared c = f')" ..
  note f' = this [THEN conjunct1] this [THEN conjunct2, THEN conjunct1] this [THEN conjunct2, THEN conjunct2]
  have run: "\<exists>h'. queue_run fifo_put fifo_get env buf f (logged_ops (lk_log c)) h = Some (logged_results (lk_log c), f', h')"
    if "locks_ok env" for env h using serial_queue_run [OF that f'(1)] .
  have len: "length e = fifo_width f" if "Put e \<in> set (logged_ops (lk_log c))" for e
    using ops that assms(2) by (auto simp: list_all_iff fifo_op_ok_def)
  from fq.run_refines [OF assms(1,2) len locks_ok_env0, of "logged_ops (lk_log c)" "[]"] run [OF locks_ok_env0, of "[]"]
  have "fst (spec_run (fifo_cap f) (fifo_elems f) (logged_ops (lk_log c))) = logged_results (lk_log c)"
    "snd (spec_run (fifo_cap f) (fifo_elems f) (logged_ops (lk_log c))) = fifo_elems f'" by auto
  then have "spec_run (fifo_cap f) (fifo_elems f) (logged_ops (lk_log c)) = (logged_results (lk_log c), fifo_elems f')"
    by (simp add: prod_eq_iff)
  then show ?thesis using f'(2,3) run by (auto simp: fifo_good_def)
qed

text \<open>
  Nobody is locked out. In every interleaving at most one thread is between lock and unlock; it never
  makes an access outside the structure or its buffer, and from every state each thread that waits for the lock
  can still be served.
\<close>

theorem fifo_lock_free:
  assumes "fifo_inv f" and "length buf = fifo_width f" and "fifo_runs buf f c"
  shows "(\<forall>t op l. lk_threads c t = Inside op l \<longrightarrow>
        lk_owner c = Some t \<and> (fifo_ended l \<noteq> None \<or> fifo_work l (lk_shared c) \<noteq> None)) \<and>
     (\<forall>t op. lk_threads c t = Asking op \<longrightarrow>
        (\<exists>c' r log. fifo_runs buf f c' \<and> lk_owner c' = None \<and> lk_log c' = (t, op, r) # log \<and> lk_threads c' t = Away))"
proof (intro conjI allI impI)
  fix t op l assume t: "lk_threads c t = Inside op l"
  note inv = fifo_runs_inv [OF assms]
  show "lk_owner c = Some t" using inv t by (auto simp: locked_inv_def)
  show "fifo_ended l \<noteq> None \<or> fifo_work l (lk_shared c) \<noteq> None" using fifo_lock.can_work [OF inv t] by auto
next
  fix t op assume "lk_threads c t = Asking op"
  from fifo_lock.asking_served [OF fifo_runs_inv [OF assms] this] rtranclp_trans [OF assms(3)]
  show "\<exists>c' r log. fifo_runs buf f c' \<and> lk_owner c' = None \<and> lk_log c' = (t, op, r) # log \<and> lk_threads c' t = Away"
    by metis
qed

section \<open>Concrete inputs\<close>

text \<open>Two threads on the fifo of \<^theory_text>\<open>Fifo\<close>: one puts, the other asks for the lock in the middle of it and gets.\<close>

definition fifo_moves :: "u8 list queue_op lock_move list" where
  "fifo_moves = [Call 0 (Put [5]), Acquire 0, Work 0, Work 0, Call 1 Get, Work 0, Work 0, Work 0, Work 0, Work 0, Work 0,
     Release 0, Acquire 1, Work 1, Work 1, Work 1]"

definition fifo_reached :: "(u8 list queue_op, fifo_local, fifo, rc \<times> u8 list option) locked" where
  "fifo_reached = the (lock_dos (fifo_op_ok (length [0::u8])) (fifo_first [0]) fifo_work fifo_ended fifo_moves (unlocked fifo_example))"

lemma fifo_reached: "fifo_runs [0] fifo_example fifo_reached"
proof -
  have "lock_dos (fifo_op_ok (length [0::u8])) (fifo_first [0]) fifo_work fifo_ended fifo_moves (unlocked fifo_example) \<noteq> None"
    by code_simp
  then show ?thesis using lock_dos_steps by (fastforce simp: fifo_reached_def)
qed

lemma fifo_example_inv: "fifo_inv fifo_example" "length [0::u8] = fifo_width fifo_example"
  by (simp_all add: fifo_inv_def fifo_example_def fifo_width_def)

theorem fifo_linearizable_witness:
  "\<exists>f'. fifo_inv f' \<and> spec_run 2 [] [Put [5]] = ([(EOK, None)], fifo_elems f') \<and> lk_owner fifo_reached = Some 1"
proof -
  have "logged_ops (lk_log fifo_reached) = [Put [5]] \<and> logged_results (lk_log fifo_reached) = [(EOK, None)] \<and>
      lk_owner fifo_reached = Some 1" by code_simp
  then show ?thesis
    using fifo_linearizable [OF fifo_example_inv fifo_reached] by (auto simp: fifo_example_sel)
qed

theorem fifo_lock_free_witness:
  "\<exists>l. lk_threads fifo_reached 1 = Inside Get l \<and> (fifo_ended l \<noteq> None \<or> fifo_work l (lk_shared fifo_reached) \<noteq> None)"
proof -
  have "(case lk_threads fifo_reached 1 of Inside op l \<Rightarrow> op = Get | _ \<Rightarrow> False)" by code_simp
  then obtain l where "lk_threads fifo_reached 1 = Inside Get l" by (auto split: lock_thread.splits)
  then show ?thesis using fifo_lock_free [OF fifo_example_inv fifo_reached] by blast
qed

end
