(* ===== verification/Virtq_Threads.thy ===== *)
theory Virtq_Threads
  imports Virtq Locks
begin

text \<open>
  The part of \<^verbatim>\<open>virtq_put_desc_chain\<close> under the lock of the queue (\<^verbatim>\<open>virtio/virtq.c\<close>) as single accesses to the available
  ring, which several threads make and the device reads at any moment without the lock. The theory interprets
  \<open>critical_section\<close> on them and shows what the device can see in the middle of a submission. The links between
  the descriptors are stored before the lock is taken, in descriptors of the calling thread, and are no part of
  the state here.
\<close>

section \<open>Submitting, access by access\<close>

text \<open>The area that is shared with the device: \<^verbatim>\<open>avail->idx\<close> and \<^verbatim>\<open>avail->ring\<close>.\<close>

record avail_area =
  av_idx :: u16
  av_ring :: "u16 list"

definition area_of :: "virtq \<Rightarrow> avail_area" where
  "area_of q = \<lparr> av_idx = vq_avail_idx q, av_ring = vq_avail_ring q \<rparr>"

definition with_area :: "virtq \<Rightarrow> avail_area \<Rightarrow> virtq" where
  "with_area q a = q\<lparr> vq_avail_idx := av_idx a, vq_avail_ring := av_ring a \<rparr>"

text \<open>\<open>Idx_store\<close> and the store of the ring entry are separated by the fence.\<close>

datatype publish_pc = Ring_load | Ring_store | Ring_fence | Idx_load | Idx_store | Publish_unlock

record publish_local =
  pl_pc :: publish_pc
  pl_head :: u16
  pl_reg :: u16

definition publish_first :: "u16 \<Rightarrow> publish_local" where
  "publish_first i = \<lparr> pl_pc = Ring_load, pl_head = i, pl_reg = 0 \<rparr>"

definition publish_work :: "u16 \<Rightarrow> publish_local \<Rightarrow> avail_area \<Rightarrow> (publish_local \<times> avail_area) option" where
  "publish_work num l a =
     (case pl_pc l of
        Ring_load \<Rightarrow> Some (l\<lparr> pl_pc := Ring_store, pl_reg := av_idx a \<rparr>, a)
      | Ring_store \<Rightarrow>
          if num = 0 then None
          else do {
            ring \<leftarrow> arr_set (av_ring a) (unat (pl_reg l) mod unat num) (pl_head l);
            Some (l\<lparr> pl_pc := Ring_fence \<rparr>, a\<lparr> av_ring := ring \<rparr>)
          }
      | Ring_fence \<Rightarrow> Some (l\<lparr> pl_pc := Idx_load \<rparr>, a)
      | Idx_load \<Rightarrow> Some (l\<lparr> pl_pc := Idx_store, pl_reg := av_idx a \<rparr>, a)
      | Idx_store \<Rightarrow> Some (l\<lparr> pl_pc := Publish_unlock \<rparr>, a\<lparr> av_idx := pl_reg l + 1 \<rparr>)
      | Publish_unlock \<Rightarrow> None)"

definition publish_ended :: "publish_local \<Rightarrow> unit option" where
  "publish_ended l = (if pl_pc l = Publish_unlock then Some () else None)"

section \<open>The section\<close>

definition area_stored :: "u16 \<Rightarrow> avail_area \<Rightarrow> u16 \<Rightarrow> avail_area" where
  "area_stored num a i = a\<lparr> av_ring := (av_ring a)[unat (av_idx a) mod unat num := i] \<rparr>"

definition area_put :: "u16 \<Rightarrow> avail_area \<Rightarrow> u16 \<Rightarrow> avail_area" where
  "area_put num a i = (area_stored num a i)\<lparr> av_idx := av_idx a + 1 \<rparr>"

definition publish_sect :: "u16 \<Rightarrow> u16 \<Rightarrow> avail_area \<Rightarrow> publish_local \<Rightarrow> avail_area \<Rightarrow> bool" where
  "publish_sect num i a l a' \<longleftrightarrow> pl_head l = i \<and>
     (case pl_pc l of
        Ring_load \<Rightarrow> a' = a
      | Ring_store \<Rightarrow> a' = a \<and> pl_reg l = av_idx a
      | Ring_fence \<Rightarrow> a' = area_stored num a i
      | Idx_load \<Rightarrow> a' = area_stored num a i
      | Idx_store \<Rightarrow> a' = area_stored num a i \<and> pl_reg l = av_idx a
      | Publish_unlock \<Rightarrow> a' = area_put num a i)"

definition publish_left :: "publish_local \<Rightarrow> nat" where
  "publish_left l =
     (case pl_pc l of Ring_load \<Rightarrow> 5 | Ring_store \<Rightarrow> 4 | Ring_fence \<Rightarrow> 3 | Idx_load \<Rightarrow> 2 | Idx_store \<Rightarrow> 1 | Publish_unlock \<Rightarrow> 0)"

definition area_ok :: "u16 \<Rightarrow> avail_area \<Rightarrow> bool" where
  "area_ok num a \<longleftrightarrow> num \<noteq> 0 \<and> length (av_ring a) = unat num"

lemma slot_less: "area_ok num a \<Longrightarrow> unat i mod unat num < length (av_ring a)"
  by (simp add: area_ok_def unat_gt_0)

interpretation publish_lock: critical_section "\<lambda>i. True" publish_first "publish_work num" publish_ended "area_ok num"
    "publish_sect num" "\<lambda>i a r a'. a' = area_put num a i" "\<lambda>i a. publish_left" for num
proof
  fix a :: avail_area and i l a' r
  assume a: "area_ok num a"
  show "publish_sect num i a (publish_first i) a" by (simp add: publish_sect_def publish_first_def)
  assume sect: "publish_sect num i a l a'"
  show "\<exists>l' a''. publish_work num l a' = Some (l', a'') \<and> publish_sect num i a l' a'' \<and> publish_left l' < publish_left l"
    if "publish_ended l = None"
    using a sect that slot_less [OF a, of "av_idx a", THEN arr_set_Some]
    by (cases "pl_pc l")
      (auto simp: publish_sect_def publish_work_def publish_left_def publish_ended_def area_stored_def area_put_def area_ok_def)
  show "a' = area_put num a i \<and> area_ok num a'" if "publish_ended l = Some r"
    using a sect that
    by (auto simp: publish_sect_def publish_ended_def area_put_def area_stored_def area_ok_def split: if_splits)
qed

section \<open>What the device sees\<close>

text \<open>Publishing is what \<^verbatim>\<open>virtq_put_desc_chain\<close> does to the area.\<close>

lemma with_area_put: "with_area q (area_put (vq_num q) (area_of q) i) = virtq_put_post q (vq_desc q) i"
  by (simp add: with_area_def area_put_def area_stored_def area_of_def virtq_put_post_def)

lemma with_area_of [simp]: "with_area q (area_of q) = q"
  by (simp add: with_area_def area_of_def)

lemma with_area_with_area [simp]: "with_area (with_area q a) a' = with_area q a'"
  by (simp add: with_area_def)

lemma area_of_with_area [simp]: "area_of (with_area q a) = a" "vq_num (with_area q a) = vq_num q"
  by (simp_all add: with_area_def area_of_def)

lemma virtq_inv_with_area: "virtq_inv q \<Longrightarrow> area_ok (vq_num q) a \<Longrightarrow> virtq_inv (with_area q a)"
  by (simp add: virtq_inv_def area_ok_def with_area_def free_list_def split: option.splits)

lemma put_since:
  assumes "virtq_inv q" and "area_ok (vq_num q) a" and "unat (vq_num q) dvd 65536" and "unat (av_idx a - b) < unat (vq_num q)"
  shows "avail_since (with_area q (area_put (vq_num q) a i)) b = avail_since (with_area q a) b @ [i]"
proof -
  have "with_area q (area_put (vq_num q) a i) = virtq_put_post (with_area q a) (vq_desc (with_area q a)) i"
    using with_area_put [of "with_area q a" i] by simp
  moreover have "vq_avail_idx (with_area q a) = av_idx a" by (simp add: with_area_def)
  ultimately show ?thesis
    using avail_since_put_post [OF virtq_inv_with_area [OF assms(1,2)], of b "vq_desc (with_area q a)" i] assms(3,4) by simp
qed

text \<open>The entry that is stored before the index moves is outside of what the device reads.\<close>

lemma stored_since:
  assumes "area_ok (vq_num q) a" and "unat (vq_num q) dvd 65536" and "unat (av_idx a - b) < unat (vq_num q)"
  shows "avail_since (with_area q (area_stored (vq_num q) a i)) b = avail_since (with_area q a) b"
proof -
  let ?n = "unat (vq_num q)" and ?k = "unat (av_idx a - b)"
  have idx: "av_idx a = b + of_nat ?k" by simp
  have "unat (av_idx a) mod ?n = (unat b + ?k) mod ?n"
    by (subst idx) (rule ring_index [OF assms(2)])
  moreover have "(unat b + ?k) mod ?n \<noteq> (unat b + k) mod ?n" if "k < ?k" for k
    using ring_slot_inj [of k ?n ?k "unat b"] that assms(3) by auto
  ultimately show ?thesis by (simp add: avail_since_def with_area_def area_stored_def)
qed

lemma length_avail_with_area: "length (avail_since (with_area q a) b) = unat (av_idx a - b)"
  by (simp add: avail_since_def with_area_def)

lemma area_ok_of: "virtq_inv q \<Longrightarrow> area_ok (vq_num q) (area_of q)"
  by (simp add: virtq_inv_def area_ok_def area_of_def)

lemma serial_since:
  assumes "virtq_inv q" and "unat (vq_num q) dvd 65536"
  shows "serial_run (\<lambda>i a r a'. a' = area_put (vq_num q) a i) (area_of q) log a \<Longrightarrow>
     length (avail_since q b) + length log \<le> unat (vq_num q) \<Longrightarrow>
     area_ok (vq_num q) a \<and> avail_since (with_area q a) b = avail_since q b @ logged_ops log"
proof (induction log arbitrary: a)
  case Nil
  then show ?case using area_ok_of [OF assms(1)] by simp
next
  case (Cons x log)
  obtain t i r where x: "x = (t, i, r)" by (cases x)
  from Cons.prems(1) obtain m where m: "serial_run (\<lambda>i a r a'. a' = area_put (vq_num q) a i) (area_of q) log m"
      "a = area_put (vq_num q) m i" by (auto simp: x)
  from Cons.IH [OF m(1)] Cons.prems(2) have IH: "area_ok (vq_num q) m" "avail_since (with_area q m) b = avail_since q b @ logged_ops log"
    by simp_all
  have "length (logged_ops log) = length log" by (simp add: logged_ops_def)
  then have "unat (av_idx m - b) < unat (vq_num q)"
    using length_avail_with_area [of q m b] Cons.prems(2) unfolding IH(2) by simp
  from put_since [OF assms(1) IH(1) assms(2) this] IH m(2) show ?case
    by (simp add: x area_ok_def area_put_def area_stored_def)
qed

abbreviation publish_runs where
  "publish_runs q \<equiv> lock_steps (\<lambda>i. True) publish_first (publish_work (vq_num q)) publish_ended (unlocked (area_of q))"

text \<open>The head that the thread inside has made visible, if it has come that far.\<close>

definition stored_heads :: "(u16, publish_local, avail_area, unit) locked \<Rightarrow> u16 list" where
  "stored_heads c =
     (case lk_owner c of
        None \<Rightarrow> []
      | Some t \<Rightarrow>
          (case lk_threads c t of
             Inside i l \<Rightarrow> if publish_ended l = None then [] else [i]
           | _ \<Rightarrow> []))"

text \<open>
  C8: the device and the threads that submit. Let the device look at the available ring at any moment, between
  any two accesses of any number of threads that submit chains. From the index \<open>b\<close> up to which it has read before,
  it finds exactly the heads whose index has been stored, each once, in the order of the sections, in
  entries that are complete: an entry that is being written is never among them. The ring must not be overrun:
  at most \<open>num\<close> heads are submitted since \<open>b\<close>, the one under way included.
\<close>

theorem device_sees_published:
  assumes "virtq_inv q" and "unat (vq_num q) dvd 65536" and "publish_runs q c"
    and "length (avail_since q b) + length (lk_log c) < unat (vq_num q)"
  shows "avail_since (with_area q (lk_shared c)) b = avail_since q b @ logged_ops (lk_log c) @ stored_heads c"
proof -
  note inv = publish_lock.linv_reachable [OF area_ok_of [OF assms(1)] assms(3)]
  then obtain a where ser: "serial_run (\<lambda>i a r a'. a' = area_put (vq_num q) a i) (area_of q) (lk_log c) a"
    and st: "case lk_owner c of None \<Rightarrow> lk_shared c = a
        | Some t \<Rightarrow> \<exists>i l. lk_threads c t = Inside i l \<and> publish_sect (vq_num q) i a l (lk_shared c)"
    unfolding locked_inv_def by blast
  from serial_since [OF assms(1,2) ser, of b] assms(4) have a: "area_ok (vq_num q) a"
      "avail_since (with_area q a) b = avail_since q b @ logged_ops (lk_log c)" by auto
  have "length (logged_ops (lk_log c)) = length (lk_log c)" by (simp add: logged_ops_def)
  then have room: "unat (av_idx a - b) < unat (vq_num q)"
    using length_avail_with_area [of q a b] assms(4) unfolding a(2) by simp
  show ?thesis
  proof (cases "lk_owner c")
    case None
    then show ?thesis using st a(2) by (simp add: stored_heads_def)
  next
    case (Some t)
    then obtain i l where t: "lk_threads c t = Inside i l" "publish_sect (vq_num q) i a l (lk_shared c)" using st by auto
    from t(2) consider "publish_ended l = None" "lk_shared c = a \<or> lk_shared c = area_stored (vq_num q) a i"
      | "publish_ended l \<noteq> None" "lk_shared c = area_put (vq_num q) a i"
      by (auto simp: publish_sect_def publish_ended_def split: publish_pc.splits)
    then show ?thesis
    proof cases
      case 1
      then show ?thesis using Some t(1) a(2) stored_since [OF a(1) assms(2) room] by (auto simp: stored_heads_def)
    next
      case 2
      then show ?thesis using Some t(1) a(2) put_since [OF assms(1) a(1) assms(2) room] by (simp add: stored_heads_def)
    qed
  qed
qed

text \<open>With the lock free the area is what \<^verbatim>\<open>virtq_put_desc_chain\<close> makes of it in the order of the sections.\<close>

lemma submissions_serial:
  assumes "virtq_inv q" and "publish_runs q c" and "lk_owner c = None"
  shows "serial_run (\<lambda>i p r p'. p' = virtq_put_post p (vq_desc p) i) q (lk_log c) (with_area q (lk_shared c))"
proof -
  have lift: "serial_run (\<lambda>i p r p'. p' = virtq_put_post p (vq_desc p) i) q log (with_area q a)"
    if "serial_run (\<lambda>i a r a'. a' = area_put (vq_num q) a i) (area_of q) log a" for log :: "(nat \<times> u16 \<times> unit) list" and a
    using that
  proof (induction log arbitrary: a)
    case (Cons x log)
    obtain t i r where x: "x = (t, i, r)" by (cases x)
    from Cons.prems obtain m where m: "serial_run (\<lambda>i a r a'. a' = area_put (vq_num q) a i) (area_of q) log m"
      "a = area_put (vq_num q) m i" by (auto simp: x)
    from Cons.IH [OF m(1)] with_area_put [of "with_area q m" i] m(2) show ?case
      by (auto simp: x intro!: exI [of _ "with_area q m"])
  qed simp
  from publish_lock.serializable [OF publish_lock.linv_reachable [OF area_ok_of [OF assms(1)] assms(2)]] assms(3)
  show ?thesis using lift by auto
qed

section \<open>Concrete inputs\<close>

text \<open>The queue of \<^theory_text>\<open>Virtq\<close> with another index; the second thread is through, the first has stored its entry.\<close>

definition publish_queue :: virtq where
  "publish_queue = virtq_example\<lparr> vq_avail_idx := 3 \<rparr>"

lemma publish_queue: "virtq_inv publish_queue" "unat (vq_num publish_queue) dvd 65536"
  using virtq_inv_example by (auto simp: publish_queue_def virtq_inv_def free_list_def virtq_example_def)

definition publish_moves :: "u16 lock_move list" where
  "publish_moves = [Call 0 0, Call 1 1, Acquire 1, Work 1, Work 1, Work 1, Work 1, Work 1, Release 1, Acquire 0, Work 0, Work 0]"

definition publish_reached :: "(u16, publish_local, avail_area, unit) locked" where
  "publish_reached = the (lock_dos (\<lambda>i. True) publish_first (publish_work (vq_num publish_queue)) publish_ended publish_moves
     (unlocked (area_of publish_queue)))"

lemma publish_reached: "publish_runs publish_queue publish_reached"
proof -
  have "lock_dos (\<lambda>i. True) publish_first (publish_work (vq_num publish_queue)) publish_ended publish_moves
      (unlocked (area_of publish_queue)) \<noteq> None" by code_simp
  then show ?thesis using lock_dos_steps by (fastforce simp: publish_reached_def)
qed

theorem device_sees_published_witness:
  "avail_since (with_area publish_queue (lk_shared publish_reached)) (vq_avail_idx publish_queue) = [1] \<and>
   lk_owner publish_reached = Some 0"
proof -
  have "logged_ops (lk_log publish_reached) = [1] \<and> stored_heads publish_reached = [] \<and> lk_owner publish_reached = Some 0 \<and>
      length (avail_since publish_queue (vq_avail_idx publish_queue)) + length (lk_log publish_reached) < unat (vq_num publish_queue) \<and>
      avail_since publish_queue (vq_avail_idx publish_queue) = []" by code_simp
  then show ?thesis using device_sees_published [OF publish_queue publish_reached] by simp
qed

end
