(* ===== verification/Virtio_Threads.thy ===== *)
theory Virtio_Threads
  imports Virtio Locks
begin

text \<open>
  The operations of \<^verbatim>\<open>virtio/virtio.c\<close> under the lock of the device as single register accesses of several
  threads. The registers of a queue are those of the queue selected last, and a status bit is added by a load and a
  store: both go wrong when accesses of two threads mix. The theory interprets \<open>critical_section\<close> and shows that with
  the lock no bit is lost and every access reaches the queue it is meant for.
\<close>

section \<open>Register accesses\<close>

text \<open>
  What of the device the operations share: the status, the selected queue, and the accesses to registers of
  queues so far, newest first, each with the queue it reached.
\<close>

record 'a registers =
  reg_status :: u8
  reg_select :: u16
  reg_accesses :: "(u16 \<times> 'a) list"

text \<open>
  \<open>Add_status\<close> is \<^verbatim>\<open>virtio_add_device_status\<close>. \<open>Queue_accesses i as\<close> is one of the operations that select queue \<open>i\<close>
  and then access its registers, \<open>as\<close> in order: \<^verbatim>\<open>virtio_notify_queue\<close>, \<^verbatim>\<open>virtio_enable_queue\<close>,
  \<^verbatim>\<open>virtio_max_queue_size\<close>, \<^verbatim>\<open>virtio_set_queue_size\<close>, \<^verbatim>\<open>virtio_set_queue_reset\<close>, \<^verbatim>\<open>virtio_get_queue_reset\<close>.
\<close>

datatype 'a device_op = Add_status u8 | Queue_accesses u16 "'a list"

datatype 'a device_local =
    Status_load u8
  | Status_store u8 u8
  | Select_queue u16 "'a list"
  | Access_regs "'a list"
  | Device_unlock

fun device_first :: "'a device_op \<Rightarrow> 'a device_local" where
  "device_first (Add_status b) = Status_load b"
| "device_first (Queue_accesses i as) = Select_queue i as"

fun device_work :: "'a device_local \<Rightarrow> 'a registers \<Rightarrow> ('a device_local \<times> 'a registers) option" where
  "device_work (Status_load b) r = Some (Status_store b (reg_status r), r)"
| "device_work (Status_store b s) r = Some (Device_unlock, r\<lparr> reg_status := s OR b \<rparr>)"
| "device_work (Select_queue i as) r = Some (Access_regs as, r\<lparr> reg_select := i \<rparr>)"
| "device_work (Access_regs (a # as)) r = Some (Access_regs as, r\<lparr> reg_accesses := (reg_select r, a) # reg_accesses r \<rparr>)"
| "device_work (Access_regs []) r = Some (Device_unlock, r)"
| "device_work Device_unlock r = None"

definition device_ended :: "'a device_local \<Rightarrow> unit option" where
  "device_ended l = (case l of Device_unlock \<Rightarrow> Some () | _ \<Rightarrow> None)"

section \<open>The section\<close>

fun device_serial :: "'a device_op \<Rightarrow> 'a registers \<Rightarrow> unit \<Rightarrow> 'a registers \<Rightarrow> bool" where
  "device_serial (Add_status b) r u r' \<longleftrightarrow> r' = r\<lparr> reg_status := reg_status r OR b \<rparr>"
| "device_serial (Queue_accesses i as) r u r' \<longleftrightarrow>
     r' = r\<lparr> reg_select := i, reg_accesses := map (Pair i) (rev as) @ reg_accesses r \<rparr>"

fun device_sect :: "'a device_op \<Rightarrow> 'a registers \<Rightarrow> 'a device_local \<Rightarrow> 'a registers \<Rightarrow> bool" where
  "device_sect (Add_status b) r l r' \<longleftrightarrow>
     l = Status_load b \<and> r' = r \<or> l = Status_store b (reg_status r) \<and> r' = r \<or>
     l = Device_unlock \<and> device_serial (Add_status b) r () r'"
| "device_sect (Queue_accesses i as) r l r' \<longleftrightarrow>
     l = Select_queue i as \<and> r' = r \<or>
     (\<exists>front rest. as = front @ rest \<and> l = Access_regs rest \<and> device_serial (Queue_accesses i front) r () r') \<or>
     l = Device_unlock \<and> device_serial (Queue_accesses i as) r () r'"

fun device_left :: "'a device_local \<Rightarrow> nat" where
  "device_left (Status_load b) = 2"
| "device_left (Status_store b s) = 1"
| "device_left (Select_queue i as) = length as + 2"
| "device_left (Access_regs as) = length as + 1"
| "device_left Device_unlock = 0"

lemma device_sect_work:
  assumes "device_sect op r l r'" and "device_ended l = None"
  shows "\<exists>l' r''. device_work l r' = Some (l', r'') \<and> device_sect op r l' r'' \<and> device_left l' < device_left l"
proof (cases op)
  case (Add_status b)
  then show ?thesis using assms by (auto simp: device_ended_def)
next
  case (Queue_accesses i as)
  with assms consider "l = Select_queue i as" "r' = r"
    | front rest where "as = front @ rest" "l = Access_regs rest" "device_serial (Queue_accesses i front) r () r'"
    by (auto simp: device_ended_def)
  then show ?thesis
  proof cases
    case 1
    then show ?thesis using Queue_accesses by (auto intro!: exI [of _ "[]"])
  next
    case (2 dn rest)
    show ?thesis
    proof (cases rest)
      case Nil
      then show ?thesis using 2 Queue_accesses by simp
    next
      case (Cons a rest')
      then show ?thesis using 2 Queue_accesses by (auto intro!: exI [of _ "dn @ [a]"])
    qed
  qed
qed

interpretation device_lock: critical_section "\<lambda>op. True" device_first device_work device_ended "\<lambda>r. True"
    device_sect device_serial "\<lambda>op r. device_left"
proof
  fix op :: "'a device_op" and r l r' u
  show "device_sect op r (device_first op) r" by (cases op) simp_all
  assume sect: "device_sect op r l r'"
  show "\<exists>l' r''. device_work l r' = Some (l', r'') \<and> device_sect op r l' r'' \<and> device_left l' < device_left l"
    if "device_ended l = None" by (rule device_sect_work [OF sect that])
  show "device_serial op r u r' \<and> True" if "device_ended l = Some u"
    using sect that by (cases op) (auto simp: device_ended_def split: device_local.splits)
qed

section \<open>No bit is lost and no access goes astray\<close>

text \<open>The bits that operations add, and the accesses they make, each with the queue it is meant for.\<close>

fun status_bits :: "'a device_op list \<Rightarrow> u8" where
  "status_bits [] = 0"
| "status_bits (Add_status b # ops) = b OR status_bits ops"
| "status_bits (Queue_accesses i as # ops) = status_bits ops"

fun meant_accesses :: "'a device_op list \<Rightarrow> (u16 \<times> 'a) list" where
  "meant_accesses [] = []"
| "meant_accesses (Add_status b # ops) = meant_accesses ops"
| "meant_accesses (Queue_accesses i as # ops) = map (Pair i) as @ meant_accesses ops"

lemma status_bits_append [simp]: "status_bits (xs @ ys) = status_bits xs OR status_bits ys"
  by (induction xs rule: status_bits.induct) (simp_all add: or.assoc)

lemma meant_accesses_append [simp]: "meant_accesses (xs @ ys) = meant_accesses xs @ meant_accesses ys"
  by (induction xs rule: meant_accesses.induct) simp_all

lemma device_serial_run:
  "serial_run device_serial r0 log r \<Longrightarrow>
   reg_status r = reg_status r0 OR status_bits (logged_ops log) \<and>
   rev (reg_accesses r) = rev (reg_accesses r0) @ meant_accesses (logged_ops log)"
proof (induction log arbitrary: r)
  case (Cons x log)
  obtain t op u where x: "x = (t, op, u)" by (cases x)
  from Cons.prems obtain m where m: "serial_run device_serial r0 log m" "device_serial op m u r" by (auto simp: x)
  from Cons.IH [OF m(1)] m(2) show ?case by (cases op) (simp_all add: x or.assoc rev_map)
qed simp

abbreviation device_runs where
  "device_runs r \<equiv> lock_steps (\<lambda>op. True) device_first device_work device_ended (unlocked r)"


section \<open>Concrete inputs\<close>

definition device_moves :: "nat device_op lock_move list" where
  "device_moves = [Call 0 (Add_status 4), Call 1 (Queue_accesses 1 [7]), Acquire 0, Work 0, Call 2 (Add_status 8), Work 0,
     Release 0, Acquire 1, Work 1, Work 1, Work 1, Release 1, Acquire 2, Work 2, Work 2, Release 2]"

definition device_reached :: "(nat device_op, nat device_local, nat registers, unit) locked" where
  "device_reached = the (lock_dos (\<lambda>op. True) device_first device_work device_ended device_moves
     (unlocked \<lparr> reg_status = 3, reg_select = 0, reg_accesses = [] \<rparr>))"

lemma device_reached: "device_runs \<lparr> reg_status = 3, reg_select = 0, reg_accesses = [] \<rparr> device_reached"
proof -
  have "lock_dos (\<lambda>op. True) device_first device_work device_ended device_moves
      (unlocked \<lparr> reg_status = 3, reg_select = 0, reg_accesses = [] \<rparr>) \<noteq> None" by code_simp
  then show ?thesis using lock_dos_steps by (fastforce simp: device_reached_def)
qed


end
