(* ===== verification/Logging_Threads.thy ===== *)
theory Logging_Threads
  imports Logging
begin

text \<open>
  \<^verbatim>\<open>utils/logging/logging.c\<close> under threads: the accesses of \<^verbatim>\<open>logging_init\<close>, \<^verbatim>\<open>logging_shutdown\<close> and
  \<^verbatim>\<open>logging_log_impl\<close> to the context as steps. The first two hold the mutex, the last does not. The theory shows that
  a step sequence of one thread alone is the function of \<^theory_text>\<open>Logging\<close>, what log calls may rely on while nobody shuts
  the library down, and a schedule in which a shutdown takes the buffer away under a log call.
\<close>

section \<open>Steps\<close>

record log_args =
  la_severity :: int
  la_file :: string
  la_line :: int
  la_text :: "string option"

datatype log_pc =
    Log_away
  | Init_lock "string option" u32
  | Init_test string u32
  | Init_register string u32
  | Init_flags u32
  | Init_set
  | Init_unlock rc
  | Shut_lock
  | Shut_test
  | Shut_reset
  | Shut_buffer
  | Shut_clear
  | Shut_flags
  | Shut_unlock
  | Log_test log_args
  | Log_buffer log_args
  | Log_format log_args
  | Log_load log_args string
  | Log_call log_args string ptr
  | Log_stdout log_args string

record log_sys =
  ls_ctx :: logging_ctx
  ls_hist :: "log_event list"
  ls_owner :: "nat option"

definition log_config :: "string \<Rightarrow> slog2_config" where
  "log_config i = \<lparr> buffer_set_name = i, num_buffers = 1, verbosity_level = SLOG2_DEBUG2, buffer_name = ''main'', num_pages = 8 \<rparr>"

text \<open>
  A step of thread \<open>t\<close> at a place; \<open>None\<close> when it has to wait for the mutex or has returned. As in
  \<^theory_text>\<open>Logging\<close>, \<^verbatim>\<open>logging_shutdown\<close> goes on when locking fails; it then does not own the mutex.
\<close>

definition log_work :: "log_env \<Rightarrow> nat \<Rightarrow> log_pc \<Rightarrow> log_sys \<Rightarrow> (log_pc \<times> log_sys) option" where
  "log_work env t pc s =
     (let ctx = ls_ctx s; h = ls_hist s
      in case pc of
        Log_away \<Rightarrow> None
      | Init_lock ident flags \<Rightarrow>
          (case ident of
             None \<Rightarrow> Some (Log_away, s)
           | Some i \<Rightarrow>
               if ls_owner s \<noteq> None then None
               else let ret = le_mutex_lock env h; s = s\<lparr> ls_hist := Mutex_lock ret # h \<rparr>
                    in if ret \<noteq> EOK then Some (Log_away, s)
                       else Some (Init_test i flags, s\<lparr> ls_owner := Some t \<rparr>))
      | Init_test i flags \<Rightarrow> Some (if log_initialized ctx then Init_unlock EALREADY else Init_register i flags, s)
      | Init_register i flags \<Rightarrow>
          (let config = log_config i;
               (ret, buf) = le_register env h config;
               s = s\<lparr> ls_hist := Slog2_register config ret # h,
                      ls_ctx := (case buf of None \<Rightarrow> ctx | Some b \<Rightarrow> ctx\<lparr> log_buffer := b \<rparr>) \<rparr>
           in Some (if ret \<noteq> EOK then Init_unlock ret else Init_flags flags, s))
      | Init_flags flags \<Rightarrow> Some (Init_set, s\<lparr> ls_ctx := ctx\<lparr> log_flags := flags \<rparr> \<rparr>)
      | Init_set \<Rightarrow> Some (Init_unlock EOK, s\<lparr> ls_ctx := ctx\<lparr> log_initialized := True \<rparr> \<rparr>)
      | Init_unlock rc \<Rightarrow> Some (Log_away, s\<lparr> ls_hist := Mutex_unlock # h, ls_owner := None \<rparr>)
      | Shut_lock \<Rightarrow>
          if ls_owner s \<noteq> None then None
          else let ret = le_mutex_lock env h; s = s\<lparr> ls_hist := Mutex_lock ret # h \<rparr>
               in Some (Shut_test, if ret = EOK then s\<lparr> ls_owner := Some t \<rparr> else s)
      | Shut_test \<Rightarrow> Some (if log_initialized ctx then Shut_reset else Shut_unlock, s)
      | Shut_reset \<Rightarrow> Some (Shut_buffer, s\<lparr> ls_hist := Slog2_reset # h \<rparr>)
      | Shut_buffer \<Rightarrow> Some (Shut_clear, s\<lparr> ls_ctx := ctx\<lparr> log_buffer := 0 \<rparr> \<rparr>)
      | Shut_clear \<Rightarrow> Some (Shut_flags, s\<lparr> ls_ctx := ctx\<lparr> log_initialized := False \<rparr> \<rparr>)
      | Shut_flags \<Rightarrow> Some (Shut_unlock, s\<lparr> ls_ctx := ctx\<lparr> log_flags := LOG_FLAG_NONE \<rparr> \<rparr>)
      | Shut_unlock \<Rightarrow>
          Some (Log_away, s\<lparr> ls_hist := Mutex_unlock # h, ls_owner := (if ls_owner s = Some t then None else ls_owner s) \<rparr>)
      | Log_test a \<Rightarrow> Some (if log_initialized ctx then Log_buffer a else Log_away, s)
      | Log_buffer a \<Rightarrow> Some (if log_buffer ctx = 0 then Log_away else Log_format a, s)
      | Log_format a \<Rightarrow> Some (case la_text a of None \<Rightarrow> Log_away | Some text \<Rightarrow> Log_load a (take 1023 text), s)
      | Log_load a m \<Rightarrow> Some (Log_call a m (log_buffer ctx), s)
      | Log_call a m b \<Rightarrow>
          Some (Log_stdout a m,
            s\<lparr> ls_hist := Slog2f b (la_severity a) (''['' @ la_file a @ '':'' @ sdec (la_line a) @ ''] '' @ m) # h \<rparr>)
      | Log_stdout a m \<Rightarrow>
          Some (Log_away,
            if log_flags ctx AND LOG_FLAG_STDOUT \<noteq> 0
            then s\<lparr> ls_hist := Printed (''['' @ get_severity_name (la_severity a) @ ''] ['' @ basename (la_file a) @ '':'' @
                     sdec (la_line a) @ ''] '' @ m) # h \<rparr>
            else s))"

text \<open>One thread alone, until it has returned.\<close>

fun log_alone :: "log_env \<Rightarrow> nat \<Rightarrow> nat \<Rightarrow> log_pc \<Rightarrow> log_sys \<Rightarrow> log_sys option" where
  "log_alone env 0 t pc s = (if pc = Log_away then Some s else None)"
| "log_alone env (Suc n) t pc s =
     (if pc = Log_away then Some s
      else case log_work env t pc s of None \<Rightarrow> None | Some (pc, s) \<Rightarrow> log_alone env n t pc s)"

lemma log_alone_away [simp]: "log_alone env n t Log_away s = Some s"
  by (cases n) simp_all

lemma log_alone_step:
  "pc \<noteq> Log_away \<Longrightarrow> log_alone env (Suc n) t pc s =
     (case log_work env t pc s of None \<Rightarrow> None | Some (pc, s) \<Rightarrow> log_alone env n t pc s)"
  by simp

text \<open>The steps of one thread are the functions, on every path.\<close>

lemma log_alone_log:
  "log_alone env 6 t (Log_test a) s =
     Some (s\<lparr> ls_hist := logging_log_impl (la_severity a) (la_file a) (la_line a) (la_text a) (ls_ctx s) (ls_hist s) \<rparr>)"
  by (cases "log_initialized (ls_ctx s)"; cases "log_buffer (ls_ctx s) = 0"; cases "la_text a")
    (simp_all add: eval_nat_numeral log_work_def logging_log_impl_def Let_def del: take_Suc)

lemma log_alone_init:
  assumes "ls_owner s = None" and "logging_init env ident flags (ls_ctx s) (ls_hist s) = (rc, ctx, h)"
  shows "log_alone env 6 t (Init_lock ident flags) s = Some (s\<lparr> ls_ctx := ctx, ls_hist := h \<rparr>)"
proof (cases ident)
  case None
  then show ?thesis using assms by (simp add: eval_nat_numeral log_work_def logging_init_def Let_def)
next
  case (Some i)
  let ?lock = "le_mutex_lock env (ls_hist s)"
  obtain ret buf where r: "le_register env (Mutex_lock ?lock # ls_hist s) (log_config i) = (ret, buf)" by fastforce
  show ?thesis
  proof (cases "?lock \<noteq> EOK \<or> log_initialized (ls_ctx s)")
    case True
    then show ?thesis using assms Some by (auto simp: eval_nat_numeral log_work_def logging_init_def Let_def)
  next
    case False
    then show ?thesis using assms Some r
      by (cases buf; cases "ret = EOK")
        (auto simp: eval_nat_numeral log_work_def logging_init_def Let_def log_config_def [symmetric])
  qed
qed

lemma log_alone_shutdown:
  assumes "ls_owner s = None" and "logging_shutdown env (ls_ctx s) (ls_hist s) = (ctx, h)"
  shows "log_alone env 7 t Shut_lock s = Some (s\<lparr> ls_ctx := ctx, ls_hist := h \<rparr>)"
  using assms
  by (auto simp: eval_nat_numeral log_work_def logging_shutdown_def Let_def split: if_splits)

section \<open>Any number of threads\<close>

text \<open>The places where a call begins; a thread that is away may begin any.\<close>

definition log_entry :: "log_pc \<Rightarrow> bool" where
  "log_entry pc \<longleftrightarrow> (case pc of Init_lock _ _ \<Rightarrow> True | Shut_lock \<Rightarrow> True | Log_test _ \<Rightarrow> True | _ \<Rightarrow> False)"

inductive log_moves :: "log_env \<Rightarrow> (nat \<Rightarrow> log_pc) \<times> log_sys \<Rightarrow> (nat \<Rightarrow> log_pc) \<times> log_sys \<Rightarrow> bool" for env where
  Log_enter: "pcs t = Log_away \<Longrightarrow> log_entry pc \<Longrightarrow> log_moves env (pcs, s) (pcs(t := pc), s)"
| Log_go: "log_work env t (pcs t) s = Some (pc, s') \<Longrightarrow> log_moves env (pcs, s) (pcs(t := pc), s')"

text \<open>Schedules, to run.\<close>

datatype log_move = Enter nat log_pc | Go nat

fun log_run :: "log_env \<Rightarrow> log_move list \<Rightarrow> (nat \<Rightarrow> log_pc) \<times> log_sys \<Rightarrow> ((nat \<Rightarrow> log_pc) \<times> log_sys) option" where
  "log_run env [] c = Some c"
| "log_run env (Enter t pc # ms) (pcs, s) =
     (if pcs t = Log_away \<and> log_entry pc then log_run env ms (pcs(t := pc), s) else None)"
| "log_run env (Go t # ms) (pcs, s) =
     (case log_work env t (pcs t) s of None \<Rightarrow> None | Some (pc, s) \<Rightarrow> log_run env ms (pcs(t := pc), s))"

lemma log_run_moves: "log_run env ms c = Some c' \<Longrightarrow> (log_moves env)\<^sup>*\<^sup>* c c'"
proof (induction env ms c rule: log_run.induct)
  case (2 env t pc ms pcs s)
  then have "log_moves env (pcs, s) (pcs(t := pc), s)" by (intro Log_enter) (auto split: if_splits)
  then show ?case using 2 by (auto split: if_splits intro: converse_rtranclp_into_rtranclp [of "log_moves env"])
next
  case (3 env t ms pcs s)
  then obtain pc s' where w: "log_work env t (pcs t) s = Some (pc, s')" "log_run env ms (pcs(t := pc), s') = Some c'"
    by (auto split: option.splits)
  show ?case using 3(1) [OF w(1) refl w(2)] Log_go [of env t pcs s, OF w(1)] by (metis converse_rtranclp_into_rtranclp)
qed simp

section \<open>While nobody shuts down\<close>

fun shutting :: "log_pc \<Rightarrow> bool" where
  "shutting Shut_lock = True" | "shutting Shut_test = True" | "shutting Shut_reset = True" | "shutting Shut_buffer = True"
| "shutting Shut_clear = True" | "shutting Shut_flags = True" | "shutting Shut_unlock = True" | "shutting _ = False"

text \<open>The handles that log calls have passed to \<^verbatim>\<open>slog2f\<close>.\<close>

fun used_handles :: "log_event list \<Rightarrow> ptr list" where
  "used_handles [] = []"
| "used_handles (Slog2f b sev m # h) = b # used_handles h"
| "used_handles (_ # h) = used_handles h"

text \<open>What each place knows of the context.\<close>

fun knows :: "nat \<Rightarrow> log_pc \<Rightarrow> log_sys \<Rightarrow> bool" where
  "knows t (Init_test i f) s \<longleftrightarrow> ls_owner s = Some t"
| "knows t (Init_register i f) s \<longleftrightarrow> ls_owner s = Some t \<and> \<not> log_initialized (ls_ctx s)"
| "knows t (Init_flags f) s \<longleftrightarrow> ls_owner s = Some t \<and> \<not> log_initialized (ls_ctx s) \<and> log_buffer (ls_ctx s) \<noteq> 0"
| "knows t Init_set s \<longleftrightarrow> ls_owner s = Some t \<and> \<not> log_initialized (ls_ctx s) \<and> log_buffer (ls_ctx s) \<noteq> 0"
| "knows t (Init_unlock rc) s \<longleftrightarrow> ls_owner s = Some t"
| "knows t (Log_buffer a) s \<longleftrightarrow> log_initialized (ls_ctx s)"
| "knows t (Log_format a) s \<longleftrightarrow> log_initialized (ls_ctx s)"
| "knows t (Log_load a m) s \<longleftrightarrow> log_initialized (ls_ctx s)"
| "knows t (Log_call a m b) s \<longleftrightarrow> b \<noteq> 0"
| "knows t pc s \<longleftrightarrow> \<not> shutting pc"

definition log_safe :: "(nat \<Rightarrow> log_pc) \<times> log_sys \<Rightarrow> bool" where
  "log_safe c \<longleftrightarrow> (case c of (pcs, s) \<Rightarrow>
     (\<forall>t. knows t (pcs t) s) \<and> (log_initialized (ls_ctx s) \<longrightarrow> log_buffer (ls_ctx s) \<noteq> 0) \<and>
     0 \<notin> set (used_handles (ls_hist s)))"

definition registers_ok :: "log_env \<Rightarrow> bool" where
  "registers_ok env \<longleftrightarrow> (\<forall>h c buf. le_register env h c = (EOK, buf) \<longrightarrow> (\<exists>b. buf = Some b \<and> b \<noteq> 0))"

text \<open>A step of one thread leaves what the others know.\<close>

lemma log_work_knows:
  assumes "registers_ok env" and "knows t pc s" and "log_initialized (ls_ctx s) \<Longrightarrow> log_buffer (ls_ctx s) \<noteq> 0"
    and "0 \<notin> set (used_handles (ls_hist s))" and "log_work env t pc s = Some (pc', s')"
  shows "knows t pc' s' \<and> (log_initialized (ls_ctx s') \<longrightarrow> log_buffer (ls_ctx s') \<noteq> 0) \<and> 0 \<notin> set (used_handles (ls_hist s'))"
proof -
  have "b \<noteq> 0" if "le_register env h c = (EOK, Some b)" for h c b using assms(1) that by (fastforce simp: registers_ok_def)
  moreover have "le_register env h c \<noteq> (EOK, None)" for h c using assms(1) by (fastforce simp: registers_ok_def)
  ultimately show ?thesis
    using assms(2-5) by (cases pc) (auto simp: log_work_def Let_def split: if_splits option.splits prod.splits)
qed

text \<open>What the others know does not change: the mutex keeps them out of the places that know more.\<close>

lemma log_work_others:
  assumes "registers_ok env" and "knows t pc s" and "log_work env t pc s = Some (pc', s')" and "u \<noteq> t" and "knows u p s"
  shows "knows u p s'"
proof -
  have kept: "log_initialized (ls_ctx s) \<longrightarrow> log_initialized (ls_ctx s')"
    "ls_owner s = Some u \<Longrightarrow> ls_owner s' = Some u \<and> ls_ctx s' = ls_ctx s"
    using assms(2,3,4) by (cases pc; auto simp: log_work_def Let_def split: if_splits option.splits prod.splits)+
  then show ?thesis using assms(5) by (cases p) auto
qed

lemma log_safe_moves:
  assumes "registers_ok env" and "log_moves env c c'" and "log_safe c" and "\<forall>t. \<not> shutting (fst c' t)"
  shows "log_safe c'"
  using assms(2)
proof cases
  case (Log_enter pcs t pc s)
  have "knows t pc s" using Log_enter(2,4) spec [OF assms(4), of t] by (cases pc) (auto simp: log_entry_def)
  then show ?thesis using Log_enter(1,2) assms(3) by (auto simp: log_safe_def)
next
  case (Log_go t pcs s pc s')
  then have safe: "\<forall>u. knows u (pcs u) s" "log_initialized (ls_ctx s) \<longrightarrow> log_buffer (ls_ctx s) \<noteq> 0"
    "0 \<notin> set (used_handles (ls_hist s))" using assms(3) by (auto simp: log_safe_def)
  have "knows t pc s' \<and> (log_initialized (ls_ctx s') \<longrightarrow> log_buffer (ls_ctx s') \<noteq> 0) \<and> 0 \<notin> set (used_handles (ls_hist s'))"
    by (rule log_work_knows [OF assms(1) _ _ safe(3) Log_go(3)]) (use safe in auto)
  moreover have "knows u (pcs u) s'" if "u \<noteq> t" for u
    by (rule log_work_others [OF assms(1) _ Log_go(3) that]) (use safe(1) in auto)
  ultimately show ?thesis using Log_go(2) by (auto simp: log_safe_def)
qed

text \<open>
  Log calls that race only with each other and with \<^verbatim>\<open>logging_init\<close> are safe: as long as no thread is in
  \<^verbatim>\<open>logging_shutdown\<close>, every handle passed to \<^verbatim>\<open>slog2f\<close> is one that \<^verbatim>\<open>slog2_register\<close> stored, never the null pointer.
\<close>

inductive runs_up :: "log_env \<Rightarrow> (nat \<Rightarrow> log_pc) \<times> log_sys \<Rightarrow> bool" for env where
  Up_start: "runs_up env (\<lambda>t. Log_away, \<lparr> ls_ctx = g_log_ctx, ls_hist = [], ls_owner = None \<rparr>)"
| Up_move: "runs_up env c \<Longrightarrow> log_moves env c c' \<Longrightarrow> \<forall>t. \<not> shutting (fst c' t) \<Longrightarrow> runs_up env c'"

theorem log_calls_without_shutdown:
  assumes "registers_ok env" and "runs_up env (pcs, s)"
  shows "0 \<notin> set (used_handles (ls_hist s))"
proof -
  have "log_safe c" if "runs_up env c" for c
    using that
  proof induction
    case Up_start
    then show ?case by (simp add: log_safe_def g_log_ctx_def)
  next
    case (Up_move c c')
    then show ?case by (blast intro: log_safe_moves [OF assms(1)])
  qed
  from this [OF assms(2)] show ?thesis by (simp add: log_safe_def)
qed

section \<open>A shutdown under a log call\<close>

definition log_env1 :: log_env where
  "log_env1 = \<lparr> le_mutex_lock = (\<lambda>h. EOK), le_register = (\<lambda>h c. (EOK, Some 0x9000)) \<rparr>"

definition log_args1 :: log_args where
  "log_args1 = \<lparr> la_severity = 6, la_file = ''a.c'', la_line = 1, la_text = Some ''x'' \<rparr>"

text \<open>
  The library is initialised; thread 0 logs and passes both tests, then thread 1 shuts the library down,
  then thread 0 goes on with the null pointer.
\<close>

definition log_race :: "log_move list" where
  "log_race = Enter 1 (Init_lock (Some ''gpio'') 0) # replicate 6 (Go 1) @
     [Enter 0 (Log_test log_args1), Go 0, Go 0, Go 0, Enter 1 Shut_lock] @ replicate 7 (Go 1) @ [Go 0, Go 0]"

theorem logging_shutdown_race:
  "\<exists>pcs s. (log_moves log_env1)\<^sup>*\<^sup>* (\<lambda>t. Log_away, \<lparr> ls_ctx = g_log_ctx, ls_hist = [], ls_owner = None \<rparr>) (pcs, s) \<and>
     used_handles (ls_hist s) = [0] \<and> Slog2_reset \<in> set (ls_hist s)"
proof -
  let ?c = "(\<lambda>t. Log_away, \<lparr> ls_ctx = g_log_ctx, ls_hist = [], ls_owner = None \<rparr>)"
  have "(case log_run log_env1 log_race ?c of None \<Rightarrow> False
         | Some (pcs, s) \<Rightarrow> used_handles (ls_hist s) = [0] \<and> list_ex (\<lambda>e. e = Slog2_reset) (ls_hist s))"
    by code_simp
  then obtain pcs s where "log_run log_env1 log_race ?c = Some (pcs, s)" "used_handles (ls_hist s) = [0]"
    "Slog2_reset \<in> set (ls_hist s)" by (auto split: option.splits simp: list_ex_iff)
  then show ?thesis using log_run_moves by blast
qed

end
